(* ===== verification/Prelude.thy ===== *)
theory Prelude
  imports Complex_Main "HOL-Library.Char_ord" "HOL-Library.List_Lexorder"
    "HOL-Library.AList" "HOL-Library.Sublist" "HOL-Library.Word"
begin

text \<open>
  The prelude of the development: the collections of simplification rules the
  component theories fill, the type names they share, 64-bit two's complement
  arithmetic on \<^typ>\<open>int\<close>, and generic lemmas on lists that the models of the
  string functions and of the mail store use.
\<close>

named_theorems go_simps \<open>equations that evaluate the models of the Go standard library\<close>
named_theorems fs_simps \<open>laws of the file system model\<close>
named_theorems store_simps \<open>laws of the user store and the mail store\<close>

type_synonym byte = nat
type_synonym rune = nat
type_synonym time = int
type_synonym u32 = "32 word"
type_synonym u64 = "64 word"

text \<open>Go's \<^verbatim>\<open>byte(c)\<close> of a character of a string: strings are byte sequences.\<close>

abbreviation byte_of :: "char \<Rightarrow> byte" where
  "byte_of c \<equiv> of_char c"

section \<open>64-bit integers\<close>

text \<open>
  Go's \<^verbatim>\<open>int\<close> and \<^verbatim>\<open>int64\<close> are 64-bit two's complement integers. They are
  modelled by \<^typ>\<open>int\<close>, with the wrap-around of arithmetic written out.
\<close>

definition wrap64 :: "int \<Rightarrow> int" where
  "wrap64 x = (x + 2 ^ 63) mod 2 ^ 64 - 2 ^ 63"

definition int64 :: "int \<Rightarrow> bool" where
  "int64 x \<longleftrightarrow> - (2 ^ 63) \<le> x \<and> x < 2 ^ 63"

lemma wrap64_id [simp]: "int64 x \<Longrightarrow> wrap64 x = x"
  by (simp add: wrap64_def int64_def)

lemma int64_wrap64 [simp]: "int64 (wrap64 x)"
  using pos_mod_bound [of "2 ^ 64" "x + 2 ^ 63"] pos_mod_sign [of "2 ^ 64" "x + 2 ^ 63"]
  by (simp add: wrap64_def int64_def)

lemma wrap64_over:
  assumes "2 ^ 63 \<le> x" "x < 2 ^ 63 + 2 ^ 64"
  shows "wrap64 x = x - 2 ^ 64"
proof -
  have "(x + 2 ^ 63) mod 2 ^ 64 = (x + 2 ^ 63 - 2 ^ 64) mod 2 ^ 64"
    using minus_mod_self2 [of "x + 2 ^ 63" "2 ^ 64"] by (rule sym)
  also have "\<dots> = x + 2 ^ 63 - 2 ^ 64"
    using assms by (intro mod_pos_pos_trivial) auto
  finally show ?thesis
    by (simp add: wrap64_def)
qed

section \<open>Lists\<close>

lemma find_SomeD: "find P xs = Some x \<Longrightarrow> x \<in> set xs \<and> P x"
  by (induction xs) (auto split: if_splits)

lemma find_Some_unique:
  assumes "x \<in> set xs" "P x" and uniq: "\<And>y. y \<in> set xs \<Longrightarrow> P y \<Longrightarrow> y = x"
  shows "find P xs = Some x"
proof (cases "find P xs")
  case None
  with assms(1,2) show ?thesis by (auto simp: find_None_iff)
next
  case (Some y)
  with find_SomeD [OF Some] uniq show ?thesis by simp
qed

section \<open>Reachable states\<close>

text \<open>
  The states a step relation reaches from its initial states in a number of steps, and the
  interface of an invariant that may depend on the number of steps taken so far and is kept
  up to a bound.
\<close>

inductive reach :: "('s \<Rightarrow> bool) \<Rightarrow> ('s \<Rightarrow> 's \<Rightarrow> bool) \<Rightarrow> nat \<Rightarrow> 's \<Rightarrow> bool" for init step where
  reach_init: "init s \<Longrightarrow> reach init step 0 s"
| reach_step: "reach init step n s \<Longrightarrow> step s s' \<Longrightarrow> reach init step (Suc n) s'"

locale counted_invariant =
  fixes init :: "'s \<Rightarrow> bool" and step :: "'s \<Rightarrow> 's \<Rightarrow> bool" and inv :: "nat \<Rightarrow> 's \<Rightarrow> bool" and bound :: nat
  assumes inv_init: "init s \<Longrightarrow> inv 0 s"
    and inv_step: "inv n s \<Longrightarrow> n < bound \<Longrightarrow> step s s' \<Longrightarrow> inv (Suc n) s'"
begin

lemma reach_inv: "reach init step n s \<Longrightarrow> n \<le> bound \<Longrightarrow> inv n s"
  by (induction rule: reach.induct) (auto intro: inv_init inv_step)

end

end
