(* ===== verification/Unicode.thy ===== *)
theory Unicode
  imports Prelude
begin

text \<open>
  The parts of Go's \<^verbatim>\<open>unicode/utf8\<close>, \<^verbatim>\<open>unicode\<close> and \<^verbatim>\<open>strings\<close> packages that
  depend on Unicode: decoding a byte string into runes (an invalid byte is the
  replacement rune of width one, as in a \<^verbatim>\<open>range\<close> loop), encoding a rune,
  simple case folding and mapping, white space, and on top of them
  \<^verbatim>\<open>strings.EqualFold\<close>, \<^verbatim>\<open>ToLower\<close>, \<^verbatim>\<open>ToUpper\<close>, \<^verbatim>\<open>TrimSpace\<close> and \<^verbatim>\<open>Fields\<close>.
  The three case tables are the simple mappings of the Unicode character
  database (folding: the entries of status C and S), in the range format
  \<open>(first, last, stride, delta)\<close>; they list the code points from 128 on.
\<close>

section \<open>UTF-8\<close>

definition RuneError :: rune where
  "RuneError = 0xFFFD"

definition cont_byte :: "byte \<Rightarrow> bool" where
  "cont_byte b \<longleftrightarrow> 0x80 \<le> b \<and> b \<le> 0xBF"

text \<open>\<^verbatim>\<open>utf8.DecodeRuneInString\<close>: the first rune of a non-empty string and its width.\<close>

fun decode_rune :: "byte list \<Rightarrow> rune \<times> nat" where
  "decode_rune [] = (RuneError, 0)"
| "decode_rune (b0 # bs) =
    (if b0 < 0x80 then (b0, 1)
     else if 0xC2 \<le> b0 \<and> b0 \<le> 0xDF then
       (case bs of
          b1 # _ \<Rightarrow>
            if cont_byte b1 then ((b0 - 0xC0) * 64 + (b1 - 0x80), 2) else (RuneError, 1)
        | [] \<Rightarrow> (RuneError, 1))
     else if 0xE0 \<le> b0 \<and> b0 \<le> 0xEF then
       (case bs of
          b1 # b2 # _ \<Rightarrow>
            if cont_byte b1 \<and> cont_byte b2 \<and> (b0 = 0xE0 \<longrightarrow> 0xA0 \<le> b1) \<and> (b0 = 0xED \<longrightarrow> b1 \<le> 0x9F)
            then ((b0 - 0xE0) * 4096 + (b1 - 0x80) * 64 + (b2 - 0x80), 3)
            else (RuneError, 1)
        | _ \<Rightarrow> (RuneError, 1))
     else if 0xF0 \<le> b0 \<and> b0 \<le> 0xF4 then
       (case bs of
          b1 # b2 # b3 # _ \<Rightarrow>
            if cont_byte b1 \<and> cont_byte b2 \<and> cont_byte b3 \<and>
               (b0 = 0xF0 \<longrightarrow> 0x90 \<le> b1) \<and> (b0 = 0xF4 \<longrightarrow> b1 \<le> 0x8F)
            then ((b0 - 0xF0) * 262144 + (b1 - 0x80) * 4096 + (b2 - 0x80) * 64 + (b3 - 0x80), 4)
            else (RuneError, 1)
        | _ \<Rightarrow> (RuneError, 1))
     else (RuneError, 1))"

definition valid_rune :: "rune \<Rightarrow> bool" where
  "valid_rune r \<longleftrightarrow> r < 0xD800 \<or> 0xDFFF < r \<and> r \<le> 0x10FFFF"

text \<open>\<^verbatim>\<open>utf8.AppendRune\<close>: surrogates and out-of-range values are written as the
  replacement rune.\<close>

definition encode_bytes :: "rune \<Rightarrow> byte list" where
  "encode_bytes r =
    (if r < 0x80 then [r]
     else if r < 0x800 then [0xC0 + r div 64, 0x80 + r mod 64]
     else if r < 0x10000 then
       [0xE0 + r div 4096, 0x80 + r div 64 mod 64, 0x80 + r mod 64]
     else [0xF0 + r div 262144, 0x80 + r div 4096 mod 64, 0x80 + r div 64 mod 64, 0x80 + r mod 64])"

definition encode_rune :: "rune \<Rightarrow> string" where
  "encode_rune r = map char_of (encode_bytes (if valid_rune r then r else RuneError))"

lemma decode_rune_pos: "bs \<noteq> [] \<Longrightarrow> 0 < snd (decode_rune bs)"
  by (cases bs) (simp_all split: list.split)

declare decode_rune.simps(2) [simp del]

text \<open>The runes of a \<^verbatim>\<open>range\<close> loop over a string, each with the bytes it was read from.\<close>

function chunks :: "string \<Rightarrow> (rune \<times> string) list" where
  "chunks s =
    (if s = [] then []
     else let (r, n) = decode_rune (map byte_of s) in (r, take n s) # chunks (drop n s))"
  by pat_completeness auto
termination
proof (relation "measure length")
  fix s :: string and x r n
  assume "s \<noteq> []" "x = decode_rune (map byte_of s)" "(r, n) = x"
  then have "0 < n" using decode_rune_pos [of "map byte_of s"] by (metis list.map_disc_iff snd_conv)
  with \<open>s \<noteq> []\<close> show "(drop n s, s) \<in> measure length" by (cases s) (auto simp: in_measure)
qed simp

declare chunks.simps [simp del]

definition runes :: "string \<Rightarrow> rune list" where
  "runes s = map fst (chunks s)"

section \<open>Case and white space\<close>

type_synonym case_range = "nat \<times> nat \<times> nat \<times> int"

definition fold_table :: "case_range list" where
  "fold_table =
    [(181, 181, 1, 775), (192, 214, 1, 32), (216, 222, 1, 32), (256, 302, 2, 1),
     (306, 310, 2, 1), (313, 327, 2, 1), (330, 374, 2, 1), (376, 376, 1, - 121),
     (377, 381, 2, 1), (383, 383, 1, - 268), (385, 385, 1, 210), (386, 388, 2, 1),
     (390, 390, 1, 206), (391, 391, 1, 1), (393, 394, 1, 205), (395, 395, 1, 1),
     (398, 398, 1, 79), (399, 399, 1, 202), (400, 400, 1, 203), (401, 401, 1, 1),
     (403, 403, 1, 205), (404, 404, 1, 207), (406, 406, 1, 211), (407, 407, 1, 209),
     (408, 408, 1, 1), (412, 412, 1, 211), (413, 413, 1, 213), (415, 415, 1, 214),
     (416, 420, 2, 1), (422, 422, 1, 218), (423, 423, 1, 1), (425, 425, 1, 218),
     (428, 428, 1, 1), (430, 430, 1, 218), (431, 431, 1, 1), (433, 434, 1, 217),
     (435, 437, 2, 1), (439, 439, 1, 219), (440, 440, 1, 1), (444, 444, 1, 1),
     (452, 452, 1, 2), (453, 453, 1, 1), (455, 455, 1, 2), (456, 456, 1, 1), (458, 458, 1, 2),
     (459, 475, 2, 1), (478, 494, 2, 1), (497, 497, 1, 2), (498, 500, 2, 1),
     (502, 502, 1, - 97), (503, 503, 1, - 56), (504, 542, 2, 1), (544, 544, 1, - 130),
     (546, 562, 2, 1), (570, 570, 1, 10795), (571, 571, 1, 1), (573, 573, 1, - 163),
     (574, 574, 1, 10792), (577, 577, 1, 1), (579, 579, 1, - 195), (580, 580, 1, 69),
     (581, 581, 1, 71), (582, 590, 2, 1), (837, 837, 1, 116), (880, 882, 2, 1),
     (886, 886, 1, 1), (895, 895, 1, 116), (902, 902, 1, 38), (904, 906, 1, 37),
     (908, 908, 1, 64), (910, 911, 1, 63), (913, 929, 1, 32), (931, 939, 1, 32),
     (962, 962, 1, 1), (975, 975, 1, 8), (976, 976, 1, - 30), (977, 977, 1, - 25),
     (981, 981, 1, - 15), (982, 982, 1, - 22), (984, 1006, 2, 1), (1008, 1008, 1, - 54),
     (1009, 1009, 1, - 48), (1012, 1012, 1, - 60), (1013, 1013, 1, - 64), (1015, 1015, 1, 1),
     (1017, 1017, 1, - 7), (1018, 1018, 1, 1), (1021, 1023, 1, - 130), (1024, 1039, 1, 80),
     (1040, 1071, 1, 32), (1120, 1152, 2, 1), (1162, 1214, 2, 1), (1216, 1216, 1, 15),
     (1217, 1229, 2, 1), (1232, 1326, 2, 1), (1329, 1366, 1, 48), (4256, 4293, 1, 7264),
     (4295, 4295, 1, 7264), (4301, 4301, 1, 7264), (5112, 5117, 1, - 8),
     (7296, 7296, 1, - 6222), (7297, 7297, 1, - 6221), (7298, 7298, 1, - 6212),
     (7299, 7300, 1, - 6210), (7301, 7301, 1, - 6211), (7302, 7302, 1, - 6204),
     (7303, 7303, 1, - 6180), (7304, 7304, 1, 35267), (7312, 7354, 1, - 3008),
     (7357, 7359, 1, - 3008), (7680, 7828, 2, 1), (7835, 7835, 1, - 58),
     (7838, 7838, 1, - 7615), (7840, 7934, 2, 1), (7944, 7951, 1, - 8), (7960, 7965, 1, - 8),
     (7976, 7983, 1, - 8), (7992, 7999, 1, - 8), (8008, 8013, 1, - 8), (8025, 8031, 2, - 8),
     (8040, 8047, 1, - 8), (8072, 8079, 1, - 8), (8088, 8095, 1, - 8), (8104, 8111, 1, - 8),
     (8120, 8121, 1, - 8), (8122, 8123, 1, - 74), (8124, 8124, 1, - 9),
     (8126, 8126, 1, - 7173), (8136, 8139, 1, - 86), (8140, 8140, 1, - 9),
     (8152, 8153, 1, - 8), (8154, 8155, 1, - 100), (8168, 8169, 1, - 8),
     (8170, 8171, 1, - 112), (8172, 8172, 1, - 7), (8184, 8185, 1, - 128),
     (8186, 8187, 1, - 126), (8188, 8188, 1, - 9), (8486, 8486, 1, - 7517),
     (8490, 8490, 1, - 8383), (8491, 8491, 1, - 8262), (8498, 8498, 1, 28),
     (8544, 8559, 1, 16), (8579, 8579, 1, 1), (9398, 9423, 1, 26), (11264, 11311, 1, 48),
     (11360, 11360, 1, 1), (11362, 11362, 1, - 10743), (11363, 11363, 1, - 3814),
     (11364, 11364, 1, - 10727), (11367, 11371, 2, 1), (11373, 11373, 1, - 10780),
     (11374, 11374, 1, - 10749), (11375, 11375, 1, - 10783), (11376, 11376, 1, - 10782),
     (11378, 11378, 1, 1), (11381, 11381, 1, 1), (11390, 11391, 1, - 10815),
     (11392, 11490, 2, 1), (11499, 11501, 2, 1), (11506, 11506, 1, 1), (42560, 42604, 2, 1),
     (42624, 42650, 2, 1), (42786, 42798, 2, 1), (42802, 42862, 2, 1), (42873, 42875, 2, 1),
     (42877, 42877, 1, - 35332), (42878, 42886, 2, 1), (42891, 42891, 1, 1),
     (42893, 42893, 1, - 42280), (42896, 42898, 2, 1), (42902, 42920, 2, 1),
     (42922, 42922, 1, - 42308), (42923, 42923, 1, - 42319), (42924, 42924, 1, - 42315),
     (42925, 42925, 1, - 42305), (42926, 42926, 1, - 42308), (42928, 42928, 1, - 42258),
     (42929, 42929, 1, - 42282), (42930, 42930, 1, - 42261), (42931, 42931, 1, 928),
     (42932, 42946, 2, 1), (42948, 42948, 1, - 48), (42949, 42949, 1, - 42307),
     (42950, 42950, 1, - 35384), (42951, 42953, 2, 1), (42960, 42960, 1, 1),
     (42966, 42968, 2, 1), (42997, 42997, 1, 1), (43888, 43967, 1, - 38864),
     (65313, 65338, 1, 32), (66560, 66599, 1, 40), (66736, 66771, 1, 40),
     (66928, 66938, 1, 39), (66940, 66954, 1, 39), (66956, 66962, 1, 39),
     (66964, 66965, 1, 39), (68736, 68786, 1, 64), (71840, 71871, 1, 32),
     (93760, 93791, 1, 32), (125184, 125217, 1, 34)]"

definition lower_table :: "case_range list" where
  "lower_table =
    [(192, 214, 1, 32), (216, 222, 1, 32), (256, 302, 2, 1), (304, 304, 1, - 199),
     (306, 310, 2, 1), (313, 327, 2, 1), (330, 374, 2, 1), (376, 376, 1, - 121),
     (377, 381, 2, 1), (385, 385, 1, 210), (386, 388, 2, 1), (390, 390, 1, 206),
     (391, 391, 1, 1), (393, 394, 1, 205), (395, 395, 1, 1), (398, 398, 1, 79),
     (399, 399, 1, 202), (400, 400, 1, 203), (401, 401, 1, 1), (403, 403, 1, 205),
     (404, 404, 1, 207), (406, 406, 1, 211), (407, 407, 1, 209), (408, 408, 1, 1),
     (412, 412, 1, 211), (413, 413, 1, 213), (415, 415, 1, 214), (416, 420, 2, 1),
     (422, 422, 1, 218), (423, 423, 1, 1), (425, 425, 1, 218), (428, 428, 1, 1),
     (430, 430, 1, 218), (431, 431, 1, 1), (433, 434, 1, 217), (435, 437, 2, 1),
     (439, 439, 1, 219), (440, 440, 1, 1), (444, 444, 1, 1), (452, 452, 1, 2),
     (453, 453, 1, 1), (455, 455, 1, 2), (456, 456, 1, 1), (458, 458, 1, 2), (459, 475, 2, 1),
     (478, 494, 2, 1), (497, 497, 1, 2), (498, 500, 2, 1), (502, 502, 1, - 97),
     (503, 503, 1, - 56), (504, 542, 2, 1), (544, 544, 1, - 130), (546, 562, 2, 1),
     (570, 570, 1, 10795), (571, 571, 1, 1), (573, 573, 1, - 163), (574, 574, 1, 10792),
     (577, 577, 1, 1), (579, 579, 1, - 195), (580, 580, 1, 69), (581, 581, 1, 71),
     (582, 590, 2, 1), (880, 882, 2, 1), (886, 886, 1, 1), (895, 895, 1, 116),
     (902, 902, 1, 38), (904, 906, 1, 37), (908, 908, 1, 64), (910, 911, 1, 63),
     (913, 929, 1, 32), (931, 939, 1, 32), (975, 975, 1, 8), (984, 1006, 2, 1),
     (1012, 1012, 1, - 60), (1015, 1015, 1, 1), (1017, 1017, 1, - 7), (1018, 1018, 1, 1),
     (1021, 1023, 1, - 130), (1024, 1039, 1, 80), (1040, 1071, 1, 32), (1120, 1152, 2, 1),
     (1162, 1214, 2, 1), (1216, 1216, 1, 15), (1217, 1229, 2, 1), (1232, 1326, 2, 1),
     (1329, 1366, 1, 48), (4256, 4293, 1, 7264), (4295, 4295, 1, 7264), (4301, 4301, 1, 7264),
     (5024, 5103, 1, 38864), (5104, 5109, 1, 8), (7312, 7354, 1, - 3008),
     (7357, 7359, 1, - 3008), (7680, 7828, 2, 1), (7838, 7838, 1, - 7615), (7840, 7934, 2, 1),
     (7944, 7951, 1, - 8), (7960, 7965, 1, - 8), (7976, 7983, 1, - 8), (7992, 7999, 1, - 8),
     (8008, 8013, 1, - 8), (8025, 8031, 2, - 8), (8040, 8047, 1, - 8), (8072, 8079, 1, - 8),
     (8088, 8095, 1, - 8), (8104, 8111, 1, - 8), (8120, 8121, 1, - 8), (8122, 8123, 1, - 74),
     (8124, 8124, 1, - 9), (8136, 8139, 1, - 86), (8140, 8140, 1, - 9), (8152, 8153, 1, - 8),
     (8154, 8155, 1, - 100), (8168, 8169, 1, - 8), (8170, 8171, 1, - 112),
     (8172, 8172, 1, - 7), (8184, 8185, 1, - 128), (8186, 8187, 1, - 126),
     (8188, 8188, 1, - 9), (8486, 8486, 1, - 7517), (8490, 8490, 1, - 8383),
     (8491, 8491, 1, - 8262), (8498, 8498, 1, 28), (8544, 8559, 1, 16), (8579, 8579, 1, 1),
     (9398, 9423, 1, 26), (11264, 11311, 1, 48), (11360, 11360, 1, 1),
     (11362, 11362, 1, - 10743), (11363, 11363, 1, - 3814), (11364, 11364, 1, - 10727),
     (11367, 11371, 2, 1), (11373, 11373, 1, - 10780), (11374, 11374, 1, - 10749),
     (11375, 11375, 1, - 10783), (11376, 11376, 1, - 10782), (11378, 11378, 1, 1),
     (11381, 11381, 1, 1), (11390, 11391, 1, - 10815), (11392, 11490, 2, 1),
     (11499, 11501, 2, 1), (11506, 11506, 1, 1), (42560, 42604, 2, 1), (42624, 42650, 2, 1),
     (42786, 42798, 2, 1), (42802, 42862, 2, 1), (42873, 42875, 2, 1),
     (42877, 42877, 1, - 35332), (42878, 42886, 2, 1), (42891, 42891, 1, 1),
     (42893, 42893, 1, - 42280), (42896, 42898, 2, 1), (42902, 42920, 2, 1),
     (42922, 42922, 1, - 42308), (42923, 42923, 1, - 42319), (42924, 42924, 1, - 42315),
     (42925, 42925, 1, - 42305), (42926, 42926, 1, - 42308), (42928, 42928, 1, - 42258),
     (42929, 42929, 1, - 42282), (42930, 42930, 1, - 42261), (42931, 42931, 1, 928),
     (42932, 42946, 2, 1), (42948, 42948, 1, - 48), (42949, 42949, 1, - 42307),
     (42950, 42950, 1, - 35384), (42951, 42953, 2, 1), (42960, 42960, 1, 1),
     (42966, 42968, 2, 1), (42997, 42997, 1, 1), (65313, 65338, 1, 32), (66560, 66599, 1, 40),
     (66736, 66771, 1, 40), (66928, 66938, 1, 39), (66940, 66954, 1, 39),
     (66956, 66962, 1, 39), (66964, 66965, 1, 39), (68736, 68786, 1, 64),
     (71840, 71871, 1, 32), (93760, 93791, 1, 32), (125184, 125217, 1, 34)]"

definition upper_table :: "case_range list" where
  "upper_table =
    [(181, 181, 1, 743), (224, 246, 1, - 32), (248, 254, 1, - 32), (255, 255, 1, 121),
     (257, 303, 2, - 1), (305, 305, 1, - 232), (307, 311, 2, - 1), (314, 328, 2, - 1),
     (331, 375, 2, - 1), (378, 382, 2, - 1), (383, 383, 1, - 300), (384, 384, 1, 195),
     (387, 389, 2, - 1), (392, 392, 1, - 1), (396, 396, 1, - 1), (402, 402, 1, - 1),
     (405, 405, 1, 97), (409, 409, 1, - 1), (410, 410, 1, 163), (414, 414, 1, 130),
     (417, 421, 2, - 1), (424, 424, 1, - 1), (429, 429, 1, - 1), (432, 432, 1, - 1),
     (436, 438, 2, - 1), (441, 441, 1, - 1), (445, 445, 1, - 1), (447, 447, 1, 56),
     (453, 453, 1, - 1), (454, 454, 1, - 2), (456, 456, 1, - 1), (457, 457, 1, - 2),
     (459, 459, 1, - 1), (460, 460, 1, - 2), (462, 476, 2, - 1), (477, 477, 1, - 79),
     (479, 495, 2, - 1), (498, 498, 1, - 1), (499, 499, 1, - 2), (501, 501, 1, - 1),
     (505, 543, 2, - 1), (547, 563, 2, - 1), (572, 572, 1, - 1), (575, 576, 1, 10815),
     (578, 578, 1, - 1), (583, 591, 2, - 1), (592, 592, 1, 10783), (593, 593, 1, 10780),
     (594, 594, 1, 10782), (595, 595, 1, - 210), (596, 596, 1, - 206), (598, 599, 1, - 205),
     (601, 601, 1, - 202), (603, 603, 1, - 203), (604, 604, 1, 42319), (608, 608, 1, - 205),
     (609, 609, 1, 42315), (611, 611, 1, - 207), (613, 613, 1, 42280), (614, 614, 1, 42308),
     (616, 616, 1, - 209), (617, 617, 1, - 211), (618, 618, 1, 42308), (619, 619, 1, 10743),
     (620, 620, 1, 42305), (623, 623, 1, - 211), (625, 625, 1, 10749), (626, 626, 1, - 213),
     (629, 629, 1, - 214), (637, 637, 1, 10727), (640, 640, 1, - 218), (642, 642, 1, 42307),
     (643, 643, 1, - 218), (647, 647, 1, 42282), (648, 648, 1, - 218), (649, 649, 1, - 69),
     (650, 651, 1, - 217), (652, 652, 1, - 71), (658, 658, 1, - 219), (669, 669, 1, 42261),
     (670, 670, 1, 42258), (837, 837, 1, 84), (881, 883, 2, - 1), (887, 887, 1, - 1),
     (891, 893, 1, 130), (940, 940, 1, - 38), (941, 943, 1, - 37), (945, 961, 1, - 32),
     (962, 962, 1, - 31), (963, 971, 1, - 32), (972, 972, 1, - 64), (973, 974, 1, - 63),
     (976, 976, 1, - 62), (977, 977, 1, - 57), (981, 981, 1, - 47), (982, 982, 1, - 54),
     (983, 983, 1, - 8), (985, 1007, 2, - 1), (1008, 1008, 1, - 86), (1009, 1009, 1, - 80),
     (1010, 1010, 1, 7), (1011, 1011, 1, - 116), (1013, 1013, 1, - 96), (1016, 1016, 1, - 1),
     (1019, 1019, 1, - 1), (1072, 1103, 1, - 32), (1104, 1119, 1, - 80), (1121, 1153, 2, - 1),
     (1163, 1215, 2, - 1), (1218, 1230, 2, - 1), (1231, 1231, 1, - 15), (1233, 1327, 2, - 1),
     (1377, 1414, 1, - 48), (4304, 4346, 1, 3008), (4349, 4351, 1, 3008),
     (5112, 5117, 1, - 8), (7296, 7296, 1, - 6254), (7297, 7297, 1, - 6253),
     (7298, 7298, 1, - 6244), (7299, 7300, 1, - 6242), (7301, 7301, 1, - 6243),
     (7302, 7302, 1, - 6236), (7303, 7303, 1, - 6181), (7304, 7304, 1, 35266),
     (7545, 7545, 1, 35332), (7549, 7549, 1, 3814), (7566, 7566, 1, 35384),
     (7681, 7829, 2, - 1), (7835, 7835, 1, - 59), (7841, 7935, 2, - 1), (7936, 7943, 1, 8),
     (7952, 7957, 1, 8), (7968, 7975, 1, 8), (7984, 7991, 1, 8), (8000, 8005, 1, 8),
     (8017, 8023, 2, 8), (8032, 8039, 1, 8), (8048, 8049, 1, 74), (8050, 8053, 1, 86),
     (8054, 8055, 1, 100), (8056, 8057, 1, 128), (8058, 8059, 1, 112), (8060, 8061, 1, 126),
     (8064, 8071, 1, 8), (8080, 8087, 1, 8), (8096, 8103, 1, 8), (8112, 8113, 1, 8),
     (8115, 8115, 1, 9), (8126, 8126, 1, - 7205), (8131, 8131, 1, 9), (8144, 8145, 1, 8),
     (8160, 8161, 1, 8), (8165, 8165, 1, 7), (8179, 8179, 1, 9), (8526, 8526, 1, - 28),
     (8560, 8575, 1, - 16), (8580, 8580, 1, - 1), (9424, 9449, 1, - 26),
     (11312, 11359, 1, - 48), (11361, 11361, 1, - 1), (11365, 11365, 1, - 10795),
     (11366, 11366, 1, - 10792), (11368, 11372, 2, - 1), (11379, 11379, 1, - 1),
     (11382, 11382, 1, - 1), (11393, 11491, 2, - 1), (11500, 11502, 2, - 1),
     (11507, 11507, 1, - 1), (11520, 11557, 1, - 7264), (11559, 11559, 1, - 7264),
     (11565, 11565, 1, - 7264), (42561, 42605, 2, - 1), (42625, 42651, 2, - 1),
     (42787, 42799, 2, - 1), (42803, 42863, 2, - 1), (42874, 42876, 2, - 1),
     (42879, 42887, 2, - 1), (42892, 42892, 1, - 1), (42897, 42899, 2, - 1),
     (42900, 42900, 1, 48), (42903, 42921, 2, - 1), (42933, 42947, 2, - 1),
     (42952, 42954, 2, - 1), (42961, 42961, 1, - 1), (42967, 42969, 2, - 1),
     (42998, 42998, 1, - 1), (43859, 43859, 1, - 928), (43888, 43967, 1, - 38864),
     (65345, 65370, 1, - 32), (66600, 66639, 1, - 40), (66776, 66811, 1, - 40),
     (66967, 66977, 1, - 39), (66979, 66993, 1, - 39), (66995, 67001, 1, - 39),
     (67003, 67004, 1, - 39), (68800, 68850, 1, - 64), (71872, 71903, 1, - 32),
     (93792, 93823, 1, - 32), (125218, 125251, 1, - 34)]"

fun apply_table :: "case_range list \<Rightarrow> rune \<Rightarrow> rune" where
  "apply_table [] r = r"
| "apply_table ((lo, hi, stride, delta) # rest) r =
    (if lo \<le> r \<and> r \<le> hi \<and> (r - lo) mod stride = 0 then nat (int r + delta)
     else apply_table rest r)"

text \<open>The representative of the \<^verbatim>\<open>unicode.SimpleFold\<close> orbit of a rune.\<close>

definition fold_rune :: "rune \<Rightarrow> rune" where
  "fold_rune r =
    (if r < 128 then (if 65 \<le> r \<and> r \<le> 90 then r + 32 else r) else apply_table fold_table r)"

definition lower_rune :: "rune \<Rightarrow> rune" where
  "lower_rune r =
    (if r < 128 then (if 65 \<le> r \<and> r \<le> 90 then r + 32 else r) else apply_table lower_table r)"

definition upper_rune :: "rune \<Rightarrow> rune" where
  "upper_rune r =
    (if r < 128 then (if 97 \<le> r \<and> r \<le> 122 then r - 32 else r) else apply_table upper_table r)"

text \<open>\<^verbatim>\<open>unicode.IsSpace\<close>.\<close>

definition is_space :: "rune \<Rightarrow> bool" where
  "is_space r \<longleftrightarrow>
     r \<in> {0x09, 0x0A, 0x0B, 0x0C, 0x0D, 0x20, 0x85, 0xA0, 0x1680, 0x2028, 0x2029, 0x202F, 0x205F, 0x3000}
     \<or> 0x2000 \<le> r \<and> r \<le> 0x200A"

section \<open>The strings package\<close>

definition EqualFold :: "string \<Rightarrow> string \<Rightarrow> bool" where
  "EqualFold s t \<longleftrightarrow> map fold_rune (runes s) = map fold_rune (runes t)"

definition ToLower :: "string \<Rightarrow> string" where
  "ToLower s = concat (map (encode_rune \<circ> lower_rune) (runes s))"

definition ToUpper :: "string \<Rightarrow> string" where
  "ToUpper s = concat (map (encode_rune \<circ> upper_rune) (runes s))"

definition TrimSpace :: "string \<Rightarrow> string" where
  "TrimSpace s =
    (let sp = (\<lambda>c. is_space (fst c))
     in concat (map snd (rev (dropWhile sp (rev (dropWhile sp (chunks s)))))))"

text \<open>\<^verbatim>\<open>strings.Fields\<close>: the maximal runs of non-space runes.\<close>

fun fields_of :: "(rune \<times> string) list \<Rightarrow> string \<Rightarrow> string list" where
  "fields_of [] acc = (if acc = [] then [] else [acc])"
| "fields_of ((r, bs) # cs) acc =
    (if is_space r then (if acc = [] then fields_of cs [] else acc # fields_of cs [])
     else fields_of cs (acc @ bs))"

definition Fields :: "string \<Rightarrow> string list" where
  "Fields s = fields_of (chunks s) []"

text \<open>What \<^verbatim>\<open>encoding/json\<close> makes of a string: every byte that is not part of valid
  UTF-8 is written as the replacement rune.\<close>

definition json_str :: "string \<Rightarrow> string" where
  "json_str s = concat (map encode_rune (runes s))"

section \<open>Facts about decoding and encoding\<close>

definition ascii :: "string \<Rightarrow> bool" where
  "ascii s \<longleftrightarrow> (\<forall>c\<in>set s. byte_of c < (128::nat))"

lemma byte_of_bound [simp]: "byte_of c < (256::nat)"
  by (cases c) (simp add: of_char_def horner_sum_bound)

lemma chunks_Nil [simp]: "chunks [] = []"
  by (simp add: chunks.simps)

lemma decode_rune_ascii: "b < 128 \<Longrightarrow> decode_rune (b # bs) = (b, 1)"
  by (simp add: decode_rune.simps)

lemma chunks_ascii [simp]:
  "byte_of c < (128::nat) \<Longrightarrow> chunks (c # cs) = (byte_of c, [c]) # chunks cs"
  by (subst chunks.simps) (simp add: decode_rune_ascii)

lemma runes_Nil [simp]: "runes [] = []"
  by (simp add: runes_def)

lemma runes_ascii_Cons [simp]:
  "byte_of c < (128::nat) \<Longrightarrow> runes (c # cs) = byte_of c # runes cs"
  by (simp add: runes_def)

lemma chunks_ascii_all: "ascii s \<Longrightarrow> chunks s = map (\<lambda>c. (byte_of c, [c])) s"
  by (induction s) (auto simp: ascii_def)

lemma runes_ascii: "ascii s \<Longrightarrow> runes s = map byte_of s"
  by (simp add: runes_def chunks_ascii_all comp_def)

lemma ascii_Nil [simp]: "ascii []"
  and ascii_Cons [simp]: "ascii (c # s) \<longleftrightarrow> byte_of c < (128::nat) \<and> ascii s"
  and ascii_append [simp]: "ascii (s @ t) \<longleftrightarrow> ascii s \<and> ascii t"
  by (auto simp: ascii_def)

lemma concat_chunks [simp]: "concat (map snd (chunks s)) = s"
proof (induction s rule: chunks.induct)
  case (1 s)
  show ?case
  proof (cases "s = []")
    case False
    obtain r n where d: "decode_rune (map byte_of s) = (r, n)" by fastforce
    with 1 [OF False d [symmetric] refl] False show ?thesis by (simp add: chunks.simps [of s])
  qed simp
qed

lemma valid_RuneError [simp]: "valid_rune RuneError"
  by (simp add: valid_rune_def RuneError_def)

lemma decode2_valid: "b0 \<le> 0xDF \<Longrightarrow> cont_byte b1 \<Longrightarrow> valid_rune ((b0 - 0xC0) * 64 + (b1 - 0x80))"
  by (auto simp: valid_rune_def cont_byte_def)

lemma decode3_valid:
  assumes "b0 \<le> 0xEF" "cont_byte b1" "cont_byte b2" "b0 = 0xED \<longrightarrow> b1 \<le> 0x9F"
  shows "valid_rune ((b0 - 0xE0) * 4096 + (b1 - 0x80) * 64 + (b2 - 0x80))"
proof -
  consider "b0 \<le> 0xEC" | "b0 = 0xED" | "b0 = 0xEE \<or> b0 = 0xEF" using assms(1) by linarith
  then show ?thesis using assms by cases (auto simp: valid_rune_def cont_byte_def)
qed

lemma decode4_valid:
  assumes "0xF0 \<le> b0" "b0 \<le> 0xF4" "cont_byte b1" "cont_byte b2" "cont_byte b3"
    "b0 = 0xF0 \<longrightarrow> 0x90 \<le> b1" "b0 = 0xF4 \<longrightarrow> b1 \<le> 0x8F"
  shows "valid_rune ((b0 - 0xF0) * 262144 + (b1 - 0x80) * 4096 + (b2 - 0x80) * 64 + (b3 - 0x80))"
proof -
  consider "b0 = 0xF0" | "0xF1 \<le> b0" "b0 \<le> 0xF3" | "b0 = 0xF4" using assms(1,2) by linarith
  then show ?thesis using assms by cases (auto simp: valid_rune_def cont_byte_def)
qed

lemma decode_rune_valid: "bs \<noteq> [] \<Longrightarrow> valid_rune (fst (decode_rune bs))"
proof (cases bs)
  case (Cons b0 rest)
  have "b0 < 0x80 \<Longrightarrow> valid_rune b0" by (simp add: valid_rune_def)
  then show ?thesis unfolding Cons
    by (simp add: decode_rune.simps decode2_valid decode3_valid decode4_valid split: list.split)
qed simp

lemma runes_valid: "r \<in> set (runes s) \<Longrightarrow> valid_rune r"
proof (induction s rule: chunks.induct)
  case (1 s)
  show ?case
  proof (cases "s = []")
    case False
    obtain r0 n where d: "decode_rune (map byte_of s) = (r0, n)" by fastforce
    have v: "valid_rune r0"
      using decode_rune_valid [of "map byte_of s"] False d by auto
    have "runes s = r0 # runes (drop n s)"
      using False d by (simp add: runes_def chunks.simps [of s])
    with "1.prems" consider "r = r0" | "r \<in> set (runes (drop n s))" by auto
    then show ?thesis using v "1.IH" [OF False d [symmetric] refl] by cases auto
  qed (use "1.prems" in simp)
qed

text \<open>Decoding inverts encoding: the round trip of a valid rune.\<close>

lemma base64_digits3: "r = r div 4096 * 4096 + r div 64 mod 64 * 64 + r mod 64" for r :: nat
proof -
  have "r div 4096 = r div 64 div 64" by (simp add: div_mult2_eq [symmetric])
  then have "r div 64 = r div 4096 * 64 + r div 64 mod 64" by simp
  moreover have "r = r div 64 * 64 + r mod 64" by simp
  ultimately show ?thesis by linarith
qed

lemma base64_digits4:
  "r = r div 262144 * 262144 + r div 4096 mod 64 * 4096 + r div 64 mod 64 * 64 + r mod 64" for r :: nat
proof -
  have "r div 262144 = r div 4096 div 64" by (simp add: div_mult2_eq [symmetric])
  then have "r div 4096 = r div 262144 * 64 + r div 4096 mod 64" by simp
  with base64_digits3 [of r] show ?thesis by linarith
qed

lemma decode_encode3:
  assumes r: "r = a * 4096 + b * 64 + c" "b < 64" "c < 64"
    and v: "valid_rune r" "0x800 \<le> r" "r < 0x10000"
  shows "decode_rune ((0xE0 + a) # (0x80 + b) # (0x80 + c) # bs) = (r, 3)"
proof -
  have "a < 16" using r v by linarith
  moreover have "a = 0 \<Longrightarrow> 32 \<le> b" using r v by linarith
  moreover have "a = 13 \<Longrightarrow> b \<le> 31" using r v unfolding valid_rune_def by linarith
  ultimately show ?thesis
    using r by (simp add: cont_byte_def decode_rune.simps)
qed

lemma decode_encode4:
  assumes r: "r = a * 262144 + b * 4096 + c * 64 + d" "b < 64" "c < 64" "d < 64"
    and v: "valid_rune r" "0x10000 \<le> r"
  shows "decode_rune ((0xF0 + a) # (0x80 + b) # (0x80 + c) # (0x80 + d) # bs) = (r, 4)"
proof -
  have "r \<le> 0x10FFFF" using v by (simp add: valid_rune_def)
  then have "a \<le> 4" using r by linarith
  moreover have "a = 0 \<Longrightarrow> 16 \<le> b" using r v by linarith
  moreover have "a = 4 \<Longrightarrow> b \<le> 15" using r \<open>r \<le> 0x10FFFF\<close> by linarith
  ultimately show ?thesis
    using r by (simp add: cont_byte_def decode_rune.simps)
qed

lemma decode_encode_bytes:
  assumes "valid_rune r"
  shows "decode_rune (encode_bytes r @ bs) = (r, length (encode_bytes r))"
proof -
  consider "r < 0x80" | "0x80 \<le> r" "r < 0x800" | "0x800 \<le> r" "r < 0x10000"
    | "0x10000 \<le> r" by linarith
  then show ?thesis
  proof cases
    case 1
    then show ?thesis by (simp add: encode_bytes_def decode_rune.simps)
  next
    case 2
    then have "2 \<le> r div 64" "r div 64 < 32" by auto
    with 2 show ?thesis by (simp add: encode_bytes_def cont_byte_def decode_rune.simps)
  next
    case 3
    with decode_encode3 [OF base64_digits3 _ _ assms 3] show ?thesis
      by (simp add: encode_bytes_def)
  next
    case 4
    with decode_encode4 [OF base64_digits4 _ _ _ assms 4] show ?thesis
      by (simp add: encode_bytes_def)
  qed
qed

lemma encode_bytes_small: "valid_rune r \<Longrightarrow> b \<in> set (encode_bytes r) \<Longrightarrow> b < 256"
  by (auto simp: encode_bytes_def valid_rune_def split: if_splits)

lemma map_byte_encode: "valid_rune r \<Longrightarrow> map byte_of (encode_rune r) = encode_bytes r"
  using encode_bytes_small [of r]
  by (auto simp: encode_rune_def comp_def intro!: map_idI)

lemma encode_bytes_nonempty [simp]: "encode_bytes r \<noteq> []"
  by (simp add: encode_bytes_def)

lemma runes_encode: "valid_rune r \<Longrightarrow> runes (encode_rune r @ s) = r # runes s"
proof -
  assume v: "valid_rune r"
  have ne: "encode_rune r @ s \<noteq> []" by (simp add: encode_rune_def)
  have len: "length (encode_bytes r) = length (encode_rune r)"
    using map_byte_encode [OF v] by (metis length_map)
  have "decode_rune (map byte_of (encode_rune r @ s)) = (r, length (encode_rune r))"
    using decode_encode_bytes [OF v] by (simp add: map_byte_encode [OF v] len)
  then show ?thesis
    using ne by (simp add: runes_def chunks.simps [of "encode_rune r @ s"])
qed

lemma runes_concat_encode:
  "\<forall>r\<in>set rs. valid_rune r \<Longrightarrow> runes (concat (map encode_rune rs)) = rs"
  by (induction rs) (auto simp: runes_encode)

lemma runes_json_str [simp]: "runes (json_str s) = runes s"
  by (simp add: json_str_def runes_concat_encode runes_valid)

lemma json_str_idem [simp]: "json_str (json_str s) = json_str s"
  by (simp add: json_str_def [of "json_str s"]) (simp add: json_str_def)

lemma encode_rune_ascii: "byte_of c < (128::nat) \<Longrightarrow> encode_rune (byte_of c) = [c]"
  by (simp add: encode_rune_def valid_rune_def encode_bytes_def)

lemma json_str_ascii [simp]: "ascii s \<Longrightarrow> json_str s = s"
  by (induction s) (auto simp: json_str_def encode_rune_ascii)

section \<open>Case folding is an equivalence\<close>

lemma EqualFold_refl [simp, intro!]: "EqualFold s s"
  by (simp add: EqualFold_def)

lemma EqualFold_sym: "EqualFold s t \<longleftrightarrow> EqualFold t s"
  by (auto simp: EqualFold_def)

lemma EqualFold_trans: "EqualFold s t \<Longrightarrow> EqualFold t u \<Longrightarrow> EqualFold s u"
  by (simp add: EqualFold_def)

lemma EqualFold_cong: "EqualFold s t \<Longrightarrow> EqualFold s u \<longleftrightarrow> EqualFold t u"
  by (simp add: EqualFold_def)

lemma EqualFold_json_str [simp]: "EqualFold (json_str s) t \<longleftrightarrow> EqualFold s t"
  "EqualFold s (json_str t) \<longleftrightarrow> EqualFold s t"
  by (simp_all add: EqualFold_def)

section \<open>ASCII characters survive decoding\<close>

lemma decode_rune_high:
  "bs \<noteq> [] \<Longrightarrow> hd bs < 128 \<and> decode_rune bs = (hd bs, 1)
     \<or> (\<forall>b\<in>set (take (snd (decode_rune bs)) bs). 128 \<le> b)"
  by (cases bs) (auto simp: decode_rune.simps cont_byte_def split: list.splits if_splits)

lemma runes_ascii_mem: "c \<in> set s \<Longrightarrow> byte_of c < (128::nat) \<Longrightarrow> byte_of c \<in> set (runes s)"
proof (induction s rule: chunks.induct)
  case (1 s)
  obtain r n where rn: "decode_rune (map byte_of s) = (r, n)" by fastforce
  have ne: "s \<noteq> []" using 1 by auto
  then have step: "runes s = r # runes (drop n s)" by (subst runes_def) (simp add: chunks.simps [of s] rn runes_def)
  show ?case
  proof (cases "c \<in> set (drop n s)")
    case True
    with 1 ne rn have "byte_of c \<in> set (runes (drop n s))" by simp
    then show ?thesis by (simp add: step)
  next
    case False
    have "set s = set (take n s) \<union> set (drop n s)" by (metis append_take_drop_id set_append)
    with 1 False have tk: "c \<in> set (take n s)" by blast
    have "\<not> (\<forall>b\<in>set (take n (map byte_of s)). 128 \<le> (b::nat))"
      using tk 1 by (force simp: take_map)
    with decode_rune_high [of "map byte_of s"] ne rn
    have "r = byte_of (hd s)" "n = 1" by (auto simp: hd_map)
    moreover from \<open>n = 1\<close> tk ne have "c = hd s" by (cases s) auto
    ultimately show ?thesis using step by simp
  qed
qed

lemma json_str_ascii_mem: "c \<in> set s \<Longrightarrow> byte_of c < (128::nat) \<Longrightarrow> c \<in> set (json_str s)"
  using runes_ascii_mem [of c s] encode_rune_ascii [of c] by (force simp: json_str_def)

lemma EqualFold_at:
  assumes "EqualFold s t" "CHR ''@'' \<in> set s" "ascii t"
  shows "CHR ''@'' \<in> set t"
proof -
  have "fold_rune 64 \<in> set (map fold_rune (runes t))"
  proof -
    have "64 \<in> set (runes s)" using runes_ascii_mem [OF assms(2)] by simp
    then have "fold_rune 64 \<in> set (map fold_rune (runes s))" by simp
    then show ?thesis using assms(1) by (simp only: EqualFold_def)
  qed
  then obtain c where c: "c \<in> set t" "fold_rune (byte_of c) = 64"
    using assms(3) by (auto simp: runes_ascii fold_rune_def)
  with assms(3) have "byte_of c = (64::nat)"
    by (auto simp: fold_rune_def ascii_def split: if_splits)
  then have "byte_of c = (byte_of CHR ''@'' :: nat)" by simp
  then have "c = CHR ''@''" by (simp only: of_char_eq_iff)
  with c show ?thesis by simp
qed

end
