(* ===== verification/GoStrings.thy ===== *)
theory GoStrings
  imports Unicode
begin

text \<open>
  The byte-level part of Go's \<^verbatim>\<open>strings\<close>, \<^verbatim>\<open>strconv\<close>, \<^verbatim>\<open>fmt\<close> and
  \<^verbatim>\<open>encoding/hex\<close> packages as far as the program uses it: searching, cutting
  and splitting strings, decimal and hexadecimal numbers and their parsers.
  The lemmas are the round trips the token format, the message file names and
  the mailbox directory names rest on.
\<close>

section \<open>Searching and cutting\<close>

definition HasPrefix :: "string \<Rightarrow> string \<Rightarrow> bool" where
  "HasPrefix s p \<longleftrightarrow> take (length p) s = p"

definition HasSuffix :: "string \<Rightarrow> string \<Rightarrow> bool" where
  "HasSuffix s p \<longleftrightarrow> HasPrefix (rev s) (rev p)"

definition CutPrefix :: "string \<Rightarrow> string \<Rightarrow> string \<times> bool" where
  "CutPrefix s p = (if HasPrefix s p then (drop (length p) s, True) else (s, False))"

definition TrimPrefix :: "string \<Rightarrow> string \<Rightarrow> string" where
  "TrimPrefix s p = (if HasPrefix s p then drop (length p) s else s)"

definition TrimSuffix :: "string \<Rightarrow> string \<Rightarrow> string" where
  "TrimSuffix s p = (if HasSuffix s p then take (length s - length p) s else s)"

text \<open>\<^verbatim>\<open>strings.LastIndex\<close>: the last position where \<open>sep\<close> starts, or \<open>-1\<close>.\<close>

definition LastIndex :: "string \<Rightarrow> string \<Rightarrow> int" where
  "LastIndex s sep =
    (case find (\<lambda>i. HasPrefix (drop i s) sep) (rev [0..<Suc (length s)]) of
       None \<Rightarrow> - 1
     | Some i \<Rightarrow> int i)"

text \<open>\<^verbatim>\<open>strings.IndexByte\<close>.\<close>

definition IndexByte :: "string \<Rightarrow> char \<Rightarrow> int" where
  "IndexByte s c = (if c \<in> set s then int (length (takeWhile (\<lambda>x. x \<noteq> c) s)) else - 1)"

text \<open>\<^verbatim>\<open>strings.Split\<close> with a one-byte separator.\<close>

fun Split :: "string \<Rightarrow> char \<Rightarrow> string list" where
  "Split [] c = [[]]"
| "Split (x # xs) c =
    (if x = c then [] # Split xs c
     else (case Split xs c of [] \<Rightarrow> [[x]] | w # ws \<Rightarrow> (x # w) # ws))"

text \<open>\<^verbatim>\<open>strings.ContainsAny\<close> and \<^verbatim>\<open>strings.Contains\<close> for ASCII characters.\<close>

definition ContainsAny :: "string \<Rightarrow> string \<Rightarrow> bool" where
  "ContainsAny s chars \<longleftrightarrow> list_ex (\<lambda>c. c \<in> set chars) s"

text \<open>\<^verbatim>\<open>strings.TrimRight\<close> and \<^verbatim>\<open>strings.Trim\<close> for ASCII cut sets.\<close>

definition TrimRight :: "string \<Rightarrow> string \<Rightarrow> string" where
  "TrimRight s cutset = rev (dropWhile (\<lambda>c. c \<in> set cutset) (rev s))"

definition Trim :: "string \<Rightarrow> string \<Rightarrow> string" where
  "Trim s cutset = TrimRight (dropWhile (\<lambda>c. c \<in> set cutset) s) cutset"

section \<open>Character classes\<close>

definition is_upper :: "char \<Rightarrow> bool" where
  "is_upper c \<longleftrightarrow> (65::nat) \<le> byte_of c \<and> byte_of c \<le> (90::nat)"

definition is_lower :: "char \<Rightarrow> bool" where
  "is_lower c \<longleftrightarrow> (97::nat) \<le> byte_of c \<and> byte_of c \<le> (122::nat)"

definition is_digit :: "char \<Rightarrow> bool" where
  "is_digit c \<longleftrightarrow> (48::nat) \<le> byte_of c \<and> byte_of c \<le> (57::nat)"

definition is_alnum :: "char \<Rightarrow> bool" where
  "is_alnum c \<longleftrightarrow> is_upper c \<or> is_lower c \<or> is_digit c"

section \<open>Numbers\<close>

definition digit_char :: "nat \<Rightarrow> char" where
  "digit_char d = char_of (48 + d)"

fun nat_str :: "nat \<Rightarrow> string" where
  "nat_str n = (if n < 10 then [digit_char n] else nat_str (n div 10) @ [digit_char (n mod 10)])"

declare nat_str.simps [simp del]

text \<open>\<^verbatim>\<open>strconv.Itoa\<close>, \<^verbatim>\<open>strconv.FormatInt(_, 10)\<close> and the verb \<^verbatim>\<open>%d\<close>.\<close>

definition Itoa :: "int \<Rightarrow> string" where
  "Itoa n = (if n < 0 then CHR ''-'' # nat_str (nat (- n)) else nat_str (nat n))"

text \<open>The verb \<^verbatim>\<open>%0wd\<close> on a non-negative number.\<close>

definition pad0 :: "nat \<Rightarrow> string \<Rightarrow> string" where
  "pad0 w s = replicate (w - length s) (CHR ''0'') @ s"

fun digits_val :: "nat \<Rightarrow> string \<Rightarrow> nat option" where
  "digits_val acc [] = Some acc"
| "digits_val acc (c # cs) =
    (if is_digit c then digits_val (acc * 10 + (byte_of c - 48)) cs else None)"

text \<open>\<^verbatim>\<open>strconv.ParseInt(s, 10, 64)\<close> and \<^verbatim>\<open>strconv.Atoi\<close>: an optional sign, digits
  only, and an error outside the range of \<^verbatim>\<open>int64\<close>.\<close>

definition parse_nat :: "string \<Rightarrow> nat option" where
  "parse_nat s = (if s = [] then None else digits_val 0 s)"

definition ParseInt :: "string \<Rightarrow> int option" where
  "ParseInt s =
    (let neg = (s \<noteq> [] \<and> hd s = CHR ''-'');
         signed = (s \<noteq> [] \<and> (hd s = CHR ''-'' \<or> hd s = CHR ''+''));
         body = (if signed then tl s else s)
     in case parse_nat body of
          None \<Rightarrow> None
        | Some n \<Rightarrow>
            if \<not> neg \<and> 2 ^ 63 \<le> int n then None
            else if neg \<and> 2 ^ 63 < int n then None
            else Some (if neg then - int n else int n))"

definition hex_digit :: "bool \<Rightarrow> nat \<Rightarrow> char" where
  "hex_digit upper d = (if d < 10 then char_of (48 + d) else char_of ((if upper then 55 else 87) + d))"

fun hex_str :: "nat \<Rightarrow> string" where
  "hex_str n = (if n < 16 then [hex_digit True n] else hex_str (n div 16) @ [hex_digit True (n mod 16)])"

declare hex_str.simps [simp del]

text \<open>\<^verbatim>\<open>hex.EncodeToString\<close>.\<close>

definition EncodeToString :: "byte list \<Rightarrow> string" where
  "EncodeToString bs = concat (map (\<lambda>b. [hex_digit False (b div 16), hex_digit False (b mod 16)]) bs)"

text \<open>\<^verbatim>\<open>strconv.ParseBool\<close>.\<close>

definition ParseBool :: "string \<Rightarrow> bool option" where
  "ParseBool s =
    (if s \<in> {''1'', ''t'', ''T'', ''TRUE'', ''true'', ''True''} then Some True
     else if s \<in> {''0'', ''f'', ''F'', ''FALSE'', ''false'', ''False''} then Some False
     else None)"

section \<open>Facts: searching and cutting\<close>

lemma HasPrefix_append [simp]: "HasPrefix (p @ s) p"
  by (simp add: HasPrefix_def)

lemma HasPrefix_iff: "HasPrefix s p \<longleftrightarrow> (\<exists>t. s = p @ t)"
  by (metis HasPrefix_append HasPrefix_def append_take_drop_id)

lemma HasPrefix_singleton: "HasPrefix s [c] \<longleftrightarrow> s \<noteq> [] \<and> hd s = c"
  by (cases s) (auto simp: HasPrefix_def)

lemma CutPrefix_True_iff: "CutPrefix s p = (t, True) \<longleftrightarrow> s = p @ t"
  by (auto simp: CutPrefix_def HasPrefix_iff)

lemma Split_nonempty [simp]: "Split s c \<noteq> []"
  by (induction s) (auto split: list.splits)

lemma find_rev_upt_None: "(\<forall>i<n. \<not> P i) \<Longrightarrow> find P (rev [0..<n]) = None"
  by (auto simp: find_None_iff)

lemma find_rev_upt_last:
  "P i \<Longrightarrow> i < n \<Longrightarrow> (\<forall>j<n. i < j \<longrightarrow> \<not> P j) \<Longrightarrow> find P (rev [0..<n]) = Some i"
  by (induction n) (auto simp: less_Suc_eq)

text \<open>With a one-character separator, \<^const>\<open>LastIndex\<close> finds its last occurrence.\<close>

lemma LastIndex_char:
  "c \<notin> set after \<Longrightarrow> LastIndex (before @ c # after) [c] = int (length before)"
proof -
  assume c: "c \<notin> set after"
  let ?s = "before @ c # after"
  have "\<not> HasPrefix (drop j ?s) [c]" if "length before < j" for j
  proof -
    have "set (drop j ?s) \<subseteq> set after"
    proof -
      have "drop j ?s = drop (j - Suc (length before)) after"
        using that by (simp add: drop_Cons' Suc_diff_Suc)
      then show ?thesis by (metis set_drop_subset)
    qed
    then show ?thesis using c hd_in_set [of "drop j ?s"]
      unfolding HasPrefix_singleton by (metis subsetD)
  qed
  then show ?thesis
    using find_rev_upt_last [of "\<lambda>i. HasPrefix (drop i ?s) [c]" "length before" "Suc (length ?s)"]
    by (simp add: LastIndex_def HasPrefix_singleton)
qed

lemma LastIndex_char_absent: "c \<notin> set s \<Longrightarrow> LastIndex s [c] = - 1"
proof -
  assume "c \<notin> set s"
  then have "\<forall>i<Suc (length s). \<not> HasPrefix (drop i s) [c]"
    by (metis HasPrefix_singleton hd_in_set in_set_dropD)
  then have "find (\<lambda>i. HasPrefix (drop i s) [c]) (rev [0..<Suc (length s)]) = None"
    by (rule find_rev_upt_None)
  then show ?thesis by (simp add: LastIndex_def)
qed

section \<open>Facts: numbers\<close>

lemma byte_of_char_of [simp]: "n < 256 \<Longrightarrow> byte_of (char_of n) = n" for n :: nat
  by simp

lemma char_of_eq_byte: "n < 256 \<Longrightarrow> char_of n = c \<longleftrightarrow> n = byte_of c" for n :: nat
  by (metis byte_of_char_of char_of_char)

lemma is_digit_digit_char [simp]: "d < 10 \<Longrightarrow> is_digit (digit_char d)"
  by (simp add: is_digit_def digit_char_def)

lemma byte_digit_char [simp]: "d < 10 \<Longrightarrow> byte_of (digit_char d) = 48 + d"
  by (simp add: digit_char_def)

lemma nat_str_nonempty [simp]: "nat_str n \<noteq> []"
  by (subst nat_str.simps) simp

lemma nat_str_digits: "c \<in> set (nat_str n) \<Longrightarrow> is_digit c"
proof (induction n rule: nat_str.induct)
  case (1 n)
  then show ?case by (subst (asm) nat_str.simps) (auto split: if_splits)
qed

lemma digits_val_append:
  "digits_val acc (s @ t) = (case digits_val acc s of None \<Rightarrow> None | Some n \<Rightarrow> digits_val n t)"
  by (induction s arbitrary: acc) auto

lemma digits_val_nat_str: "digits_val 0 (nat_str n) = Some n"
proof (induction n rule: nat_str.induct)
  case (1 n)
  show ?case
  proof (cases "n < 10")
    case True
    then show ?thesis by (simp add: nat_str.simps [of n])
  next
    case False
    with 1 show ?thesis by (simp add: nat_str.simps [of n] digits_val_append)
  qed
qed

lemma parse_nat_nat_str [simp]: "parse_nat (nat_str n) = Some n"
  by (simp add: parse_nat_def digits_val_nat_str)

lemma is_digit_not_sign: "is_digit c \<Longrightarrow> c \<noteq> CHR ''-'' \<and> c \<noteq> CHR ''+'' \<and> c \<noteq> CHR ''_'' \<and> c \<noteq> CHR ''/''"
  by (auto simp: is_digit_def)

lemma nat_str_hd: "is_digit (hd (nat_str n))"
  by (rule nat_str_digits [of _ n]) simp

lemma ParseInt_Itoa: "int64 n \<Longrightarrow> ParseInt (Itoa n) = Some n"
  using is_digit_not_sign [OF nat_str_hd [of "nat n"]]
  by (auto simp: ParseInt_def Itoa_def int64_def Let_def)

lemma ParseInt_int64: "ParseInt s = Some n \<Longrightarrow> int64 n"
  by (auto simp: ParseInt_def int64_def Let_def split: option.splits if_splits)

lemma Itoa_inj: "Itoa m = Itoa n \<Longrightarrow> m = n"
proof -
  assume eq: "Itoa m = Itoa n"
  have neg: "hd (Itoa k) = CHR ''-'' \<longleftrightarrow> k < 0" for k
    using is_digit_not_sign [OF nat_str_hd [of "nat k"]] by (auto simp: Itoa_def)
  have "m < 0 \<longleftrightarrow> n < 0" using neg [of m] neg [of n] eq by simp
  with eq have "nat_str (nat \<bar>m\<bar>) = nat_str (nat \<bar>n\<bar>)"
    by (auto simp: Itoa_def split: if_splits)
  then have "nat \<bar>m\<bar> = nat \<bar>n\<bar>"
    by (metis digits_val_nat_str option.inject)
  with \<open>m < 0 \<longleftrightarrow> n < 0\<close> show ?thesis by linarith
qed

lemma Itoa_no_underscore: "CHR ''_'' \<notin> set (Itoa n)"
proof
  assume "CHR ''_'' \<in> set (Itoa n)"
  then have "CHR ''_'' \<in> set (nat_str (nat \<bar>n\<bar>))" by (auto simp: Itoa_def split: if_splits)
  then show False by (auto dest!: nat_str_digits is_digit_not_sign)
qed

lemma ascii_digits: "\<forall>c\<in>set s. is_digit c \<Longrightarrow> ascii s"
  by (auto simp: ascii_def is_digit_def Let_def)

lemma hex_digit_alnum: "d < 16 \<Longrightarrow> is_alnum (hex_digit u d)"
  by (auto simp: hex_digit_def is_alnum_def is_upper_def is_lower_def is_digit_def)

lemma EncodeToString_alnum:
  "\<forall>b\<in>set bs. b < 256 \<Longrightarrow> c \<in> set (EncodeToString bs) \<Longrightarrow> is_alnum c"
  by (auto simp: EncodeToString_def hex_digit_alnum)

lemma is_alnum_not_underscore: "is_alnum c \<Longrightarrow> c \<noteq> CHR ''_''"
  by (auto simp: is_alnum_def is_upper_def is_lower_def is_digit_def)

lemma length_EncodeToString [simp]: "length (EncodeToString bs) = 2 * length bs"
  by (induction bs) (auto simp: EncodeToString_def)

section \<open>Facts: white space and case of ASCII strings\<close>

lemma dropWhile_id: "xs = [] \<or> \<not> P (hd xs) \<Longrightarrow> dropWhile P xs = xs"
  by (cases xs) auto

lemma TrimSpace_id:
  assumes "s = [] \<or> \<not> is_space (fst (hd (chunks s))) \<and> \<not> is_space (fst (last (chunks s)))"
  shows "TrimSpace s = s"
proof -
  let ?sp = "\<lambda>c. is_space (fst c)"
  have "chunks s = [] \<longleftrightarrow> s = []" by (metis chunks_Nil concat_chunks concat.simps(1) list.simps(8))
  with assms have "dropWhile ?sp (chunks s) = chunks s" "dropWhile ?sp (rev (chunks s)) = rev (chunks s)"
    by (auto intro!: dropWhile_id simp: hd_rev)
  then show ?thesis by (simp add: TrimSpace_def Let_def)
qed

lemma TrimSpace_ascii:
  assumes "ascii s" "s = [] \<or> \<not> is_space (byte_of (hd s)) \<and> \<not> is_space (byte_of (last s))"
  shows "TrimSpace s = s"
  using assms by (intro TrimSpace_id) (auto simp: chunks_ascii_all hd_map last_map)

lemma ToLower_id:
  assumes "ascii s" "\<forall>c\<in>set s. \<not> is_upper c"
  shows "ToLower s = s"
  using assms
proof (induction s)
  case (Cons c s)
  then have "lower_rune (byte_of c) = byte_of c"
    by (auto simp: lower_rune_def is_upper_def Let_def)
  with Cons show ?case by (simp add: ToLower_def encode_rune_ascii)
qed (simp add: ToLower_def)

section \<open>Facts: suffixes\<close>

lemma HasSuffix_append: "HasSuffix s t \<longleftrightarrow> (\<exists>r. s = r @ t)"
proof
  assume "HasSuffix s t"
  then have "rev s = rev t @ drop (length t) (rev s)" unfolding HasSuffix_def HasPrefix_def by (metis append_take_drop_id length_rev)
  then show "\<exists>r. s = r @ t" by (metis rev_append rev_rev_ident)
qed (auto simp: HasSuffix_def HasPrefix_def)

lemma TrimSuffix_append: "TrimSuffix (r @ t) t = r"
  using HasSuffix_append [of "r @ t" t] by (simp add: TrimSuffix_def)

end
