(* ===== verification/Crypto.thy ===== *)
theory Crypto
  imports GoStrings
begin

text \<open>
  The cryptography the token format uses from the Go standard library:
  \<^verbatim>\<open>crypto/sha256\<close> (FIPS 180-4) on 32-bit words and \<^verbatim>\<open>crypto/hmac\<close> (RFC 2104)
  over it. The token theorems need two facts only: a digest has 32 bytes, and
  they are bytes.
\<close>

unbundle bit_operations_syntax

section \<open>SHA-256\<close>

definition sha_k :: "u32 list" where
  "sha_k =
    [0x428A2F98, 0x71374491, 0xB5C0FBCF, 0xE9B5DBA5, 0x3956C25B, 0x59F111F1,
     0x923F82A4, 0xAB1C5ED5, 0xD807AA98, 0x12835B01, 0x243185BE, 0x550C7DC3,
     0x72BE5D74, 0x80DEB1FE, 0x9BDC06A7, 0xC19BF174, 0xE49B69C1, 0xEFBE4786,
     0x0FC19DC6, 0x240CA1CC, 0x2DE92C6F, 0x4A7484AA, 0x5CB0A9DC, 0x76F988DA,
     0x983E5152, 0xA831C66D, 0xB00327C8, 0xBF597FC7, 0xC6E00BF3, 0xD5A79147,
     0x06CA6351, 0x14292967, 0x27B70A85, 0x2E1B2138, 0x4D2C6DFC, 0x53380D13,
     0x650A7354, 0x766A0ABB, 0x81C2C92E, 0x92722C85, 0xA2BFE8A1, 0xA81A664B,
     0xC24B8B70, 0xC76C51A3, 0xD192E819, 0xD6990624, 0xF40E3585, 0x106AA070,
     0x19A4C116, 0x1E376C08, 0x2748774C, 0x34B0BCB5, 0x391C0CB3, 0x4ED8AA4A,
     0x5B9CCA4F, 0x682E6FF3, 0x748F82EE, 0x78A5636F, 0x84C87814, 0x8CC70208,
     0x90BEFFFA, 0xA4506CEB, 0xBEF9A3F7, 0xC67178F2]"

definition sha_init :: "u32 list" where
  "sha_init =
    [0x6A09E667, 0xBB67AE85, 0x3C6EF372, 0xA54FF53A, 0x510E527F, 0x9B05688C,
     0x1F83D9AB, 0x5BE0CD19]"

definition sha_ch :: "u32 \<Rightarrow> u32 \<Rightarrow> u32 \<Rightarrow> u32" where
  "sha_ch x y z = (x AND y) XOR (NOT x AND z)"

definition sha_maj :: "u32 \<Rightarrow> u32 \<Rightarrow> u32 \<Rightarrow> u32" where
  "sha_maj x y z = (x AND y) XOR (x AND z) XOR (y AND z)"

definition big_sigma0 :: "u32 \<Rightarrow> u32" where
  "big_sigma0 x = word_rotr 2 x XOR word_rotr 13 x XOR word_rotr 22 x"

definition big_sigma1 :: "u32 \<Rightarrow> u32" where
  "big_sigma1 x = word_rotr 6 x XOR word_rotr 11 x XOR word_rotr 25 x"

definition small_sigma0 :: "u32 \<Rightarrow> u32" where
  "small_sigma0 x = word_rotr 7 x XOR word_rotr 18 x XOR drop_bit 3 x"

definition small_sigma1 :: "u32 \<Rightarrow> u32" where
  "small_sigma1 x = word_rotr 17 x XOR word_rotr 19 x XOR drop_bit 10 x"

text \<open>The message schedule, newest word first.\<close>

fun sha_extend :: "nat \<Rightarrow> u32 list \<Rightarrow> u32 list" where
  "sha_extend 0 ws = ws"
| "sha_extend (Suc n) ws =
    sha_extend n ((small_sigma1 (ws ! 1) + ws ! 6 + small_sigma0 (ws ! 14) + ws ! 15) # ws)"

fun sha_rounds :: "(u32 \<times> u32) list \<Rightarrow> u32 list \<Rightarrow> u32 list" where
  "sha_rounds ((k, w) # kws) [a, b, c, d, e, f, g, h] =
    (let t1 = h + big_sigma1 e + sha_ch e f g + k + w;
         t2 = big_sigma0 a + sha_maj a b c
     in sha_rounds kws [t1 + t2, a, b, c, d + t1, e, f, g])"
| "sha_rounds _ st = st"

definition be_word :: "byte list \<Rightarrow> u32" where
  "be_word bs = foldl (\<lambda>acc b. acc * 256 + of_nat b) 0 bs"

definition be_bytes :: "u32 \<Rightarrow> byte list" where
  "be_bytes w = map (\<lambda>k. unat w div 2 ^ k mod 256) [24, 16, 8, 0]"

fun blocks_of :: "nat \<Rightarrow> 'a list \<Rightarrow> 'a list list" where
  "blocks_of n xs =
    (if n = 0 \<or> length xs < n then [] else take n xs # blocks_of n (drop n xs))"

declare blocks_of.simps [simp del]

definition sha_block :: "u32 list \<Rightarrow> byte list \<Rightarrow> u32 list" where
  "sha_block st blk =
    (let ws = rev (sha_extend 48 (rev (map be_word (blocks_of 4 blk))))
     in map2 (+) st (sha_rounds (zip sha_k ws) st))"

definition sha_pad :: "byte list \<Rightarrow> byte list" where
  "sha_pad msg =
    (let n = length msg
     in msg @ [0x80] @ replicate ((119 - n mod 64) mod 64) 0
        @ map (\<lambda>k. 8 * n div 2 ^ k mod 256) [56, 48, 40, 32, 24, 16, 8, 0])"

definition sha256 :: "byte list \<Rightarrow> byte list" where
  "sha256 msg = concat (map be_bytes (foldl sha_block sha_init (blocks_of 64 (sha_pad msg))))"

section \<open>HMAC\<close>

definition hmac_key :: "byte list \<Rightarrow> byte list" where
  "hmac_key key =
    (let k = (if 64 < length key then sha256 key else key) in k @ replicate (64 - length k) 0)"

definition hmac_sha256 :: "byte list \<Rightarrow> byte list \<Rightarrow> byte list" where
  "hmac_sha256 key msg =
    (let k = hmac_key key
     in sha256 (map (\<lambda>b. b XOR 0x5C) k @ sha256 (map (\<lambda>b. b XOR 0x36) k @ msg)))"

section \<open>Digest facts\<close>

lemma sha256_bytes: "b \<in> set (sha256 msg) \<Longrightarrow> b < 256"
  by (auto simp: sha256_def be_bytes_def)

lemma hmac_bytes: "b \<in> set (hmac_sha256 key msg) \<Longrightarrow> b < 256"
  by (auto simp: hmac_sha256_def Let_def dest: sha256_bytes)

lemma length_sha_rounds [simp]: "length (sha_rounds kws st) = length st"
  by (induction kws st rule: sha_rounds.induct) (auto simp: Let_def)

lemma length_sha_block [simp]: "length (sha_block st blk) = length st"
  by (simp add: sha_block_def Let_def)

lemma length_foldl_sha_block: "length (foldl sha_block st blks) = length st"
  by (induction blks arbitrary: st) auto

lemma length_concat_be_bytes: "length (concat (map be_bytes ws)) = 4 * length ws"
  by (induction ws) (auto simp: be_bytes_def)

lemma length_sha256: "length (sha256 msg) = 32"
  by (simp add: sha256_def length_concat_be_bytes length_foldl_sha_block) (simp add: sha_init_def)

lemma length_hmac: "length (hmac_sha256 key msg) = 32"
  by (simp add: hmac_sha256_def Let_def length_sha256)

end
