(* ===== verification/Token.thy ===== *)
theory Token
  imports Crypto
begin

text \<open>
  The stateless login tokens of \<^verbatim>\<open>auth/token.go\<close>: the issuer, signing, issuing and
  verification, with the identifier pattern of \<^verbatim>\<open>auth/auth.go\<close> that verification
  checks. The clock is an argument, in Unix seconds. The theorems show that
  verification accepts exactly the tokens the issuer can have signed within
  their window, and that the payload of a token determines the user.
\<close>

section \<open>The issuer\<close>

definition id_char :: "char \<Rightarrow> bool" where
  "id_char c \<longleftrightarrow> is_alnum c \<or> c = CHR ''_''"

definition idPattern :: "string \<Rightarrow> bool" where
  "idPattern s \<longleftrightarrow> s \<noteq> [] \<and> list_all id_char s"

definition pwdPattern :: "string \<Rightarrow> bool" where
  "pwdPattern s \<longleftrightarrow> s \<noteq> [] \<and> list_all (\<lambda>c. id_char c \<or> c \<in> set ''!@#$%^&*'') s"

definition tokenPrefix :: string where
  "tokenPrefix = ''aat''"

record TokenIssuer =
  secret :: string
  validSecs :: int

definition NewTokenIssuer :: "string \<Rightarrow> int \<Rightarrow> TokenIssuer" where
  "NewTokenIssuer sec secs = \<lparr>secret = sec, validSecs = secs\<rparr>"

definition cutLast :: "string \<Rightarrow> string \<Rightarrow> string \<times> string \<times> bool" where
  "cutLast s sep =
    (let index = LastIndex s sep
     in if index < 0 then ([], [], False)
        else (take (nat index) s, drop (nat index + length sep) s, True))"

definition sign :: "TokenIssuer \<Rightarrow> string \<Rightarrow> string" where
  "sign t payload =
    EncodeToString (hmac_sha256 (map byte_of (secret t)) (map byte_of payload))"

definition Issue :: "TokenIssuer \<Rightarrow> int \<Rightarrow> string \<Rightarrow> string" where
  "Issue t now ident =
    (let payload = tokenPrefix @ ''_'' @ ident @ ''_'' @ Itoa now
     in payload @ ''_'' @ sign t payload)"

definition Verify :: "TokenIssuer \<Rightarrow> int \<Rightarrow> string \<Rightarrow> string \<times> bool" where
  "Verify t now token =
    (case cutLast token ''_'' of (payload, signature, ok1) \<Rightarrow>
     if \<not> ok1 then ([], False)
     else (case cutLast payload ''_'' of (rest, issuedAtRaw, ok2) \<Rightarrow>
       if \<not> ok2 then ([], False)
       else (case CutPrefix rest (tokenPrefix @ ''_'') of (ident, ok3) \<Rightarrow>
         if \<not> ok3 \<or> \<not> idPattern ident then ([], False)
         else (case ParseInt issuedAtRaw of
             None \<Rightarrow> ([], False)
           | Some issuedAt \<Rightarrow>
               if signature \<noteq> sign t payload then ([], False)
               else let age = wrap64 (now - issuedAt)
                    in if age < 0 \<or> validSecs t \<le> age then ([], False) else (ident, True)))))"

section \<open>Cutting at the last separator\<close>

lemma cutLast_char:
  "c \<notin> set after \<Longrightarrow> cutLast (before @ c # after) [c] = (before, after, True)"
  by (simp add: cutLast_def LastIndex_char)

lemma cutLast_char_iff:
  "cutLast s [c] = (before, after, True) \<longleftrightarrow> s = before @ c # after \<and> c \<notin> set after"
proof
  assume cut: "cutLast s [c] = (before, after, True)"
  then have "LastIndex s [c] \<noteq> - 1" by (auto simp: cutLast_def)
  then have "c \<in> set s" using LastIndex_char_absent by blast
  then obtain b a where s: "s = b @ c # a" and a: "c \<notin> set a"
    by (metis split_list_last)
  with cut cutLast_char [OF a, of b] show "s = before @ c # after \<and> c \<notin> set after" by simp
qed (auto simp: cutLast_char)

lemma ParseInt_no_underscore: "ParseInt s = Some n \<Longrightarrow> CHR ''_'' \<notin> set s"
proof -
  have dig: "digits_val acc t = Some m \<Longrightarrow> \<forall>c\<in>set t. is_digit c" for acc t m
    by (induction t arbitrary: acc) (auto split: if_splits)
  assume p: "ParseInt s = Some n"
  then obtain m where m: "parse_nat (if s \<noteq> [] \<and> (hd s = CHR ''-'' \<or> hd s = CHR ''+'') then tl s else s) = Some m"
    by (auto simp: ParseInt_def Let_def split: option.splits)
  then have "\<forall>c\<in>set (if s \<noteq> [] \<and> (hd s = CHR ''-'' \<or> hd s = CHR ''+'') then tl s else s). is_digit c"
    by (auto simp: parse_nat_def dest: dig split: if_splits)
  then show ?thesis
    by (cases s) (auto dest: is_digit_not_sign split: if_splits)
qed

lemma sign_no_underscore: "CHR ''_'' \<notin> set (sign t payload)"
  using EncodeToString_alnum hmac_bytes is_alnum_not_underscore
  unfolding sign_def by blast

lemma length_sign: "length (sign t payload) = 64"
  by (simp add: sign_def length_hmac)

section \<open>What verification accepts\<close>

definition token_of :: "TokenIssuer \<Rightarrow> string \<Rightarrow> string \<Rightarrow> string" where
  "token_of t ident raw =
    (let payload = tokenPrefix @ ''_'' @ ident @ ''_'' @ raw in payload @ ''_'' @ sign t payload)"

definition fresh :: "TokenIssuer \<Rightarrow> int \<Rightarrow> int \<Rightarrow> bool" where
  "fresh t now issuedAt \<longleftrightarrow>
    0 \<le> wrap64 (now - issuedAt) \<and> wrap64 (now - issuedAt) < validSecs t"

lemma cutLast_token_of:
  "cutLast (token_of t ident raw) ''_'' =
     (tokenPrefix @ ''_'' @ ident @ ''_'' @ raw, sign t (tokenPrefix @ ''_'' @ ident @ ''_'' @ raw), True)"
  by (simp add: token_of_def Let_def cutLast_char_iff sign_no_underscore)

lemma Verify_sound:
  assumes "Verify t now token = (ident, True)"
  shows "\<exists>raw issuedAt. token = token_of t ident raw \<and> idPattern ident
           \<and> ParseInt raw = Some issuedAt \<and> fresh t now issuedAt"
proof -
  from assms obtain payload sig rest raw issuedAt
    where 1: "cutLast token ''_'' = (payload, sig, True)"
      and 2: "cutLast payload ''_'' = (rest, raw, True)"
      and 3: "CutPrefix rest (tokenPrefix @ ''_'') = (ident, True)"
      and rest: "idPattern ident" "ParseInt raw = Some issuedAt" "sig = sign t payload"
        "fresh t now issuedAt"
    by (auto simp: Verify_def fresh_def Let_def not_le not_less
        split: prod.splits option.splits if_splits)
  from 3 have "rest = tokenPrefix @ ''_'' @ ident" by (simp add: CutPrefix_True_iff)
  with 1 2 rest(3) have "token = token_of t ident raw"
    by (simp add: cutLast_char_iff token_of_def Let_def)
  with rest show ?thesis by blast
qed

lemma Verify_complete:
  assumes "idPattern ident" "ParseInt raw = Some issuedAt" "fresh t now issuedAt"
  shows "Verify t now (token_of t ident raw) = (ident, True)"
proof -
  let ?p = "tokenPrefix @ ''_'' @ ident @ ''_'' @ raw"
  have 2: "cutLast ?p ''_'' = (tokenPrefix @ ''_'' @ ident, raw, True)"
    unfolding cutLast_char_iff using assms(2) by (simp add: ParseInt_no_underscore)
  have 3: "CutPrefix (tokenPrefix @ ''_'' @ ident) (tokenPrefix @ ''_'') = (ident, True)"
    by (simp add: CutPrefix_True_iff)
  show ?thesis
    unfolding Verify_def cutLast_token_of prod.case 2 3
    using assms by (simp add: fresh_def Let_def)
qed

lemma Verify_result: "Verify t now token = ([], False) \<or> (\<exists>ident. Verify t now token = (ident, True))"
  by (auto simp: Verify_def Let_def split: prod.splits option.splits)

lemma Issue_token_of: "Issue t now ident = token_of t ident (Itoa now)"
  by (simp add: Issue_def token_of_def)

lemma token_of_inj:
  assumes "CHR ''_'' \<notin> set raw" "CHR ''_'' \<notin> set raw'" "token_of t ident raw = token_of t' ident' raw'"
  shows "ident = ident' \<and> raw = raw'"
proof -
  let ?p = "tokenPrefix @ ''_'' @ ident @ ''_'' @ raw"
  let ?p' = "tokenPrefix @ ''_'' @ ident' @ ''_'' @ raw'"
  have "?p = ?p'" using cutLast_token_of [of t ident raw] cutLast_token_of [of t' ident' raw'] assms(3) by simp
  moreover have "cutLast ?p ''_'' = (tokenPrefix @ ''_'' @ ident, raw, True)"
    "cutLast ?p' ''_'' = (tokenPrefix @ ''_'' @ ident', raw', True)"
    unfolding cutLast_char_iff using assms(1,2) by simp_all
  ultimately show ?thesis by simp
qed

lemma fresh_window: "int64 (now - issued) \<Longrightarrow> fresh t now issued \<longleftrightarrow> issued \<le> now \<and> now - issued < validSecs t"
  by (auto simp: fresh_def)

lemma int64_diff: "0 \<le> a \<Longrightarrow> int64 a \<Longrightarrow> 0 \<le> b \<Longrightarrow> int64 b \<Longrightarrow> int64 (a - b)"
  by (auto simp: int64_def)

text \<open>
  C3. Verification is exact: it returns a user identifier precisely when the token has the
  layout prefix, identifier, decimal time, signature of that very payload under the
  issuer's secret, the identifier matches the pattern, and the age (in wrapping 64-bit
  arithmetic) is not negative and below the validity period. Nothing else is accepted.
\<close>

theorem Verify_iff:
  "Verify t now token = (ident, True) \<longleftrightarrow>
     (\<exists>raw issuedAt. token = token_of t ident raw \<and> idPattern ident
        \<and> ParseInt raw = Some issuedAt \<and> fresh t now issuedAt)"
  using Verify_sound Verify_complete by blast

text \<open>
  Round trip and expiry: a token issued for an identifier at one time verifies at a
  later time to that identifier exactly while its age is within the validity window, and is
  rejected before its issue time and from the moment it expires.
\<close>

lemma Verify_Issue:
  assumes "0 \<le> issued" "int64 issued" "0 \<le> now" "int64 now"
  shows "Verify t now (Issue t issued ident) =
    (if idPattern ident \<and> issued \<le> now \<and> now - issued < validSecs t then (ident, True) else ([], False))"
proof (cases "idPattern ident \<and> issued \<le> now \<and> now - issued < validSecs t")
  case True
  then show ?thesis
    using assms Verify_complete [of ident "Itoa issued" issued t now]
    by (simp add: Issue_token_of ParseInt_Itoa fresh_window int64_diff)
next
  case False
  have "Verify t now (Issue t issued ident) \<noteq> (ident', True)" for ident'
  proof
    assume "Verify t now (Issue t issued ident) = (ident', True)"
    then obtain raw iat where eq: "token_of t ident (Itoa issued) = token_of t ident' raw"
      and acc: "idPattern ident'" "ParseInt raw = Some iat" "fresh t now iat"
      using Verify_sound unfolding Issue_token_of by blast
    have "ident = ident' \<and> Itoa issued = raw"
      by (rule token_of_inj [OF Itoa_no_underscore ParseInt_no_underscore [OF acc(2)] eq])
    with acc assms False show False
      by (auto simp: ParseInt_Itoa fresh_window int64_diff)
  qed
  with Verify_result [of t now "Issue t issued ident"] False show ?thesis by auto
qed

text \<open>
  The token of one user can never be read as the token of another: even for identifiers
  that themselves contain the separator, two issued tokens are equal only if they carry the
  same identifier and the same time.
\<close>

lemma Issue_inject:
  "Issue t now ident = Issue t now' ident' \<longleftrightarrow> ident = ident' \<and> now = now'"
  using token_of_inj [OF Itoa_no_underscore Itoa_no_underscore, of t ident now t ident' now']
  by (auto simp: Issue_token_of dest: Itoa_inj)

end
