(* ===== verification/Json.thy ===== *)
theory Json
  imports GoStrings
begin

text \<open>
  \<^verbatim>\<open>encoding/json\<close> at the level of document trees. A document is a \<open>json\<close>
  value; \<open>goval\<close> is a Go value of type \<^verbatim>\<open>any\<close>. What the package does to
  values on the way to disk and back is modelled: integers come back as
  \<^verbatim>\<open>float64\<close>, strings are made valid UTF-8, object keys match struct fields
  case-insensitively, \<^verbatim>\<open>null\<close> leaves a field alone, a value of the wrong kind is
  an error and unknown keys are ignored. The concrete syntax (white space,
  escapes, the order of keys) is not. A time is a document leaf, since its RFC
  3339 text carries the whole value; read as a plain value it is that text, for
  which the nanosecond count stands.

  The locale \<open>json_codec\<close> is the interface of a stored record type: encoding,
  decoding and what a round trip does to a value.
\<close>

section \<open>Documents and values\<close>

datatype json =
    JNull
  | JBool bool
  | JInt int
  | JDec rat
  | JStr string
  | JTime time
  | JArr "json list"
  | JObj "(string \<times> json) list"

datatype goval =
    VNil
  | VBool bool
  | VInt64 int
  | VFloat64 rat
  | VString string
  | VSlice "goval list"
  | VMap "(string \<times> goval) list"

section \<open>Numbers\<close>

fun bit_len :: "nat \<Rightarrow> nat" where
  "bit_len n = (if n = 0 then 0 else Suc (bit_len (n div 2)))"

declare bit_len.simps [simp del]

text \<open>The \<^verbatim>\<open>float64\<close> nearest to an integer, ties to even.\<close>

definition float64_of_int :: "int \<Rightarrow> rat" where
  "float64_of_int n =
    (let a = nat \<bar>n\<bar>
     in if a \<le> 2 ^ 53 then of_int n
        else let e = bit_len a - 53;
                 q = a div 2 ^ e;
                 r = a mod 2 ^ e;
                 half = 2 ^ (e - 1);
                 q' = (if half < r \<or> r = half \<and> odd q then q + 1 else q)
             in of_int (sgn n) * of_nat (q' * 2 ^ e))"

lemma float64_of_int_exact [simp]: "\<bar>n\<bar> \<le> 2 ^ 53 \<Longrightarrow> float64_of_int n = of_int n"
  by (simp add: float64_of_int_def nat_le_iff)

text \<open>A \<^verbatim>\<open>float64\<close> is written without fraction or exponent when it is integral and
  below \<open>10 ^ 21\<close>.\<close>

definition marshal_float :: "rat \<Rightarrow> json" where
  "marshal_float q =
    (if q = of_int \<lfloor>q\<rfloor> \<and> \<bar>q\<bar> < 10 ^ 21 then JInt \<lfloor>q\<rfloor> else JDec q)"

section \<open>Values of type any\<close>

fun marshal_val :: "goval \<Rightarrow> json" where
  "marshal_val VNil = JNull"
| "marshal_val (VBool b) = JBool b"
| "marshal_val (VInt64 n) = JInt n"
| "marshal_val (VFloat64 q) = marshal_float q"
| "marshal_val (VString s) = JStr (json_str s)"
| "marshal_val (VSlice vs) = JArr (map marshal_val vs)"
| "marshal_val (VMap kvs) = JObj (map (\<lambda>(k, v). (json_str k, marshal_val v)) kvs)"

fun unmarshal_val :: "json \<Rightarrow> goval" where
  "unmarshal_val JNull = VNil"
| "unmarshal_val (JBool b) = VBool b"
| "unmarshal_val (JInt n) = VFloat64 (float64_of_int n)"
| "unmarshal_val (JDec q) = VFloat64 q"
| "unmarshal_val (JStr s) = VString s"
| "unmarshal_val (JTime t) = VString (Itoa t)"
| "unmarshal_val (JArr js) = VSlice (map unmarshal_val js)"
| "unmarshal_val (JObj kvs) = VMap (map (\<lambda>(k, j). (k, unmarshal_val j)) kvs)"

section \<open>Struct fields\<close>

text \<open>A key of an object selects a struct field when it equals the field's name up to case.\<close>

definition field_is :: "string \<Rightarrow> string \<Rightarrow> bool" where
  "field_is name key \<longleftrightarrow> EqualFold name key"

definition dec_string :: "json \<Rightarrow> string \<Rightarrow> string option" where
  "dec_string j old = (case j of JStr s \<Rightarrow> Some s | JNull \<Rightarrow> Some old | _ \<Rightarrow> None)"

definition dec_bool :: "json \<Rightarrow> bool \<Rightarrow> bool option" where
  "dec_bool j old = (case j of JBool b \<Rightarrow> Some b | JNull \<Rightarrow> Some old | _ \<Rightarrow> None)"

definition dec_int :: "json \<Rightarrow> int \<Rightarrow> int option" where
  "dec_int j old =
    (case j of JInt n \<Rightarrow> (if int64 n then Some n else None) | JNull \<Rightarrow> Some old | _ \<Rightarrow> None)"

definition dec_u32 :: "json \<Rightarrow> u32 \<Rightarrow> u32 option" where
  "dec_u32 j old =
    (case j of
       JInt n \<Rightarrow> (if 0 \<le> n \<and> n < 2 ^ 32 then Some (word_of_int n) else None)
     | JNull \<Rightarrow> Some old
     | _ \<Rightarrow> None)"

definition dec_time :: "json \<Rightarrow> time \<Rightarrow> time option" where
  "dec_time j old = (case j of JTime t \<Rightarrow> Some t | JNull \<Rightarrow> Some old | _ \<Rightarrow> None)"

definition dec_strings :: "json \<Rightarrow> string list \<Rightarrow> string list option" where
  "dec_strings j old =
    (case j of
       JArr js \<Rightarrow> those (map (\<lambda>x. dec_string x []) js)
     | JNull \<Rightarrow> Some []
     | _ \<Rightarrow> None)"

text \<open>Decoding an object field by field; the first field that does not fit is the error.\<close>

fun dec_fields :: "(string \<Rightarrow> json \<Rightarrow> 'a \<Rightarrow> 'a option) \<Rightarrow> (string \<times> json) list \<Rightarrow> 'a \<Rightarrow> 'a option" where
  "dec_fields f [] x = Some x"
| "dec_fields f ((k, j) # kvs) x =
    (case f k j x of None \<Rightarrow> None | Some x' \<Rightarrow> dec_fields f kvs x')"

definition dec_object :: "(string \<Rightarrow> json \<Rightarrow> 'a \<Rightarrow> 'a option) \<Rightarrow> 'a \<Rightarrow> json \<Rightarrow> 'a option" where
  "dec_object f zero j =
    (case j of JObj kvs \<Rightarrow> dec_fields f kvs zero | JNull \<Rightarrow> Some zero | _ \<Rightarrow> None)"

section \<open>Facts\<close>

lemma those_map_Some [simp]: "those (map (\<lambda>x. Some (f x)) xs) = Some (map f xs)"
  by (induction xs) auto

lemma dec_strings_JArr [simp]:
  "dec_strings (JArr (map (JStr \<circ> f) xs)) old = Some (map f xs)"
  by (simp add: dec_strings_def dec_string_def comp_def)

lemma dec_u32_uint [simp]: "dec_u32 (JInt (uint w)) old = Some w"
proof -
  have "uint w < 2 ^ 32" using unsigned_less [of w] by simp
  then show ?thesis by (simp add: dec_u32_def)
qed

lemma dec_basic [simp]:
  "dec_string (JStr s) s0 = Some s" "dec_bool (JBool b) b0 = Some b"
  "int64 n \<Longrightarrow> dec_int (JInt n) n0 = Some n" "dec_time (JTime t) t0 = Some t"
  by (simp_all add: dec_string_def dec_bool_def dec_int_def dec_time_def)

lemma dec_fields_append:
  "dec_fields f (xs @ ys) x = (case dec_fields f xs x of None \<Rightarrow> None | Some x' \<Rightarrow> dec_fields f ys x')"
  by (induction xs arbitrary: x) (auto split: option.splits)

section \<open>The interface of a stored record type\<close>

locale json_codec =
  fixes enc :: "'a \<Rightarrow> json"
    and dec :: "json \<Rightarrow> 'a option"
    and norm :: "'a \<Rightarrow> 'a"
    and storable :: "'a \<Rightarrow> bool"
  assumes dec_enc: "storable x \<Longrightarrow> dec (enc x) = Some (norm x)"
    and norm_stable: "storable x \<Longrightarrow> norm (norm x) = norm x"
    and storable_norm: "storable x \<Longrightarrow> storable (norm x)"
begin

text \<open>After one round trip a value is stable: every further one returns it unchanged.\<close>

lemma reread: "storable x \<Longrightarrow> dec (enc (norm x)) = Some (norm x)"
  using dec_enc [OF storable_norm] by (simp add: norm_stable)

lemma reread_decoded: "storable x \<Longrightarrow> dec (enc x) = Some y \<Longrightarrow> dec (enc y) = Some y"
  using dec_enc reread by auto

end

section \<open>Round trips of values\<close>

definition norm_val :: "goval \<Rightarrow> goval" where
  "norm_val v = unmarshal_val (marshal_val v)"

definition float_ok :: "rat \<Rightarrow> bool" where
  "float_ok q \<longleftrightarrow> (q = of_int \<lfloor>q\<rfloor> \<and> \<bar>q\<bar> < 10 ^ 21 \<longrightarrow> float64_of_int \<lfloor>q\<rfloor> = q)"

fun val_ok :: "goval \<Rightarrow> bool" where
  "val_ok (VInt64 n) = (\<bar>n\<bar> \<le> 2 ^ 53)"
| "val_ok (VFloat64 q) = float_ok q"
| "val_ok (VSlice vs) = list_all val_ok vs"
| "val_ok (VMap kvs) = list_all (\<lambda>(k, v). val_ok v) kvs"
| "val_ok _ = True"

lemma norm_val_float: "float_ok q \<Longrightarrow> norm_val (VFloat64 q) = VFloat64 q"
  by (auto simp: norm_val_def marshal_float_def float_ok_def)

lemma float_ok_int: "\<bar>n\<bar> \<le> 2 ^ 53 \<Longrightarrow> float_ok (of_int n)"
  by (simp add: float_ok_def)

lemma norm_val_ok: "val_ok v \<Longrightarrow> val_ok (norm_val v) \<and> norm_val (norm_val v) = norm_val v"
proof (induction v rule: val_ok.induct)
  case (1 n)
  then show ?case using norm_val_float [OF float_ok_int [of n]] float_ok_int [of n]
    by (simp add: norm_val_def)
next
  case (2 q)
  then show ?case by (simp add: norm_val_float)
next
  case (3 vs)
  then show ?case by (auto simp: norm_val_def list_all_iff)
next
  case (4 kvs)
  then show ?case by (fastforce simp: norm_val_def list_all_iff)
qed (simp_all add: norm_val_def)

end
