(* ===== verification/Profile.thy ===== *)
theory Profile
  imports Json
begin

text \<open>
  The profile schema of \<^verbatim>\<open>auth/profile.go\<close>: the built-in keys, the parser of the
  \<^verbatim>\<open>ALLOWED_PROFILE_KEY\<close> declaration with each of its errors, and the two
  decisions taken on it, which values a client may write and which keys a viewer
  sees. A Go map is an association list with distinct keys. The theorems show
  that no declaration can touch the built-in keys and that every well-formed
  declaration list is read back as written.
\<close>

section \<open>Schema\<close>

datatype profileValueType = profileTypeString | profileTypeNumber | profileTypeBool

record profileField =
  valueType :: profileValueType
  "private" :: bool
  immutable :: bool
  builtin :: bool

definition ProfileKeyUsername :: string where
  "ProfileKeyUsername = ''username''"

definition ProfileKeyRegister :: string where
  "ProfileKeyRegister = ''register''"

type_synonym field_map = "(string \<times> profileField) list"

definition builtinFields :: field_map where
  "builtinFields =
    [(ProfileKeyUsername,
      \<lparr>valueType = profileTypeString, private = False, immutable = False, builtin = True\<rparr>),
     (ProfileKeyRegister,
      \<lparr>valueType = profileTypeNumber, private = False, immutable = True, builtin = True\<rparr>)]"

record ProfileSchema =
  schema_fields :: field_map

datatype schema_error =
    BadEntry string
  | EmptyName string
  | BuiltinKey string
  | DuplicateKey string
  | UnknownType string string
  | UnknownVisibility string string

definition parse_type :: "string \<Rightarrow> profileValueType option" where
  "parse_type raw =
    (let s = ToLower (TrimSpace raw)
     in if s = ''string'' then Some profileTypeString
        else if s = ''number'' then Some profileTypeNumber
        else if s = ''bool'' then Some profileTypeBool
        else None)"

definition parse_visibility :: "string \<Rightarrow> bool option" where
  "parse_visibility raw =
    (let s = ToLower (TrimSpace raw)
     in if s = ''public'' then Some False else if s = ''private'' then Some True else None)"

definition parse_entry :: "string \<Rightarrow> field_map \<Rightarrow> schema_error + field_map" where
  "parse_entry entry fs =
    (let parts = Split entry (CHR '':'')
     in if length parts < 2 \<or> 3 < length parts then Inl (BadEntry entry)
        else let name = TrimSpace (parts ! 0)
        in if name = [] then Inl (EmptyName entry)
        else (case map_of fs name of
            Some existing \<Rightarrow> if builtin existing then Inl (BuiltinKey name) else Inl (DuplicateKey name)
          | None \<Rightarrow>
              (case parse_type (parts ! 1) of
                 None \<Rightarrow> Inl (UnknownType name (parts ! 1))
               | Some ty \<Rightarrow>
                   let field = \<lparr>valueType = ty, private = False, immutable = False, builtin = False\<rparr>
                   in if length parts = 3 then
                        (case parse_visibility (parts ! 2) of
                           None \<Rightarrow> Inl (UnknownVisibility name (parts ! 2))
                         | Some priv \<Rightarrow> Inr (AList.update name (field\<lparr>private := priv\<rparr>) fs))
                      else Inr (AList.update name field fs))))"

fun parse_entries :: "string list \<Rightarrow> field_map \<Rightarrow> schema_error + field_map" where
  "parse_entries [] fs = Inr fs"
| "parse_entries (raw # rest) fs =
    (let entry = TrimSpace raw
     in if entry = [] then parse_entries rest fs
        else (case parse_entry entry fs of Inl e \<Rightarrow> Inl e | Inr fs' \<Rightarrow> parse_entries rest fs'))"

definition ParseProfileSchema :: "string \<Rightarrow> schema_error + ProfileSchema" where
  "ParseProfileSchema raw =
    (case parse_entries (Split raw (CHR '','')) builtinFields of
       Inl e \<Rightarrow> Inl e
     | Inr fs \<Rightarrow> Inr \<lparr>schema_fields = fs\<rparr>)"

definition Len :: "ProfileSchema \<Rightarrow> nat" where
  "Len s = length (schema_fields s)"

definition accepts :: "ProfileSchema \<Rightarrow> string \<Rightarrow> goval \<Rightarrow> bool" where
  "accepts s key v =
    (case map_of (schema_fields s) key of
       None \<Rightarrow> False
     | Some field \<Rightarrow>
         if immutable field then False
         else (case valueType field of
             profileTypeString \<Rightarrow> (case v of VString _ \<Rightarrow> True | _ \<Rightarrow> False)
           | profileTypeNumber \<Rightarrow> (case v of VFloat64 _ \<Rightarrow> True | _ \<Rightarrow> False)
           | profileTypeBool \<Rightarrow> (case v of VBool _ \<Rightarrow> True | _ \<Rightarrow> False)))"

definition visible :: "ProfileSchema \<Rightarrow> string \<Rightarrow> bool \<Rightarrow> bool" where
  "visible s key authenticated =
    (case map_of (schema_fields s) key of
       None \<Rightarrow> False
     | Some field \<Rightarrow> authenticated \<or> \<not> private field)"

section \<open>What the parser keeps\<close>

lemma parse_entry_extends:
  "parse_entry entry fs = Inr fs' \<Longrightarrow>
   \<exists>name ty priv. fs' = AList.update name
     \<lparr>valueType = ty, private = priv, immutable = False, builtin = False\<rparr> fs \<and> map_of fs name = None"
  by (simp add: parse_entry_def Let_def split: if_splits option.splits) blast+

lemma parse_entries_keeps:
  "parse_entries raws fs = Inr fs' \<Longrightarrow> map_of fs k = Some f \<Longrightarrow> map_of fs' k = Some f"
proof (induction raws arbitrary: fs)
  case (Cons raw raws)
  then show ?case
    by (fastforce simp: Let_def update_conv' dest!: parse_entry_extends split: if_splits sum.splits)
qed simp

lemma parse_entries_new:
  "parse_entries raws fs = Inr fs' \<Longrightarrow> map_of fs' k = Some f \<Longrightarrow>
   map_of fs k = Some f \<or> \<not> builtin f \<and> \<not> immutable f"
proof (induction raws arbitrary: fs)
  case (Cons raw raws)
  then show ?case
    by (fastforce simp: Let_def update_conv' dest!: parse_entry_extends split: if_splits sum.splits)
qed simp

lemma parse_entries_distinct:
  "parse_entries raws fs = Inr fs' \<Longrightarrow> distinct (map fst fs) \<Longrightarrow> distinct (map fst fs')"
proof (induction raws arbitrary: fs)
  case (Cons raw raws)
  then show ?case
    by (auto simp: Let_def distinct_update dest!: parse_entry_extends split: if_splits sum.splits)
qed simp

section \<open>Declarations\<close>

text \<open>A declaration as an operator writes it, its text, and the field it declares.\<close>

type_synonym decl = "string \<times> profileValueType \<times> bool"

definition type_name :: "profileValueType \<Rightarrow> string" where
  "type_name ty =
    (case ty of profileTypeString \<Rightarrow> ''string'' | profileTypeNumber \<Rightarrow> ''number''
     | profileTypeBool \<Rightarrow> ''bool'')"

definition decl_text :: "decl \<Rightarrow> string" where
  "decl_text d =
    (case d of (name, ty, priv) \<Rightarrow>
       name @ '':'' @ type_name ty @ (if priv then '':private'' else []))"

definition decl_field :: "decl \<Rightarrow> string \<times> profileField" where
  "decl_field d =
    (case d of (name, ty, priv) \<Rightarrow>
       (name, \<lparr>valueType = ty, private = priv, immutable = False, builtin = False\<rparr>))"

definition decl_name_ok :: "string \<Rightarrow> bool" where
  "decl_name_ok s \<longleftrightarrow> s \<noteq> [] \<and>
    list_all (\<lambda>c. is_alnum c \<or> c = CHR ''_'') s \<and> s \<notin> {ProfileKeyUsername, ProfileKeyRegister}"

fun join_with :: "char \<Rightarrow> string list \<Rightarrow> string" where
  "join_with c [] = []"
| "join_with c [w] = w"
| "join_with c (w # ws) = w @ c # join_with c ws"

lemma Split_append: "c \<notin> set w \<Longrightarrow> Split (w @ c # s) c = w # Split s c"
  by (induction w) auto

lemma Split_single: "c \<notin> set w \<Longrightarrow> Split w c = [w]"
  by (induction w) auto

lemma Split_join_with:
  "ws \<noteq> [] \<Longrightarrow> \<forall>w\<in>set ws. c \<notin> set w \<Longrightarrow> Split (join_with c ws) c = ws"
  by (induction c ws rule: join_with.induct) (auto simp: Split_append Split_single)

definition word_char :: "char \<Rightarrow> bool" where
  "word_char c \<longleftrightarrow> is_alnum c \<or> c = CHR ''_'' \<or> c = CHR '':''"

lemma word_char_ascii: "word_char c \<Longrightarrow> byte_of c < (128::nat) \<and> \<not> is_space (byte_of c)"
  by (auto simp: word_char_def is_alnum_def is_upper_def is_lower_def is_digit_def is_space_def)

lemma TrimSpace_words: "list_all word_char s \<Longrightarrow> TrimSpace s = s"
proof -
  assume w: "list_all word_char s"
  then have "ascii s" by (auto simp: ascii_def list_all_iff dest: word_char_ascii)
  moreover have "\<forall>c\<in>set s. \<not> is_space (byte_of c)"
    using w by (auto simp: list_all_iff dest: word_char_ascii)
  ultimately show ?thesis
    by (intro TrimSpace_ascii) auto
qed

lemma decl_text_parts:
  assumes "decl_name_ok name"
  shows "Split (decl_text (name, ty, priv)) (CHR '':'') =
    name # type_name ty # (if priv then [''private''] else [])"
proof -
  have "CHR '':'' \<notin> set name"
    using assms by (auto simp: decl_name_ok_def list_all_iff is_alnum_def is_upper_def is_lower_def is_digit_def)
  moreover have "CHR '':'' \<notin> set (type_name ty)" by (cases ty) (auto simp: type_name_def)
  ultimately show ?thesis by (simp add: decl_text_def Split_append Split_single)
qed

lemma parse_type_name: "parse_type (type_name ty) = Some ty"
proof -
  have "TrimSpace (type_name ty) = type_name ty"
    by (rule TrimSpace_words, cases ty)
       (simp_all add: type_name_def word_char_def is_alnum_def is_lower_def)
  moreover have "ToLower (type_name ty) = type_name ty"
    by (rule ToLower_id; cases ty) (simp_all add: type_name_def is_upper_def)
  ultimately show ?thesis by (cases ty) (simp_all add: parse_type_def type_name_def)
qed

lemma parse_visibility_private: "parse_visibility ''private'' = Some True"
proof -
  have "TrimSpace ''private'' = ''private''"
    by (rule TrimSpace_words) (simp add: word_char_def is_alnum_def is_lower_def)
  moreover have "ToLower ''private'' = ''private''"
    by (rule ToLower_id) (simp_all add: is_upper_def)
  ultimately show ?thesis
    by (simp add: parse_visibility_def)
qed

lemma decl_name_words: "decl_name_ok name \<Longrightarrow> list_all word_char name"
  by (auto simp: decl_name_ok_def list_all_iff word_char_def)

lemma decl_text_words: "decl_name_ok name \<Longrightarrow> list_all word_char (decl_text (name, ty, priv))"
  using decl_name_words [of name]
  by (cases ty) (simp_all add: decl_text_def type_name_def word_char_def is_alnum_def is_lower_def)

lemma parse_entry_decl:
  assumes "decl_name_ok name" "map_of fs name = None"
  shows "parse_entry (decl_text (name, ty, priv)) fs = Inr (fs @ [decl_field (name, ty, priv)])"
proof -
  have upd: "AList.update name f fs = fs @ [(name, f)]" for f
    using assms(2) by (induction fs) (auto split: if_splits)
  have "TrimSpace name = name" by (rule TrimSpace_words [OF decl_name_words [OF assms(1)]])
  moreover have "name \<noteq> []" using assms(1) by (simp add: decl_name_ok_def)
  ultimately show ?thesis
    using assms(2)
    by (simp add: parse_entry_def decl_text_parts [OF assms(1)] parse_type_name
        parse_visibility_private upd decl_field_def Let_def)
qed

lemma parse_entries_decls:
  assumes "\<forall>d\<in>set ds. decl_name_ok (fst d)" "distinct (map fst fs @ map fst ds)"
  shows "parse_entries (map decl_text ds) fs = Inr (fs @ map decl_field ds)"
  using assms
proof (induction ds arbitrary: fs)
  case (Cons d ds)
  obtain name ty priv where d: "d = (name, ty, priv)" by (cases d) auto
  have ok: "decl_name_ok name" using Cons.prems(1) d by simp
  have none: "map_of fs name = None" using Cons.prems(2) d by (auto simp: map_of_eq_None_iff)
  have trim: "TrimSpace (decl_text d) = decl_text d"
    unfolding d by (rule TrimSpace_words [OF decl_text_words [OF ok]])
  have ne: "decl_text d \<noteq> []" unfolding d by (simp add: decl_text_def)
  have "parse_entries (map decl_text ds) (fs @ [decl_field d]) = Inr ((fs @ [decl_field d]) @ map decl_field ds)"
    using Cons.prems d by (intro Cons.IH) (auto simp: decl_field_def)
  then show ?case
    using trim ne by (simp add: d parse_entry_decl [OF ok none])
qed simp

section \<open>Properties\<close>

text \<open>
  Whatever the configuration says, a parsed schema has the built-in keys exactly as the
  server defines them, keeps its keys distinct, and has no other immutable or built-in key:
  the register key can be neither redeclared nor made writable, and no client value is
  accepted for it.
\<close>

lemma ParseProfileSchema_builtin:
  assumes "ParseProfileSchema raw = Inr s"
  shows "map_of (schema_fields s) ProfileKeyUsername = map_of builtinFields ProfileKeyUsername
    \<and> map_of (schema_fields s) ProfileKeyRegister = map_of builtinFields ProfileKeyRegister
    \<and> distinct (map fst (schema_fields s))
    \<and> (\<forall>k f. map_of (schema_fields s) k = Some f \<longrightarrow> immutable f \<or> builtin f \<longrightarrow> map_of builtinFields k = Some f)
    \<and> (\<forall>v. \<not> accepts s ProfileKeyRegister v)"
proof -
  from assms obtain fs where fs: "parse_entries (Split raw (CHR '','')) builtinFields = Inr fs"
    and s: "s = \<lparr>schema_fields = fs\<rparr>"
    by (auto simp: ParseProfileSchema_def split: sum.splits)
  have keep: "map_of builtinFields k = Some f \<Longrightarrow> map_of fs k = Some f" for k f
    by (rule parse_entries_keeps [OF fs])
  have reg: "map_of fs ProfileKeyRegister = map_of builtinFields ProfileKeyRegister"
    using keep by (simp add: builtinFields_def)
  have "map_of fs ProfileKeyUsername = map_of builtinFields ProfileKeyUsername"
    using keep by (simp add: builtinFields_def)
  moreover have "distinct (map fst fs)"
    by (rule parse_entries_distinct [OF fs])
       (simp add: builtinFields_def ProfileKeyUsername_def ProfileKeyRegister_def)
  moreover have "\<not> accepts s ProfileKeyRegister v" for v
    using reg by (simp add: s accepts_def builtinFields_def ProfileKeyUsername_def ProfileKeyRegister_def)
  ultimately show ?thesis
    using reg parse_entries_new [OF fs] by (auto simp: s)
qed

text \<open>
  C13. Round trip of the configuration: every comma separated list of declarations with
  distinct, non-built-in names made of letters, digits and underscores is accepted and yields
  the built-in fields followed by exactly the declared fields, with their types and
  visibility.
\<close>

theorem ParseProfileSchema_decls:
  assumes "ds \<noteq> []" "\<forall>d\<in>set ds. decl_name_ok (fst d)" "distinct (map fst ds)"
  shows "ParseProfileSchema (join_with (CHR '','') (map decl_text ds)) =
    Inr \<lparr>schema_fields = builtinFields @ map decl_field ds\<rparr>"
proof -
  have "\<forall>w\<in>set (map decl_text ds). CHR '','' \<notin> set w"
  proof
    fix w assume "w \<in> set (map decl_text ds)"
    then obtain name ty priv where w: "w = decl_text (name, ty, priv)" and "decl_name_ok name"
      using assms(2) by force
    then have "list_all word_char w" by (simp add: decl_text_words)
    then show "CHR '','' \<notin> set w"
      by (auto simp: list_all_iff word_char_def is_alnum_def is_upper_def is_lower_def is_digit_def)
  qed
  then have "Split (join_with (CHR '','') (map decl_text ds)) (CHR '','') = map decl_text ds"
    using assms(1) by (intro Split_join_with) auto
  moreover have "parse_entries (map decl_text ds) builtinFields = Inr (builtinFields @ map decl_field ds)"
    using assms(2,3) by (intro parse_entries_decls)
      (auto simp: builtinFields_def ProfileKeyUsername_def ProfileKeyRegister_def decl_name_ok_def)
  ultimately show ?thesis by (simp add: ParseProfileSchema_def)
qed

theorem ParseProfileSchema_decls_witness:
  "ParseProfileSchema ''age:number,phone:string:private'' =
    Inr \<lparr>schema_fields = builtinFields @
      [(''age'', \<lparr>valueType = profileTypeNumber, private = False, immutable = False, builtin = False\<rparr>),
       (''phone'', \<lparr>valueType = profileTypeString, private = True, immutable = False, builtin = False\<rparr>)]\<rparr>"
  using ParseProfileSchema_decls [of "[(''age'', profileTypeNumber, False), (''phone'', profileTypeString, True)]"]
  by (simp add: decl_name_ok_def is_alnum_def is_lower_def ProfileKeyUsername_def
      ProfileKeyRegister_def decl_text_def decl_field_def type_name_def)

end
