(* ===== verification/FileSystem.thy ===== *)
theory FileSystem
  imports Json
begin

text \<open>
  The part of package \<^verbatim>\<open>os\<close> the stores use. A path is a list of components below
  the working directory; the tree maps paths to directories and files, and a
  file holds a JSON document or raw bytes. Every call consumes one entry of a
  fault plan: a call may work, fail without effect, or (a write) fail after
  some bytes, since \<^verbatim>\<open>os.WriteFile\<close> truncates and writes in place. The empty plan
  means that nothing fails.
\<close>

section \<open>State\<close>

type_synonym path = "string list"

datatype content = Json json | Bytes string

datatype node = Dir | File content

datatype fault = NoFault | Fault | TornAt nat

datatype oserr = NotExist | IOErr

record fsys =
  tree :: "(path \<times> node) list"
  faults :: "fault list"

definition fs_lookup :: "fsys \<Rightarrow> path \<Rightarrow> node option" where
  "fs_lookup fs p = (if p = [] then Some Dir else map_of (tree fs) p)"

definition next_fault :: "fsys \<Rightarrow> fault \<times> fsys" where
  "next_fault fs =
    (case faults fs of [] \<Rightarrow> (NoFault, fs) | f # rest \<Rightarrow> (f, fs\<lparr>faults := rest\<rparr>))"

definition fs_put :: "path \<Rightarrow> node \<Rightarrow> fsys \<Rightarrow> fsys" where
  "fs_put p n fs = (if p = [] then fs else fs\<lparr>tree := AList.update p n (tree fs)\<rparr>)"

section \<open>Paths\<close>

text \<open>\<^verbatim>\<open>filepath.Join(root, s)\<close> for a cleaned relative root.\<close>

definition clean_step :: "path \<Rightarrow> string \<Rightarrow> path" where
  "clean_step acc c =
    (if c = [] \<or> c = ''.'' then acc
     else if c = ''..'' then
       (if acc = [] \<or> last acc = ''..'' then acc @ [c] else butlast acc)
     else acc @ [c])"

definition path_join :: "path \<Rightarrow> string \<Rightarrow> path" where
  "path_join dir s = foldl clean_step dir (Split s (CHR ''/''))"

text \<open>A name that stays one component below its directory.\<close>

definition plain_name :: "string \<Rightarrow> bool" where
  "plain_name s \<longleftrightarrow> s \<noteq> [] \<and> s \<noteq> ''.'' \<and> s \<noteq> ''..'' \<and> CHR ''/'' \<notin> set s"

section \<open>Calls\<close>

text \<open>The error for a path that is not there: a file on the way to it is not the
  \<^verbatim>\<open>ErrNotExist\<close> the code tests for.\<close>

definition file_above :: "fsys \<Rightarrow> path \<Rightarrow> bool" where
  "file_above fs p \<longleftrightarrow>
    list_ex (\<lambda>q. case fs_lookup fs q of Some (File _) \<Rightarrow> True | _ \<Rightarrow> False) (prefixes p)"

definition missing :: "fsys \<Rightarrow> path \<Rightarrow> oserr" where
  "missing fs p = (if file_above fs p then IOErr else NotExist)"

definition ReadFile :: "path \<Rightarrow> fsys \<Rightarrow> (oserr + content) \<times> fsys" where
  "ReadFile p fs0 =
    (case next_fault fs0 of (f, fs) \<Rightarrow>
     if f \<noteq> NoFault then (Inl IOErr, fs)
     else (case fs_lookup fs p of
         None \<Rightarrow> (Inl (missing fs p), fs)
       | Some Dir \<Rightarrow> (Inl IOErr, fs)
       | Some (File c) \<Rightarrow> (Inr c, fs)))"

definition torn :: "nat \<Rightarrow> content \<Rightarrow> content" where
  "torn n c = (case c of Bytes b \<Rightarrow> Bytes (take n b) | Json _ \<Rightarrow> Bytes [])"

definition WriteFile :: "path \<Rightarrow> content \<Rightarrow> fsys \<Rightarrow> (oserr + unit) \<times> fsys" where
  "WriteFile p c fs0 =
    (case next_fault fs0 of (f, fs) \<Rightarrow>
     if f = Fault then (Inl IOErr, fs)
     else if p = [] \<or> fs_lookup fs p = Some Dir then (Inl IOErr, fs)
     else (case fs_lookup fs (butlast p) of
         None \<Rightarrow> (Inl (missing fs p), fs)
       | Some (File _) \<Rightarrow> (Inl IOErr, fs)
       | Some Dir \<Rightarrow>
           (case f of
              TornAt n \<Rightarrow> (Inl IOErr, fs_put p (File (torn n c)) fs)
            | _ \<Rightarrow> (Inr (), fs_put p (File c) fs))))"

definition MkdirAll :: "path \<Rightarrow> fsys \<Rightarrow> (oserr + unit) \<times> fsys" where
  "MkdirAll p fs0 =
    (case next_fault fs0 of (f, fs) \<Rightarrow>
     if f \<noteq> NoFault then (Inl IOErr, fs)
     else if file_above fs p then (Inl IOErr, fs)
     else (Inr (), fold (\<lambda>q. fs_put q Dir) (prefixes p) fs))"

text \<open>\<^verbatim>\<open>os.ReadDir\<close>: the entries sorted by name, each with whether it is a directory.\<close>

definition dir_names :: "fsys \<Rightarrow> path \<Rightarrow> string list" where
  "dir_names fs p =
    sort (remdups (map last (filter (\<lambda>q. q \<noteq> [] \<and> butlast q = p) (map fst (tree fs)))))"

definition ReadDir :: "path \<Rightarrow> fsys \<Rightarrow> (oserr + (string \<times> bool) list) \<times> fsys" where
  "ReadDir p fs0 =
    (case next_fault fs0 of (f, fs) \<Rightarrow>
     if f \<noteq> NoFault then (Inl IOErr, fs)
     else (case fs_lookup fs p of
         None \<Rightarrow> (Inl (missing fs p), fs)
       | Some (File _) \<Rightarrow> (Inl IOErr, fs)
       | Some Dir \<Rightarrow>
           (Inr (map (\<lambda>n. (n, fs_lookup fs (p @ [n]) = Some Dir)) (dir_names fs p)), fs)))"

definition Stat :: "path \<Rightarrow> fsys \<Rightarrow> (oserr + unit) \<times> fsys" where
  "Stat p fs0 =
    (case next_fault fs0 of (f, fs) \<Rightarrow>
     if f \<noteq> NoFault then (Inl IOErr, fs)
     else (case fs_lookup fs p of None \<Rightarrow> (Inl (missing fs p), fs) | Some _ \<Rightarrow> (Inr (), fs)))"

definition fs_delete :: "(path \<Rightarrow> bool) \<Rightarrow> fsys \<Rightarrow> fsys" where
  "fs_delete P fs = fs\<lparr>tree := filter (\<lambda>e. \<not> P (fst e)) (tree fs)\<rparr>"

definition has_children :: "fsys \<Rightarrow> path \<Rightarrow> bool" where
  "has_children fs p \<longleftrightarrow> list_ex (\<lambda>e. strict_prefix p (fst e)) (tree fs)"

definition Remove_file :: "path \<Rightarrow> fsys \<Rightarrow> (oserr + unit) \<times> fsys" where
  "Remove_file p fs0 =
    (case next_fault fs0 of (f, fs) \<Rightarrow>
     if f \<noteq> NoFault then (Inl IOErr, fs)
     else (case fs_lookup fs p of
         None \<Rightarrow> (Inl (missing fs p), fs)
       | Some _ \<Rightarrow>
           if has_children fs p then (Inl IOErr, fs)
           else (Inr (), fs_delete (\<lambda>q. q = p) fs)))"

definition RemoveAll :: "path \<Rightarrow> fsys \<Rightarrow> (oserr + unit) \<times> fsys" where
  "RemoveAll p fs0 =
    (case next_fault fs0 of (f, fs) \<Rightarrow>
     if f \<noteq> NoFault then (Inl IOErr, fs)
     else (Inr (), fs_delete (prefix p) fs))"

text \<open>\<^verbatim>\<open>os.Rename\<close> of a directory or file, with the conditions of \<^verbatim>\<open>rename(2)\<close>.\<close>

definition fs_move :: "path \<Rightarrow> path \<Rightarrow> fsys \<Rightarrow> fsys" where
  "fs_move p q fs =
    fs\<lparr>tree := map (\<lambda>(r, n). (if prefix p r then q @ drop (length p) r else r, n))
                  (filter (\<lambda>e. fst e \<noteq> q) (tree fs))\<rparr>"

definition Rename :: "path \<Rightarrow> path \<Rightarrow> fsys \<Rightarrow> (oserr + unit) \<times> fsys" where
  "Rename p q fs0 =
    (case next_fault fs0 of (f, fs) \<Rightarrow>
     if f \<noteq> NoFault then (Inl IOErr, fs)
     else (case fs_lookup fs p of
         None \<Rightarrow> (Inl (missing fs p), fs)
       | Some n \<Rightarrow>
           if p = q then (Inr (), fs)
           else if prefix p q \<or> q = [] \<or> p = [] then (Inl IOErr, fs)
           else if fs_lookup fs (butlast q) \<noteq> Some Dir then (Inl (missing fs q), fs)
           else if has_children fs q then (Inl IOErr, fs)
           else if fs_lookup fs q \<noteq> None \<and> (n = Dir) \<noteq> (fs_lookup fs q = Some Dir) then (Inl IOErr, fs)
           else (Inr (), fs_move p q fs)))"

section \<open>Laws of the tree\<close>

lemma fs_lookup_Nil [simp]: "fs_lookup fs [] = Some Dir"
  by (simp add: fs_lookup_def)

lemma fs_lookup_put [simp]:
  "fs_lookup (fs_put p n fs) q = (if q = p \<and> p \<noteq> [] then Some n else fs_lookup fs q)"
  by (auto simp: fs_lookup_def fs_put_def update_conv)

lemma fs_lookup_faults [simp]: "fs_lookup (fs\<lparr>faults := x\<rparr>) p = fs_lookup fs p"
  by (simp add: fs_lookup_def)

lemma map_of_filter_key: "map_of (filter (\<lambda>e. Q (fst e)) xs) k = (if Q k then map_of xs k else None)"
  by (induction xs) auto

lemma fs_lookup_delete [simp]:
  "fs_lookup (fs_delete P fs) q = (if q \<noteq> [] \<and> P q then None else fs_lookup fs q)"
  using map_of_filter_key [of "\<lambda>p. \<not> P p" "tree fs" q] by (auto simp: fs_lookup_def fs_delete_def)

lemma fs_lookup_mkdirs:
  "fs_lookup (fold (\<lambda>q. fs_put q Dir) qs fs) p = (if p \<in> set qs then Some Dir else fs_lookup fs p)"
  by (induction qs arbitrary: fs) auto

lemma faults_put [simp]: "faults (fs_put p n fs) = faults fs"
  by (simp add: fs_put_def)

lemma faults_delete [simp]: "faults (fs_delete P fs) = faults fs"
  by (simp add: fs_delete_def)

lemma faults_mkdirs [simp]: "faults (fold (\<lambda>q. fs_put q Dir) qs fs) = faults fs"
  by (induction qs arbitrary: fs) auto

lemma faults_move [simp]: "faults (fs_move p q fs) = faults fs"
  by (simp add: fs_move_def)

lemma next_fault_lookup: "next_fault fs = (f, fs') \<Longrightarrow> fs_lookup fs' p = fs_lookup fs p"
  by (auto simp: next_fault_def split: list.splits)

lemma no_file_above: "\<not> file_above fs p \<longleftrightarrow> (\<forall>q c. prefix q p \<longrightarrow> fs_lookup fs q \<noteq> Some (File c))"
  by (auto simp: file_above_def list_ex_iff split: option.splits node.splits)

lemma next_fault_above: "next_fault fs = (f, fs') \<Longrightarrow> file_above fs' p = file_above fs p"
  by (simp add: file_above_def next_fault_lookup)

lemma next_fault_none [simp]: "faults fs = [] \<Longrightarrow> next_fault fs = (NoFault, fs)"
  by (simp add: next_fault_def)

lemma set_dir_names: "n \<in> set (dir_names fs p) \<longleftrightarrow> fs_lookup fs (p @ [n]) \<noteq> None"
proof -
  have "n \<in> set (dir_names fs p) \<longleftrightarrow> p @ [n] \<in> fst ` set (tree fs)"
    by (force simp: dir_names_def image_iff)
  then show ?thesis by (simp add: fs_lookup_def map_of_eq_None_iff)
qed

lemma distinct_dir_names [simp]: "distinct (dir_names fs p)"
  by (simp add: dir_names_def)

lemma sorted_dir_names [simp]: "sorted (dir_names fs p)"
  by (simp add: dir_names_def)

lemma plain_name_join: "plain_name s \<Longrightarrow> path_join dir s = dir @ [s]"
proof -
  have split1: "c \<notin> set t \<Longrightarrow> Split t c = [t]" for t and c
    by (induction t) auto
  assume "plain_name s"
  then show ?thesis by (simp add: path_join_def plain_name_def split1 clean_step_def)
qed

section \<open>Laws of the calls\<close>

text \<open>Which calls change what, for every fault plan.\<close>

lemma ReadFile_lookup [fs_simps]: "fs_lookup (snd (ReadFile p fs)) q = fs_lookup fs q"
  by (auto simp: ReadFile_def next_fault_lookup split: prod.splits option.splits node.splits)

lemma ReadDir_lookup [fs_simps]: "fs_lookup (snd (ReadDir p fs)) q = fs_lookup fs q"
  by (auto simp: ReadDir_def next_fault_lookup split: prod.splits option.splits node.splits)

lemma Stat_lookup [fs_simps]: "fs_lookup (snd (Stat p fs)) q = fs_lookup fs q"
  by (auto simp: Stat_def next_fault_lookup split: prod.splits option.splits node.splits)

lemma ReadFile_Inr: "ReadFile p fs = (Inr c, fs') \<Longrightarrow> fs_lookup fs p = Some (File c)"
  by (auto simp: ReadFile_def next_fault_lookup split: prod.splits option.splits node.splits if_splits)

lemma ReadFile_NotExist: "ReadFile p fs = (Inl NotExist, fs') \<Longrightarrow> fs_lookup fs p = None"
  by (auto simp: ReadFile_def next_fault_lookup split: prod.splits option.splits node.splits if_splits)

lemma WriteFile_frame [fs_simps]: "q \<noteq> p \<Longrightarrow> fs_lookup (snd (WriteFile p c fs)) q = fs_lookup fs q"
  by (auto simp: WriteFile_def next_fault_lookup split: prod.splits option.splits node.splits fault.splits)

lemma WriteFile_Inr: "WriteFile p c fs = (Inr u, fs') \<Longrightarrow> fs_lookup fs' p = Some (File c) \<and> p \<noteq> []"
  by (auto simp: WriteFile_def next_fault_lookup
      split: prod.splits option.splits node.splits fault.splits if_splits)

text \<open>A failed write leaves the file as it was or torn.\<close>

lemma WriteFile_Inl:
  "WriteFile p c fs = (Inl e, fs') \<Longrightarrow>
   fs_lookup fs' p = fs_lookup fs p \<or> (\<exists>n. fs_lookup fs' p = Some (File (torn n c)))"
  by (auto simp: WriteFile_def next_fault_lookup
      split: prod.splits option.splits node.splits fault.splits if_splits)

lemma MkdirAll_Inr:
  "MkdirAll p fs = (Inr u, fs') \<Longrightarrow>
   fs_lookup fs' q = (if prefix q p then Some Dir else fs_lookup fs q)"
  by (auto simp: MkdirAll_def fs_lookup_mkdirs next_fault_lookup split: prod.splits if_splits)

lemma MkdirAll_Inl: "MkdirAll p fs = (Inl e, fs') \<Longrightarrow> fs_lookup fs' q = fs_lookup fs q"
  by (auto simp: MkdirAll_def next_fault_lookup split: prod.splits if_splits)

lemma MkdirAll_files:
  assumes "MkdirAll p fs = (r, fs')"
  shows "fs_lookup fs' q = Some (File c) \<longleftrightarrow> fs_lookup fs q = Some (File c)"
proof (cases r)
  case (Inl e)
  with assms show ?thesis by (simp add: MkdirAll_Inl)
next
  case (Inr u)
  have "\<not> file_above fs p"
    using assms unfolding Inr
    by (auto simp: MkdirAll_def next_fault_above split: prod.splits if_splits)
  then have "prefix q p \<Longrightarrow> fs_lookup fs q \<noteq> Some (File c)"
    by (auto simp: no_file_above)
  with assms show ?thesis unfolding Inr by (auto simp: MkdirAll_Inr)
qed

lemma RemoveAll_Inr:
  "RemoveAll p fs = (Inr u, fs') \<Longrightarrow>
   fs_lookup fs' q = (if q \<noteq> [] \<and> prefix p q then None else fs_lookup fs q)"
  by (auto simp: RemoveAll_def next_fault_lookup split: prod.splits if_splits)

lemma RemoveAll_Inl: "RemoveAll p fs = (Inl e, fs') \<Longrightarrow> fs_lookup fs' q = fs_lookup fs q"
  by (auto simp: RemoveAll_def next_fault_lookup split: prod.splits if_splits)

lemma Remove_file_frame [fs_simps]: "q \<noteq> p \<Longrightarrow> fs_lookup (snd (Remove_file p fs)) q = fs_lookup fs q"
  by (auto simp: Remove_file_def next_fault_lookup split: prod.splits option.splits)

text \<open>Without faults.\<close>

lemma ReadFile_ok [fs_simps]:
  "faults fs = [] \<Longrightarrow> ReadFile p fs =
     (case fs_lookup fs p of None \<Rightarrow> Inl (missing fs p) | Some Dir \<Rightarrow> Inl IOErr | Some (File c) \<Rightarrow> Inr c, fs)"
  by (auto simp: ReadFile_def split: option.splits node.splits)

lemma Stat_ok [fs_simps]:
  "faults fs = [] \<Longrightarrow> Stat p fs = (if fs_lookup fs p = None then Inl (missing fs p) else Inr (), fs)"
  by (auto simp: Stat_def split: option.splits)

lemma ReadDir_ok:
  "faults fs = [] \<Longrightarrow> fs_lookup fs p = Some Dir \<Longrightarrow> ReadDir p fs =
     (Inr (map (\<lambda>n. (n, fs_lookup fs (p @ [n]) = Some Dir)) (dir_names fs p)), fs)"
  by (simp add: ReadDir_def)

lemma WriteFile_ok [fs_simps]:
  "faults fs = [] \<Longrightarrow> p \<noteq> [] \<Longrightarrow> fs_lookup fs p \<noteq> Some Dir \<Longrightarrow> fs_lookup fs (butlast p) = Some Dir \<Longrightarrow>
   WriteFile p c fs = (Inr (), fs_put p (File c) fs)"
  by (simp add: WriteFile_def)

definition mkdirs :: "path \<Rightarrow> fsys \<Rightarrow> fsys" where
  "mkdirs p fs = fold (\<lambda>q. fs_put q Dir) (prefixes p) fs"

lemma MkdirAll_ok [fs_simps]:
  "faults fs = [] \<Longrightarrow> \<not> file_above fs p \<Longrightarrow> MkdirAll p fs = (Inr (), mkdirs p fs)"
  by (simp add: MkdirAll_def mkdirs_def)

lemma fs_lookup_mkdirs_path [simp]:
  "fs_lookup (mkdirs p fs) q = (if prefix q p then Some Dir else fs_lookup fs q)"
  by (simp add: mkdirs_def fs_lookup_mkdirs)

lemma faults_mkdirs_path [simp]: "faults (mkdirs p fs) = faults fs"
  by (simp add: mkdirs_def)

text \<open>What holds of the state after every call holds after a call and its continuation.\<close>

lemma call_cases:
  assumes "P (snd x)" "\<And>e fs. x = (Inl e, fs) \<Longrightarrow> P fs \<Longrightarrow> P (snd (f e fs))" "\<And>a fs. x = (Inr a, fs) \<Longrightarrow> P fs \<Longrightarrow> P (snd (g a fs))"
  shows "P (snd (case x of (Inl e, fs) \<Rightarrow> f e fs | (Inr a, fs) \<Rightarrow> g a fs))"
  using assms by (cases x; cases "fst x") auto

section \<open>Well-formed trees\<close>

text \<open>Every node sits in a directory and every component is a plain name; each call that
  changes the tree keeps this, for every fault plan.\<close>

definition clean_path :: "path \<Rightarrow> bool" where
  "clean_path p \<longleftrightarrow> list_all plain_name p"

definition wf_fs :: "fsys \<Rightarrow> bool" where
  "wf_fs fs \<longleftrightarrow> (\<forall>p. p \<noteq> [] \<and> fs_lookup fs p \<noteq> None \<longrightarrow> clean_path p \<and> fs_lookup fs (butlast p) = Some Dir)"

lemma clean_path_append [simp]: "clean_path (p @ q) \<longleftrightarrow> clean_path p \<and> clean_path q"
  by (simp add: clean_path_def)

lemma clean_path_simps [simp]: "clean_path []" "clean_path (c # p) \<longleftrightarrow> plain_name c \<and> clean_path p"
  by (simp_all add: clean_path_def)

lemma clean_path_prefix: "clean_path p \<Longrightarrow> prefix q p \<Longrightarrow> clean_path q"
  by (auto simp: prefix_def)

lemma wf_fsI:
  assumes "\<And>p. p \<noteq> [] \<Longrightarrow> fs_lookup fs p \<noteq> None \<Longrightarrow> clean_path p \<and> fs_lookup fs (butlast p) = Some Dir"
  shows "wf_fs fs"
  using assms by (simp add: wf_fs_def)

lemma wf_fs_parent: "wf_fs fs \<Longrightarrow> fs_lookup fs (p @ [n]) \<noteq> None \<Longrightarrow> fs_lookup fs p = Some Dir"
  unfolding wf_fs_def by (metis butlast_snoc snoc_eq_iff_butlast)

lemma wf_fs_plain: "wf_fs fs \<Longrightarrow> fs_lookup fs (p @ [n]) \<noteq> None \<Longrightarrow> plain_name n"
  unfolding wf_fs_def by (metis clean_path_append clean_path_simps(2) snoc_eq_iff_butlast)

lemma wf_fs_cong: "(\<And>p. fs_lookup fs' p = fs_lookup fs p) \<Longrightarrow> wf_fs fs' \<longleftrightarrow> wf_fs fs"
  by (simp add: wf_fs_def)

lemma wf_fs_no_children: "wf_fs fs \<Longrightarrow> fs_lookup fs p \<noteq> Some Dir \<Longrightarrow> fs_lookup fs (p @ q) \<noteq> None \<Longrightarrow> q = []"
proof (induction q rule: rev_induct)
  case (snoc x q)
  from wf_fs_parent [OF snoc.prems(1), of "p @ q" x] snoc.prems(3)
  have dir: "fs_lookup fs (p @ q) = Some Dir" by simp
  with snoc.IH snoc.prems(1,2) have "q = []" by simp
  with dir snoc.prems(2) show ?case by simp
qed simp

lemma wf_fs_put_file:
  assumes "wf_fs fs" "fs_lookup fs (butlast p) = Some Dir" "fs_lookup fs p \<noteq> Some Dir" "clean_path p"
  shows "wf_fs (fs_put p (File c) fs)"
proof (rule wf_fsI)
  fix q assume q: "q \<noteq> []" "fs_lookup (fs_put p (File c) fs) q \<noteq> None"
  show "clean_path q \<and> fs_lookup (fs_put p (File c) fs) (butlast q) = Some Dir"
  proof (cases "q = p")
    case True
    moreover from q True have "butlast p \<noteq> p" by (metis append_butlast_last_id append_self_conv list.distinct(1))
    ultimately show ?thesis using assms by simp
  next
    case False
    with q assms(1) have "clean_path q" "fs_lookup fs (butlast q) = Some Dir"
      by (auto simp: wf_fs_def split: if_splits)
    with assms(3) show ?thesis by auto
  qed
qed

lemma wf_fs_WriteFile: "wf_fs fs \<Longrightarrow> clean_path p \<Longrightarrow> wf_fs (snd (WriteFile p c fs))"
proof (cases "next_fault fs")
  case (Pair f fs1)
  assume "wf_fs fs" "clean_path p"
  then have "wf_fs fs1" "clean_path p" using wf_fs_cong next_fault_lookup Pair by blast+
  then show ?thesis
    by (auto simp: WriteFile_def Pair wf_fs_put_file split: option.splits node.splits fault.splits)
qed

lemma wf_fs_reads:
  "wf_fs (snd (ReadFile p fs)) = wf_fs fs" "wf_fs (snd (ReadDir p fs)) = wf_fs fs"
  "wf_fs (snd (Stat p fs)) = wf_fs fs"
  by (intro wf_fs_cong ReadFile_lookup ReadDir_lookup Stat_lookup)+

lemma prefix_butlast_trans: "prefix q p \<Longrightarrow> prefix (butlast q) p"
  by (meson prefix_order.trans prefixeq_butlast)

lemma wf_fs_MkdirAll:
  assumes "wf_fs fs" "clean_path p"
  shows "wf_fs (snd (MkdirAll p fs))"
proof (cases "MkdirAll p fs")
  case (Pair r fs')
  show ?thesis
  proof (cases r)
    case (Inl e)
    with Pair MkdirAll_Inl wf_fs_cong [of fs' fs] assms(1) show ?thesis by simp
  next
    case (Inr u)
    have look: "fs_lookup fs' q = (if prefix q p then Some Dir else fs_lookup fs q)" for q
      using MkdirAll_Inr Pair Inr by blast
    have "wf_fs fs'"
      using assms
      by (intro wf_fsI)
        (auto simp: look wf_fs_def dest: clean_path_prefix prefix_butlast_trans split: if_splits)
    with Pair show ?thesis by simp
  qed
qed

lemma wf_fs_RemoveAll: "wf_fs fs \<Longrightarrow> wf_fs (snd (RemoveAll p fs))"
proof (cases "RemoveAll p fs")
  case (Pair r fs')
  assume wf: "wf_fs fs"
  show ?thesis
  proof (cases r)
    case (Inl e)
    with Pair RemoveAll_Inl wf_fs_cong [of fs' fs] wf show ?thesis by simp
  next
    case (Inr u)
    have look: "fs_lookup fs' q = (if q \<noteq> [] \<and> prefix p q then None else fs_lookup fs q)" for q
      using RemoveAll_Inr Pair Inr by blast
    have "wf_fs fs'"
      using wf prefix_butlast_trans prefix_order.trans [OF _ prefixeq_butlast, of p]
      by (intro wf_fsI) (auto simp: look wf_fs_def split: if_splits)
    with Pair show ?thesis by simp
  qed
qed

lemma wf_fs_delete_file:
  assumes "wf_fs fs" "fs_lookup fs p \<noteq> Some Dir"
  shows "wf_fs (fs_delete (\<lambda>q. q = p) fs)"
  using assms by (intro wf_fsI) (auto simp: wf_fs_def split: if_splits)

lemma has_children_lookup: "has_children fs p \<longleftrightarrow> (\<exists>q. strict_prefix p q \<and> fs_lookup fs q \<noteq> None)"
proof -
  have "fs_lookup fs q \<noteq> None \<longleftrightarrow> q \<in> fst ` set (tree fs)" if "strict_prefix p q" for q
    using that map_of_eq_None_iff [of "tree fs" q] by (auto simp: fs_lookup_def)
  then show ?thesis by (force simp: has_children_def list_ex_iff)
qed

lemma wf_fs_delete_leaf:
  assumes "wf_fs fs" "\<not> has_children fs p"
  shows "wf_fs (fs_delete (\<lambda>q. q = p) fs)"
proof (rule wf_fsI)
  fix q assume q: "q \<noteq> []" "fs_lookup (fs_delete (\<lambda>q. q = p) fs) q \<noteq> None"
  then have l: "q \<noteq> p" "fs_lookup fs q \<noteq> None" by (auto split: if_splits)
  have "butlast q \<noteq> p"
    using assms(2) l(2) q(1) unfolding has_children_lookup
    by (metis append_butlast_last_id prefixI strict_prefix_def not_Cons_self2 self_append_conv)
  then show "clean_path q \<and> fs_lookup (fs_delete (\<lambda>q. q = p) fs) (butlast q) = Some Dir"
    using assms(1) q(1) l(2) by (simp add: wf_fs_def)
qed

lemma wf_fs_Remove_file: "wf_fs fs \<Longrightarrow> wf_fs (snd (Remove_file p fs))"
proof (cases "next_fault fs")
  case (Pair f fs1)
  assume "wf_fs fs"
  then have "wf_fs fs1" using wf_fs_cong next_fault_lookup Pair by blast
  then show ?thesis by (auto simp: Remove_file_def Pair wf_fs_delete_leaf split: option.splits)
qed

lemma ReadDir_Inr:
  "ReadDir p fs = (Inr es, fs') \<Longrightarrow>
   fs_lookup fs p = Some Dir \<and> es = map (\<lambda>n. (n, fs_lookup fs (p @ [n]) = Some Dir)) (dir_names fs p)"
  by (auto simp: ReadDir_def next_fault_def split: prod.splits option.splits node.splits if_splits list.splits)
     (simp_all add: dir_names_def)

lemma ReadDir_NotExist: "ReadDir p fs = (Inl NotExist, fs') \<Longrightarrow> fs_lookup fs p = None"
  by (auto simp: ReadDir_def next_fault_lookup split: prod.splits option.splits node.splits if_splits)

lemma not_prefix_butlast: "p \<noteq> [] \<Longrightarrow> \<not> prefix p (butlast p)"
  by (metis append_butlast_last_id not_Cons_self2 prefix_order.antisym prefixeq_butlast same_append_eq append_self_conv)

text \<open>Moving a directory or file to a place with nothing below it.\<close>

lemma map_of_move:
  assumes "\<forall>e\<in>set xs. \<not> prefix q (fst e)"
  shows "map_of (map (\<lambda>(r, n). (if prefix p r then q @ drop (length p) r else r, n)) xs) k =
    (if prefix q k then map_of xs (p @ drop (length q) k) else if prefix p k then None else map_of xs k)"
  using assms
proof (induction xs)
  case (Cons e xs)
  obtain r n where e: "e = (r, n)" by fastforce
  have "\<not> prefix q r" using Cons.prems e by simp
  moreover have "q @ drop (length p) r = k \<longleftrightarrow> prefix q k \<and> r = p @ drop (length q) k" if "prefix p r"
    using that by (auto simp: prefix_def)
  ultimately show ?case using Cons by (auto simp: e)
qed simp

lemma Rename_Inr:
  assumes "Rename p q fs = (Inr u, fs')" "p \<noteq> q"
  shows "p \<noteq> []" "q \<noteq> []" "\<not> prefix p q" "\<not> prefix q p" "fs_lookup fs (butlast q) = Some Dir" "\<not> has_children fs q" "fs_lookup fs p \<noteq> None"
    "fs_lookup fs' r = (if prefix q r then fs_lookup fs (p @ drop (length q) r) else if prefix p r then None else fs_lookup fs r)"
proof -
  obtain f fs1 where nf: "next_fault fs = (f, fs1)" by fastforce
  have look: "fs_lookup fs1 r = fs_lookup fs r" for r using next_fault_lookup [OF nf] .
  have hc: "has_children fs1 r = has_children fs r" for r by (simp add: has_children_lookup look)
  from assms nf have pq: "p \<noteq> []" "q \<noteq> []" "\<not> prefix p q" "fs_lookup fs (butlast q) = Some Dir" "\<not> has_children fs q"
    "fs_lookup fs p \<noteq> None" and fs': "fs' = fs_move p q fs1"
    by (auto simp: Rename_def look hc split: option.splits if_splits)
  then show "p \<noteq> []" "q \<noteq> []" "\<not> prefix p q" "fs_lookup fs (butlast q) = Some Dir" "\<not> has_children fs q" "fs_lookup fs p \<noteq> None"
    by blast+
  show np: "\<not> prefix q p" using pq(5,6) assms(2) unfolding has_children_lookup strict_prefix_def by blast
  let ?xs = "filter (\<lambda>e. fst e \<noteq> q) (tree fs1)"
  have "\<forall>e\<in>set ?xs. \<not> prefix q (fst e)"
    using pq(5) hc [of q] by (force simp: has_children_def list_ex_iff strict_prefix_def)
  note mv = map_of_move [OF this, of p]
  have flt: "map_of ?xs k = (if k \<noteq> q then map_of (tree fs1) k else None)" for k by (rule map_of_filter_key)
  have "q \<noteq> p @ drop (length q) r" if "prefix q r" using pq(3) by (auto simp: prefix_def)
  then show "fs_lookup fs' r = (if prefix q r then fs_lookup fs (p @ drop (length q) r) else if prefix p r then None else fs_lookup fs r)"
    using pq(1,2) look [of r] look [of "p @ drop (length q) r"] unfolding fs'
    by (cases "r = []") (auto simp: fs_lookup_def fs_move_def mv flt)
qed

lemma Rename_Inl: "Rename p q fs = (Inl e, fs') \<Longrightarrow> fs_lookup fs' r = fs_lookup fs r"
  by (auto simp: Rename_def next_fault_lookup split: prod.splits option.splits if_splits)

lemma Rename_same: "Rename p p fs = (x, fs') \<Longrightarrow> fs_lookup fs' r = fs_lookup fs r"
  by (auto simp: Rename_def next_fault_lookup split: prod.splits option.splits if_splits)

lemma wf_fs_Rename:
  assumes "wf_fs fs" "clean_path q"
  shows "wf_fs (snd (Rename p q fs))"
proof (cases "Rename p q fs")
  case (Pair x fs')
  show ?thesis
  proof (cases "p = q \<or> isl x")
    case True
    then have "fs_lookup fs' r = fs_lookup fs r" for r
      using Pair Rename_same [of p fs x fs' r] Rename_Inl [of p q fs _ fs' r] by (cases x) auto
    then show ?thesis using wf_fs_cong [of fs' fs] assms(1) Pair by simp
  next
    case False
    then obtain u where x: "x = Inr u" by (cases x) auto
    note ren = Rename_Inr [OF Pair [unfolded x]]
    have "wf_fs fs'"
    proof (rule wf_fsI)
      fix r assume r: "r \<noteq> []" "fs_lookup fs' r \<noteq> None"
      show "clean_path r \<and> fs_lookup fs' (butlast r) = Some Dir"
      proof (cases "prefix q r")
        case True
        then obtain s where s: "r = q @ s" by (auto simp: prefix_def)
        have l: "fs_lookup fs (p @ s) \<noteq> None" using r(2) ren(8) [of r] False s by simp
        show ?thesis
        proof (cases s rule: rev_cases)
          case Nil
          then show ?thesis
            using ren False assms(2) s not_prefix_butlast [of q] prefix_butlast_trans [of q q] by (auto dest: prefix_order.trans)
        next
          case (snoc t n)
          have "clean_path (p @ s)" using l assms(1) snoc unfolding wf_fs_def by blast
          moreover have "fs_lookup fs (p @ t) = Some Dir" using l assms(1) wf_fs_parent [of fs "p @ t" n] snoc by simp
          ultimately show ?thesis using snoc s assms(2) ren(8) [of "q @ t"] False by (simp add: butlast_append)
        qed
      next
        case nq: False
        then have l: "\<not> prefix p r" "fs_lookup fs r \<noteq> None" using r ren(8) [of r] False by (auto split: if_splits)
        then have "clean_path r" "fs_lookup fs (butlast r) = Some Dir" using assms(1) r(1) by (auto simp: wf_fs_def)
        moreover have "\<not> prefix q (butlast r)" "\<not> prefix p (butlast r)"
          using nq l(1) prefix_order.trans [OF _ prefixeq_butlast] by blast+
        ultimately show ?thesis using ren(8) [of "butlast r"] False by simp
      qed
    qed
    then show ?thesis using Pair by simp
  qed
qed

section \<open>The contents of files\<close>

definition file_at :: "fsys \<Rightarrow> path \<Rightarrow> content option" where
  "file_at fs p = (case fs_lookup fs p of Some (File c) \<Rightarrow> Some c | _ \<Rightarrow> None)"

lemma file_at_Some: "file_at fs p = Some c \<longleftrightarrow> fs_lookup fs p = Some (File c)"
  by (auto simp: file_at_def split: option.splits node.splits)

lemma file_at_eqI: "(\<And>c. fs_lookup fs' p = Some (File c) \<longleftrightarrow> fs_lookup fs p = Some (File c)) \<Longrightarrow> file_at fs' p = file_at fs p"
  by (metis file_at_Some not_None_eq)

lemma file_at_cong: "(\<And>p. fs_lookup fs' p = fs_lookup fs p) \<Longrightarrow> file_at fs' = file_at fs"
  by (rule ext) (simp add: file_at_def)

lemma file_at_reads:
  "file_at (snd (ReadFile p fs)) = file_at fs" "file_at (snd (ReadDir p fs)) = file_at fs" "file_at (snd (Stat p fs)) = file_at fs"
  by (rule file_at_cong; rule ReadFile_lookup ReadDir_lookup Stat_lookup)+

lemma file_at_MkdirAll: "MkdirAll p fs = (r, fs') \<Longrightarrow> file_at fs' = file_at fs"
  by (intro ext file_at_eqI) (rule MkdirAll_files)

lemma file_at_WriteFile_Inr: "WriteFile p c fs = (Inr u, fs') \<Longrightarrow> file_at fs' = (file_at fs)(p \<mapsto> c)"
  using WriteFile_Inr [of p c fs u fs'] WriteFile_frame [of _ p c fs] by (intro ext) (auto simp: file_at_def)

lemma file_at_WriteFile_Inl:
  assumes "WriteFile p c fs = (Inl e, fs')"
  shows "file_at fs' = file_at fs \<or> (\<exists>n. file_at fs' = (file_at fs)(p \<mapsto> torn n c))"
proof -
  have other: "q \<noteq> p \<Longrightarrow> file_at fs' q = file_at fs q" for q
    using WriteFile_frame [of q p c fs] assms by (simp add: file_at_def)
  from WriteFile_Inl [OF assms] show ?thesis
  proof
    assume "fs_lookup fs' p = fs_lookup fs p"
    then have "file_at fs' q = file_at fs q" for q using other by (cases "q = p") (simp_all add: file_at_def)
    then show ?thesis by auto
  next
    assume "\<exists>n. fs_lookup fs' p = Some (File (torn n c))"
    then obtain n where "file_at fs' p = Some (torn n c)" by (auto simp: file_at_Some)
    then have "file_at fs' = (file_at fs)(p \<mapsto> torn n c)" using other by auto
    then show ?thesis by blast
  qed
qed

text \<open>Creating the directory of a file and writing the file, as both stores do.\<close>

definition put_file :: "path \<Rightarrow> content \<Rightarrow> fsys \<Rightarrow> (oserr + unit) \<times> fsys" where
  "put_file p c fs =
    (case MkdirAll (butlast p) fs of (Inl e, fs') \<Rightarrow> (Inl e, fs') | (Inr _, fs') \<Rightarrow> WriteFile p c fs')"

lemma put_file_Inr: "put_file p c fs = (Inr u, fs') \<Longrightarrow> file_at fs' = (file_at fs)(p \<mapsto> c)"
  by (auto simp: put_file_def dest!: file_at_WriteFile_Inr file_at_MkdirAll split: prod.splits sum.splits)

lemma put_file_Inl:
  "put_file p c fs = (Inl e, fs') \<Longrightarrow> file_at fs' = file_at fs \<or> (\<exists>n. file_at fs' = (file_at fs)(p \<mapsto> torn n c))"
  by (auto simp: put_file_def dest!: file_at_WriteFile_Inl file_at_MkdirAll split: prod.splits sum.splits)

lemma wf_fs_put_file_call:
  assumes "wf_fs fs" "clean_path p"
  shows "wf_fs (snd (put_file p c fs))"
proof -
  have "clean_path (butlast p)" using assms(2) prefixeq_butlast clean_path_prefix by blast
  with wf_fs_MkdirAll [OF assms(1)] have "wf_fs (snd (MkdirAll (butlast p) fs))" by blast
  then show ?thesis using wf_fs_WriteFile [OF _ assms(2)]
    by (auto simp: put_file_def split: prod.splits sum.splits)
qed

text \<open>A place where a file can be written when no call fails.\<close>

definition writable :: "path \<Rightarrow> fsys \<Rightarrow> bool" where
  "writable p fs \<longleftrightarrow> p \<noteq> [] \<and> faults fs = [] \<and> \<not> file_above fs (butlast p) \<and> fs_lookup fs p \<noteq> Some Dir"

lemma put_file_total:
  assumes "writable p fs"
  shows "put_file p c fs = (Inr (), fs_put p (File c) (mkdirs (butlast p) fs))"
  using assms not_prefix_butlast [of p]
  by (simp add: writable_def put_file_def MkdirAll_ok WriteFile_ok)

lemma writable_after:
  assumes "writable p fs" "writable q fs" "p \<noteq> q" "\<not> prefix p (butlast q)" "\<not> prefix q (butlast p)"
  shows "writable q (fs_put p (File c) (mkdirs (butlast p) fs))"
  using assms unfolding writable_def no_file_above by auto

end
