(* ===== verification/UserStore.thy ===== *)
theory UserStore
  imports Token Profile FileSystem
begin

text \<open>
  The user store of \<^verbatim>\<open>auth/auth.go\<close> and the account view of \<^verbatim>\<open>auth/account.go\<close>:
  one JSON document per user under \<^verbatim>\<open>rootDir/UID/user.json\<close>, and the operations on
  it. Every operation holds the store's mutex for its whole duration, so it is
  one state transition on the file system. Bcrypt is a parameter: the outcome of
  hashing a password, and the comparison of a hash with a password.
\<close>

section \<open>Data\<close>

record user =
  ID :: string
  Email :: string
  Password :: string
  UID :: int
  Profile :: "(string \<times> goval) list option"
  TOTPSecret :: string
  TOTPVerified :: bool
  RecoveryCodes :: "string list"

definition zero_user :: user where
  "zero_user = \<lparr>ID = [], Email = [], Password = [], UID = 0, Profile = None,
    TOTPSecret = [], TOTPVerified = False, RecoveryCodes = []\<rparr>"

record registerRequest =
  reqUsername :: string
  reqID :: string
  reqEmail :: string
  reqPassword :: string

datatype autherr = AuthOS oserr | AuthJSON | AuthBcrypt | errProfileDenied

section \<open>The document of a user\<close>

definition marshal_map :: "(string \<times> goval) list \<Rightarrow> json" where
  "marshal_map kvs = JObj (map (\<lambda>(k, v). (json_str k, marshal_val v)) kvs)"

definition marshal_user :: "user \<Rightarrow> json" where
  "marshal_user u =
    JObj ([(''id'', JStr (json_str (ID u))),
           (''email'', JStr (json_str (Email u))),
           (''password'', JStr (json_str (Password u))),
           (''UID'', JInt (UID u)),
           (''profile'', case Profile u of None \<Rightarrow> JNull | Some kvs \<Rightarrow> marshal_map kvs)]
          @ (if TOTPSecret u = [] then [] else [(''totp_secret'', JStr (json_str (TOTPSecret u)))])
          @ (if TOTPVerified u then [(''totp_verified'', JBool True)] else [])
          @ (if RecoveryCodes u = [] then []
             else [(''recovery_codes'', JArr (map (JStr \<circ> json_str) (RecoveryCodes u)))]))"

definition dec_map :: "json \<Rightarrow> (string \<times> goval) list option \<Rightarrow> (string \<times> goval) list option option" where
  "dec_map j old =
    (case j of
       JObj kvs \<Rightarrow>
         Some (Some (foldl (\<lambda>m (k, v). AList.update k (unmarshal_val v) m)
                 (case old of None \<Rightarrow> [] | Some m \<Rightarrow> m) kvs))
     | JNull \<Rightarrow> Some None
     | _ \<Rightarrow> None)"

definition user_field :: "string \<Rightarrow> json \<Rightarrow> user \<Rightarrow> user option" where
  "user_field k j u =
    (if field_is ''id'' k then map_option (\<lambda>s. u\<lparr>ID := s\<rparr>) (dec_string j (ID u))
     else if field_is ''email'' k then map_option (\<lambda>s. u\<lparr>Email := s\<rparr>) (dec_string j (Email u))
     else if field_is ''password'' k then map_option (\<lambda>s. u\<lparr>Password := s\<rparr>) (dec_string j (Password u))
     else if field_is ''UID'' k then map_option (\<lambda>n. u\<lparr>UID := n\<rparr>) (dec_int j (UID u))
     else if field_is ''profile'' k then map_option (\<lambda>m. u\<lparr>Profile := m\<rparr>) (dec_map j (Profile u))
     else if field_is ''totp_secret'' k then
       map_option (\<lambda>s. u\<lparr>TOTPSecret := s\<rparr>) (dec_string j (TOTPSecret u))
     else if field_is ''totp_verified'' k then
       map_option (\<lambda>b. u\<lparr>TOTPVerified := b\<rparr>) (dec_bool j (TOTPVerified u))
     else if field_is ''recovery_codes'' k then
       map_option (\<lambda>cs. u\<lparr>RecoveryCodes := cs\<rparr>) (dec_strings j (RecoveryCodes u))
     else Some u)"

definition unmarshal_user :: "json \<Rightarrow> user option" where
  "unmarshal_user j = dec_object user_field zero_user j"

definition decode_user :: "content \<Rightarrow> user option" where
  "decode_user c = (case c of Json j \<Rightarrow> unmarshal_user j | Bytes _ \<Rightarrow> None)"

section \<open>The store\<close>

definition userPath :: "path \<Rightarrow> int \<Rightarrow> path" where
  "userPath rootDir uid = path_join (path_join rootDir (Itoa uid)) ''user.json''"

definition UserDir :: "path \<Rightarrow> int \<Rightarrow> path" where
  "UserDir rootDir uid = path_join rootDir (Itoa uid)"

definition readUser :: "path \<Rightarrow> int \<Rightarrow> fsys \<Rightarrow> (autherr + user option) \<times> fsys" where
  "readUser rootDir uid fs =
    (if uid < 1 then (Inr None, fs)
     else (case ReadFile (userPath rootDir uid) fs of
         (Inl NotExist, fs') \<Rightarrow> (Inr None, fs')
       | (Inl e, fs') \<Rightarrow> (Inl (AuthOS e), fs')
       | (Inr c, fs') \<Rightarrow>
           (case decode_user c of None \<Rightarrow> (Inl AuthJSON, fs') | Some u \<Rightarrow> (Inr (Some u), fs'))))"

definition writeUser :: "path \<Rightarrow> user \<Rightarrow> fsys \<Rightarrow> (autherr + unit) \<times> fsys" where
  "writeUser rootDir u fs =
    (case MkdirAll (butlast (userPath rootDir (UID u))) fs of
       (Inl e, fs') \<Rightarrow> (Inl (AuthOS e), fs')
     | (Inr _, fs') \<Rightarrow>
         (case WriteFile (userPath rootDir (UID u)) (Json (marshal_user u)) fs' of
            (Inl e, fs'') \<Rightarrow> (Inl (AuthOS e), fs'')
          | (Inr _, fs'') \<Rightarrow> (Inr (), fs'')))"

fun load_entries :: "path \<Rightarrow> (string \<times> bool) list \<Rightarrow> fsys \<Rightarrow> (autherr + user list) \<times> fsys" where
  "load_entries rootDir [] fs = (Inr [], fs)"
| "load_entries rootDir ((name, isDir) # rest) fs =
    (if \<not> isDir then load_entries rootDir rest fs
     else (case ReadFile (path_join (path_join rootDir name) ''user.json'') fs of
         (Inl NotExist, fs') \<Rightarrow> load_entries rootDir rest fs'
       | (Inl e, fs') \<Rightarrow> (Inl (AuthOS e), fs')
       | (Inr c, fs') \<Rightarrow>
           (case decode_user c of
              None \<Rightarrow> (Inl AuthJSON, fs')
            | Some u \<Rightarrow>
                (case load_entries rootDir rest fs' of
                   (Inl e, fs'') \<Rightarrow> (Inl e, fs'')
                 | (Inr us, fs'') \<Rightarrow> (Inr (u # us), fs'')))))"

definition loadUsers :: "path \<Rightarrow> fsys \<Rightarrow> (autherr + user list) \<times> fsys" where
  "loadUsers rootDir fs =
    (case ReadDir rootDir fs of
       (Inl NotExist, fs') \<Rightarrow> (Inr [], fs')
     | (Inl e, fs') \<Rightarrow> (Inl (AuthOS e), fs')
     | (Inr entries, fs') \<Rightarrow> load_entries rootDir entries fs')"

text \<open>The collision loop of \<^verbatim>\<open>register\<close>: the error code of the first user that collides.\<close>

fun collision :: "user list \<Rightarrow> registerRequest \<Rightarrow> nat" where
  "collision [] req = 0"
| "collision (u # us) req =
    (if ID u = reqID req then 2
     else if EqualFold (Email u) (reqEmail req) then 3
     else collision us req)"

definition next_uid :: "user list \<Rightarrow> int" where
  "next_uid users = foldl (\<lambda>uid u. if uid \<le> UID u then wrap64 (UID u + 1) else uid) 1 users"

definition new_user :: "registerRequest \<Rightarrow> int \<Rightarrow> string \<Rightarrow> int \<Rightarrow> user" where
  "new_user req uid hash now =
    zero_user\<lparr>ID := reqID req, Email := reqEmail req, Password := hash, UID := uid,
      Profile := Some [(ProfileKeyUsername, VString (reqUsername req)),
                       (ProfileKeyRegister, VInt64 now)]\<rparr>"

definition register :: "path \<Rightarrow> (string \<Rightarrow> string option) \<Rightarrow> int \<Rightarrow> registerRequest \<Rightarrow> fsys
    \<Rightarrow> (autherr + int \<times> nat) \<times> fsys" where
  "register rootDir hashPassword now req fs =
    (case loadUsers rootDir fs of
       (Inl e, fs') \<Rightarrow> (Inl e, fs')
     | (Inr users, fs') \<Rightarrow>
         if collision users req \<noteq> 0 then (Inr (0, collision users req), fs')
         else let uid = next_uid users
         in (case hashPassword (reqPassword req) of
               None \<Rightarrow> (Inl AuthBcrypt, fs')
             | Some hash \<Rightarrow>
                 (case writeUser rootDir (new_user req uid hash now) fs' of
                    (Inl e, fs'') \<Rightarrow> (Inl e, fs'')
                  | (Inr _, fs'') \<Rightarrow> (Inr (uid, 0), fs''))))"

definition matches :: "string \<Rightarrow> user \<Rightarrow> bool" where
  "matches query u \<longleftrightarrow> ID u = query \<or> EqualFold (Email u) query"

definition verifyPassword :: "path \<Rightarrow> (string \<Rightarrow> string \<Rightarrow> bool) \<Rightarrow> string \<Rightarrow> string \<Rightarrow> fsys
    \<Rightarrow> user option \<times> fsys" where
  "verifyPassword rootDir checkHash query pass fs =
    (case loadUsers rootDir fs of
       (Inl _, fs') \<Rightarrow> (None, fs')
     | (Inr users, fs') \<Rightarrow> (find (\<lambda>u. matches query u \<and> checkHash (Password u) pass) users, fs'))"

definition login :: "path \<Rightarrow> (string \<Rightarrow> string \<Rightarrow> bool) \<Rightarrow> string \<Rightarrow> string \<Rightarrow> fsys
    \<Rightarrow> (string \<times> bool) \<times> fsys" where
  "login rootDir checkHash query pass fs =
    (case loadUsers rootDir fs of
       (Inl _, fs') \<Rightarrow> (([], False), fs')
     | (Inr users, fs') \<Rightarrow>
         (case find (\<lambda>u. matches query u \<and> checkHash (Password u) pass) users of
            None \<Rightarrow> (([], False), fs')
          | Some u \<Rightarrow> ((ID u, True), fs')))"

definition updateProfile :: "path \<Rightarrow> TokenIssuer \<Rightarrow> int \<Rightarrow> int \<Rightarrow> string \<Rightarrow> (string \<times> goval) list \<Rightarrow> fsys
    \<Rightarrow> (autherr + unit) \<times> fsys" where
  "updateProfile rootDir issuer now uid token updates fs =
    (case readUser rootDir uid fs of
       (Inl e, fs') \<Rightarrow> (Inl e, fs')
     | (Inr None, fs') \<Rightarrow> (Inl errProfileDenied, fs')
     | (Inr (Some target), fs') \<Rightarrow>
         (case Verify issuer now token of (ident, ok) \<Rightarrow>
          if \<not> ok \<or> ident \<noteq> ID target then (Inl errProfileDenied, fs')
          else if updates = [] then (Inr (), fs')
          else let old = (case Profile target of None \<Rightarrow> [] | Some m \<Rightarrow> m)
               in writeUser rootDir
                    (target\<lparr>Profile := Some (foldl (\<lambda>m (k, v). AList.update k v m) old updates)\<rparr>) fs'))"

section \<open>Accounts\<close>

record Account =
  acctID :: string
  acctUID :: int
  acctEmail :: string

definition Address :: "Account \<Rightarrow> string \<Rightarrow> string" where
  "Address a domain = acctID a @ ''@'' @ domain"

definition accountOf :: "user \<Rightarrow> Account" where
  "accountOf u = \<lparr>acctID = ID u, acctUID = UID u, acctEmail = Email u\<rparr>"

definition Authenticate :: "path \<Rightarrow> (string \<Rightarrow> string \<Rightarrow> bool) \<Rightarrow> string \<Rightarrow> string \<Rightarrow> fsys
    \<Rightarrow> Account option \<times> fsys" where
  "Authenticate rootDir checkHash query pass fs =
    (case verifyPassword rootDir checkHash query pass fs of
       (None, fs') \<Rightarrow> (None, fs')
     | (Some target, fs') \<Rightarrow> (Some (accountOf target), fs'))"

definition FindByID :: "path \<Rightarrow> string \<Rightarrow> fsys \<Rightarrow> Account option \<times> fsys" where
  "FindByID rootDir ident fs =
    (case loadUsers rootDir fs of
       (Inl _, fs') \<Rightarrow> (None, fs')
     | (Inr users, fs') \<Rightarrow>
         (case find (\<lambda>u. ID u = ident) users of
            Some u \<Rightarrow> (Some (accountOf u), fs')
          | None \<Rightarrow>
              let folded = filter (\<lambda>u. EqualFold (ID u) ident) users
              in if length folded = 1 then (Some (accountOf (last folded)), fs') else (None, fs')))"

section \<open>Round trip of the document\<close>

definition norm_profile :: "(string \<times> goval) list \<Rightarrow> (string \<times> goval) list" where
  "norm_profile kvs = foldl (\<lambda>m (k, v). AList.update k v m) [] (map (\<lambda>(k, v). (json_str k, norm_val v)) kvs)"

definition norm_user :: "user \<Rightarrow> user" where
  "norm_user u =
    u\<lparr>ID := json_str (ID u), Email := json_str (Email u), Password := json_str (Password u),
      Profile := map_option norm_profile (Profile u), TOTPSecret := json_str (TOTPSecret u),
      RecoveryCodes := map json_str (RecoveryCodes u)\<rparr>"

lemma user_field_eqs:
  "user_field ''id'' j u = map_option (\<lambda>s. u\<lparr>ID := s\<rparr>) (dec_string j (ID u))"
  "user_field ''email'' j u = map_option (\<lambda>s. u\<lparr>Email := s\<rparr>) (dec_string j (Email u))"
  "user_field ''password'' j u = map_option (\<lambda>s. u\<lparr>Password := s\<rparr>) (dec_string j (Password u))"
  "user_field ''UID'' j u = map_option (\<lambda>n. u\<lparr>UID := n\<rparr>) (dec_int j (UID u))"
  "user_field ''profile'' j u = map_option (\<lambda>m. u\<lparr>Profile := m\<rparr>) (dec_map j (Profile u))"
  "user_field ''totp_secret'' j u = map_option (\<lambda>s. u\<lparr>TOTPSecret := s\<rparr>) (dec_string j (TOTPSecret u))"
  "user_field ''totp_verified'' j u = map_option (\<lambda>b. u\<lparr>TOTPVerified := b\<rparr>) (dec_bool j (TOTPVerified u))"
  "user_field ''recovery_codes'' j u = map_option (\<lambda>cs. u\<lparr>RecoveryCodes := cs\<rparr>) (dec_strings j (RecoveryCodes u))"
  by (simp_all add: user_field_def field_is_def EqualFold_def fold_rune_def)

lemma foldl_map_pair: "foldl f a (map g xs) = foldl (\<lambda>a x. f a (g x)) a xs"
  by (induction xs arbitrary: a) auto

lemma dec_map_marshal: "dec_map (marshal_map kvs) None = Some (Some (norm_profile kvs))"
  by (simp add: dec_map_def marshal_map_def norm_profile_def foldl_map_pair norm_val_def case_prod_unfold)

lemma dec_map_null: "dec_map JNull old = Some None"
  by (simp add: dec_map_def)

lemma unmarshal_marshal_user:
  assumes "int64 (UID u)"
  shows "unmarshal_user (marshal_user u) = Some (norm_user u)"
proof (cases u)
  case (fields i e p n pr ts tv rc)
  show ?thesis
    using assms unfolding fields
    by (cases pr) (auto simp: unmarshal_user_def marshal_user_def dec_object_def norm_user_def
        zero_user_def user_field_eqs dec_map_marshal dec_map_null)
qed

definition storable_user :: "user \<Rightarrow> bool" where
  "storable_user u \<longleftrightarrow> int64 (UID u) \<and>
    (case Profile u of None \<Rightarrow> True
     | Some kvs \<Rightarrow> distinct (map (json_str \<circ> fst) kvs) \<and> list_all (\<lambda>(k, v). val_ok v) kvs)"

lemma storable_int64: "storable_user u \<Longrightarrow> int64 (UID u)"
  by (simp add: storable_user_def)

lemma foldl_update_fresh:
  "distinct (map fst (m @ kvs)) \<Longrightarrow> foldl (\<lambda>m (k, v). AList.update k v m) m kvs = m @ kvs"
proof (induction kvs arbitrary: m)
  case (Cons kv kvs)
  obtain k v where kv: "kv = (k, v)" by fastforce
  have "AList.update k v m = m @ [(k, v)]"
    using Cons.prems kv by (induction m) auto
  with Cons.prems Cons.IH [of "m @ [kv]"] kv show ?case by simp
qed simp

lemma norm_profile_distinct:
  "distinct (map (json_str \<circ> fst) kvs) \<Longrightarrow> norm_profile kvs = map (\<lambda>(k, v). (json_str k, norm_val v)) kvs"
  unfolding norm_profile_def
  by (subst foldl_update_fresh) (simp_all add: comp_def case_prod_unfold)

lemma storable_norm_user: "storable_user u \<Longrightarrow> storable_user (norm_user u) \<and> norm_user (norm_user u) = norm_user u"
proof (cases "Profile u")
  case None
  then show "storable_user u \<Longrightarrow> ?thesis" by (simp add: storable_user_def norm_user_def comp_def)
next
  case (Some kvs)
  assume st: "storable_user u"
  let ?kvs = "map (\<lambda>(k, v). (json_str k, norm_val v)) kvs"
  from st Some have d: "distinct (map (json_str \<circ> fst) kvs)" and ok: "list_all (\<lambda>(k, v). val_ok v) kvs"
    by (auto simp: storable_user_def)
  have n: "norm_profile kvs = ?kvs" by (rule norm_profile_distinct [OF d])
  have d': "distinct (map (json_str \<circ> fst) ?kvs)" using d by (simp add: comp_def case_prod_unfold)
  have "norm_profile ?kvs = map (\<lambda>(k, v). (json_str k, norm_val v)) ?kvs"
    by (rule norm_profile_distinct [OF d'])
  also have "\<dots> = ?kvs" using ok norm_val_ok by (auto simp: list_all_iff)
  finally have nn: "norm_profile ?kvs = ?kvs" .
  have "list_all (\<lambda>(k, v). val_ok v) ?kvs" using ok norm_val_ok by (auto simp: list_all_iff)
  then show ?thesis using st Some n nn d' by (simp add: storable_user_def norm_user_def comp_def)
qed

interpretation user_codec: json_codec marshal_user unmarshal_user norm_user storable_user
  by unfold_locales (simp_all add: unmarshal_marshal_user storable_norm_user storable_int64)

section \<open>Views of the store\<close>

text \<open>The user a directory holds, and the set of all users that can be read.\<close>

definition user_view :: "path \<Rightarrow> fsys \<Rightarrow> string \<Rightarrow> user option" where
  "user_view rootDir fs name =
    (case fs_lookup fs (rootDir @ [name, ''user.json'']) of
       Some (File c) \<Rightarrow> decode_user c
     | _ \<Rightarrow> None)"

definition abs_users :: "path \<Rightarrow> fsys \<Rightarrow> user set" where
  "abs_users rootDir fs = {u. \<exists>name. plain_name name \<and> user_view rootDir fs name = Some u}"

lemma plain_user_json [simp]: "plain_name ''user.json''"
  by (simp add: plain_name_def)

lemma plain_Itoa [simp]: "plain_name (Itoa n)"
proof -
  have dig: "c \<in> set (nat_str m) \<Longrightarrow> is_digit c" for c m by (rule nat_str_digits)
  have "CHR ''/'' \<notin> set (Itoa n)"
    by (auto simp: Itoa_def dest!: dig is_digit_not_sign)
  moreover have "hd (Itoa n) \<noteq> CHR ''.''" "Itoa n \<noteq> []"
    using nat_str_hd [of "nat n"] by (auto simp: Itoa_def is_digit_def)
  ultimately show ?thesis by (auto simp: plain_name_def)
qed

lemma userPath_eq: "userPath rootDir uid = rootDir @ [Itoa uid, ''user.json'']"
  by (simp add: userPath_def plain_name_join)

lemma UserDir_eq: "UserDir rootDir uid = rootDir @ [Itoa uid]"
  by (simp add: UserDir_def plain_name_join)

lemma load_entries_view:
  assumes "load_entries rootDir entries fs = (Inr us, fs')" "\<forall>(n, d)\<in>set entries. plain_name n"
  shows "us = List.map_filter (\<lambda>(n, d). if d then user_view rootDir fs n else None) entries
    \<and> (\<forall>p. fs_lookup fs' p = fs_lookup fs p)"
  using assms
proof (induction entries arbitrary: fs us fs')
  case Nil
  then show ?case by (simp add: map_filter_simps)
next
  case (Cons e entries)
  obtain n d where e: "e = (n, d)" by fastforce
  have p: "path_join (path_join rootDir n) ''user.json'' = rootDir @ [n, ''user.json'']"
    using Cons.prems e by (simp add: plain_name_join)
  show ?case
  proof (cases d)
    case False
    with Cons e show ?thesis by (simp add: map_filter_simps)
  next
    case True
    obtain r fs1 where rf: "ReadFile (rootDir @ [n, ''user.json'']) fs = (r, fs1)" by fastforce
    have same: "fs_lookup fs1 p = fs_lookup fs p" for p
      using ReadFile_lookup [of "rootDir @ [n, ''user.json'']" fs p] rf by simp
    then have view: "user_view rootDir fs1 = user_view rootDir fs" by (simp add: user_view_def fun_eq_iff)
    show ?thesis
    proof (cases r)
      case (Inl err)
      with Cons.prems True e p rf have "err = NotExist" and
        ih: "load_entries rootDir entries fs1 = (Inr us, fs')"
        by (cases err; simp)+
      then have "user_view rootDir fs n = None"
        using rf Inl ReadFile_NotExist by (fastforce simp: user_view_def)
      with Cons.IH [OF ih, unfolded view] Cons.prems(2) True e same show ?thesis
        by (simp add: map_filter_simps)
    next
      case (Inr c)
      with Cons.prems(1) True e p rf obtain u us' where u: "decode_user c = Some u"
        and ih: "load_entries rootDir entries fs1 = (Inr us', fs')" and us: "us = u # us'"
        by (auto split: option.splits prod.splits sum.splits)
      have "user_view rootDir fs n = Some u"
        using rf Inr u ReadFile_Inr by (fastforce simp: user_view_def)
      with Cons.IH [OF ih, unfolded view] Cons.prems(2) True e same us show ?thesis
        by (simp add: map_filter_simps)
    qed
  qed
qed

text \<open>The list a successful load returns, and that a load changes nothing.\<close>

definition user_list :: "path \<Rightarrow> fsys \<Rightarrow> user list" where
  "user_list rootDir fs = List.map_filter (user_view rootDir fs) (dir_names fs rootDir)"

lemma user_view_cong: "(\<And>p. fs_lookup fs' p = fs_lookup fs p) \<Longrightarrow> user_view rootDir fs' = user_view rootDir fs"
  by (simp add: user_view_def fun_eq_iff)

lemma user_view_dir:
  assumes "wf_fs fs" "user_view rootDir fs n = Some u"
  shows "fs_lookup fs (rootDir @ [n]) = Some Dir" "plain_name n" "n \<in> set (dir_names fs rootDir)"
proof -
  from assms(2) have "fs_lookup fs ((rootDir @ [n]) @ [''user.json'']) \<noteq> None"
    by (auto simp: user_view_def split: option.splits)
  from wf_fs_parent [OF assms(1) this] show dir: "fs_lookup fs (rootDir @ [n]) = Some Dir" .
  then show "plain_name n" using wf_fs_plain [OF assms(1), of rootDir n] by simp
  from dir show "n \<in> set (dir_names fs rootDir)" by (simp add: set_dir_names)
qed

lemma set_user_list: "wf_fs fs \<Longrightarrow> set (user_list rootDir fs) = abs_users rootDir fs"
  using user_view_dir [of fs rootDir]
  by (force simp: user_list_def abs_users_def List.map_filter_def image_iff)

lemma map_filter_cong: "(\<And>x. x \<in> set xs \<Longrightarrow> f x = g x) \<Longrightarrow> List.map_filter f xs = List.map_filter g xs"
  by (induction xs) (auto simp: map_filter_simps split: option.splits)

lemma map_filter_map: "List.map_filter f (map g xs) = List.map_filter (f \<circ> g) xs"
  by (induction xs) (auto simp: map_filter_simps split: option.splits)

lemma loadUsers_Inr:
  assumes "loadUsers rootDir fs = (Inr us, fs')" "wf_fs fs"
  shows "us = user_list rootDir fs" "fs_lookup fs' p = fs_lookup fs p"
proof -
  obtain r fs1 where rd: "ReadDir rootDir fs = (r, fs1)" by fastforce
  have same: "fs_lookup fs1 p = fs_lookup fs p" for p using ReadDir_lookup [of rootDir fs p] rd by simp
  have "us = user_list rootDir fs \<and> (\<forall>p. fs_lookup fs' p = fs_lookup fs p)"
  proof (cases r)
    case (Inl e)
    with assms(1) rd have e: "e = NotExist" and us: "us = []" and fs': "fs' = fs1"
      by (cases e; simp add: loadUsers_def)+
    have "fs_lookup fs rootDir = None" using ReadDir_NotExist rd Inl e by blast
    then have "dir_names fs rootDir = []"
      using wf_fs_parent [OF assms(2), of rootDir] set_dir_names [of _ fs rootDir] by (metis last_in_set option.distinct(1))
    then show ?thesis using us fs' same by (simp add: user_list_def map_filter_simps)
  next
    case (Inr es)
    with rd ReadDir_Inr have es: "es = map (\<lambda>n. (n, fs_lookup fs (rootDir @ [n]) = Some Dir)) (dir_names fs rootDir)"
      by blast
    have le: "load_entries rootDir es fs1 = (Inr us, fs')" using assms(1) rd Inr by (simp add: loadUsers_def)
    have plain: "\<forall>(n, d)\<in>set es. plain_name n"
      using wf_fs_plain [OF assms(2)] by (auto simp: es set_dir_names)
    from load_entries_view [OF le plain, unfolded user_view_cong [of fs1 fs, OF same]] have
      "us = List.map_filter (\<lambda>(n, d). if d then user_view rootDir fs n else None) es"
      "\<forall>p. fs_lookup fs' p = fs_lookup fs p"
      using same by auto
    moreover have "List.map_filter (\<lambda>(n, d). if d then user_view rootDir fs n else None) es = user_list rootDir fs"
      unfolding es user_list_def map_filter_map
      using user_view_dir(1) [OF assms(2), of rootDir] by (intro map_filter_cong) (force simp: comp_def)
    ultimately show ?thesis by simp
  qed
  then show "us = user_list rootDir fs" "fs_lookup fs' p = fs_lookup fs p" by auto
qed

lemma load_entries_lookup: "fs_lookup (snd (load_entries rootDir es fs)) p = fs_lookup fs p"
proof (induction es arbitrary: fs)
  case (Cons e es)
  obtain n d where e: "e = (n, d)" by fastforce
  obtain r fs1 where rf: "ReadFile (path_join (path_join rootDir n) ''user.json'') fs = (r, fs1)" by fastforce
  have "fs_lookup fs1 p = fs_lookup fs p"
    using ReadFile_lookup [of "path_join (path_join rootDir n) ''user.json''" fs p] rf by simp
  with Cons.IH [of fs1] Cons.IH [of fs] e rf show ?case
    by (auto split: sum.splits oserr.splits option.splits prod.splits)
qed simp

lemma loadUsers_lookup [store_simps]: "fs_lookup (snd (loadUsers rootDir fs)) p = fs_lookup fs p"
proof -
  obtain r fs1 where rd: "ReadDir rootDir fs = (r, fs1)" by fastforce
  have "fs_lookup fs1 p = fs_lookup fs p" using ReadDir_lookup [of rootDir fs p] rd by simp
  then show ?thesis using load_entries_lookup [of rootDir _ fs1 p]
    by (auto simp: loadUsers_def rd split: sum.splits oserr.splits)
qed

text \<open>After a successful load every record on disk decodes: one torn record makes every
  operation that scans the store fail.\<close>

lemma load_entries_decodes:
  assumes "load_entries rootDir es fs = (Inr us, fs')" "(n, True) \<in> set es" "\<forall>(n, d)\<in>set es. plain_name n"
    "fs_lookup fs (rootDir @ [n, ''user.json'']) = Some (File c)"
  shows "decode_user c \<noteq> None"
  using assms
proof (induction es arbitrary: fs us)
  case (Cons e es)
  obtain m d where e: "e = (m, d)" by fastforce
  let ?p = "path_join (path_join rootDir m) ''user.json''"
  obtain r fs1 where rf: "ReadFile ?p fs = (r, fs1)" by fastforce
  have same: "fs_lookup fs1 q = fs_lookup fs q" for q using ReadFile_lookup [of ?p fs q] rf by simp
  have p: "?p = rootDir @ [m, ''user.json'']" using Cons.prems(3) e by (simp add: plain_name_join)
  show ?case
  proof (cases "(m, d) = (n, True)")
    case True
    with Cons.prems(1,4) e rf p ReadFile_Inr [of ?p fs] ReadFile_NotExist [of ?p fs] show ?thesis
      by (auto split: sum.splits oserr.splits option.splits)
  next
    case False
    then have "(n, True) \<in> set es" using Cons.prems(2) e by auto
    moreover have "\<exists>us' fs1'. load_entries rootDir es fs1' = (Inr us', fs') \<and> (fs1' = fs1 \<or> fs1' = fs)"
      using Cons.prems(1) e rf by (auto split: if_splits sum.splits oserr.splits option.splits prod.splits)
    ultimately show ?thesis using Cons.IH Cons.prems(3,4) same by fastforce
  qed
qed simp

lemma loadUsers_decodes:
  assumes "loadUsers rootDir fs = (Inr us, fs')" "wf_fs fs"
    "fs_lookup fs (rootDir @ [n, ''user.json'']) = Some (File c)"
  shows "\<exists>u. user_view rootDir fs n = Some u"
proof -
  obtain r fs1 where rd: "ReadDir rootDir fs = (r, fs1)" by fastforce
  have same: "fs_lookup fs1 p = fs_lookup fs p" for p using ReadDir_lookup [of rootDir fs p] rd by simp
  have dir: "fs_lookup fs (rootDir @ [n]) = Some Dir"
    using wf_fs_parent [OF assms(2), of "rootDir @ [n]" "''user.json''"] assms(3) by simp
  then have "fs_lookup fs rootDir = Some Dir" using wf_fs_parent [OF assms(2), of rootDir n] by simp
  with assms(1) rd ReadDir_NotExist [of rootDir fs] obtain es where r: "r = Inr es"
    by (cases r) (auto simp: loadUsers_def split: oserr.splits)
  with rd ReadDir_Inr have es: "es = map (\<lambda>n. (n, fs_lookup fs (rootDir @ [n]) = Some Dir)) (dir_names fs rootDir)"
    by blast
  have "load_entries rootDir es fs1 = (Inr us, fs')" using assms(1) rd r by (simp add: loadUsers_def)
  moreover have "(n, True) \<in> set es" using dir by (auto simp: es set_dir_names image_iff)
  moreover have "\<forall>(n, d)\<in>set es. plain_name n" using wf_fs_plain [OF assms(2)] by (auto simp: es set_dir_names)
  ultimately have "decode_user c \<noteq> None" using load_entries_decodes assms(3) same by metis
  then show ?thesis using assms(3) by (auto simp: user_view_def)
qed

section \<open>Writing a record\<close>

lemma decode_torn [simp]: "decode_user (torn n (Json j)) = None"
  by (simp add: torn_def decode_user_def)

lemma writeUser_frame:
  assumes "writeUser rootDir u fs = (r, fs')" "p \<noteq> userPath rootDir (UID u)"
  shows "fs_lookup fs' p = Some (File c) \<longleftrightarrow> fs_lookup fs p = Some (File c)"
proof -
  obtain r1 fs1 where mk: "MkdirAll (butlast (userPath rootDir (UID u))) fs = (r1, fs1)" by fastforce
  have "fs' = fs1 \<or> fs' = snd (WriteFile (userPath rootDir (UID u)) (Json (marshal_user u)) fs1)"
    using assms(1) mk by (auto simp: writeUser_def split: sum.splits prod.splits)
  then have "fs_lookup fs' p = fs_lookup fs1 p" using WriteFile_frame [OF assms(2)] by auto
  then show ?thesis using MkdirAll_files [OF mk] by simp
qed

lemma user_view_eqI:
  "(\<forall>c. fs_lookup fs' (rootDir @ [n, ''user.json'']) = Some (File c) \<longleftrightarrow>
         fs_lookup fs (rootDir @ [n, ''user.json'']) = Some (File c)) \<Longrightarrow>
   user_view rootDir fs' n = user_view rootDir fs n"
  unfolding user_view_def by (auto split: option.splits node.splits)

lemma writeUser_view_other:
  assumes "writeUser rootDir u fs = (r, fs')" "n \<noteq> Itoa (UID u)"
  shows "user_view rootDir fs' n = user_view rootDir fs n"
  using writeUser_frame [OF assms(1)] assms(2) by (intro user_view_eqI) (simp add: userPath_eq)

lemma writeUser_view_Inr:
  assumes "writeUser rootDir u fs = (Inr x, fs')" "int64 (UID u)"
  shows "user_view rootDir fs' (Itoa (UID u)) = Some (norm_user u)"
proof -
  from assms(1) obtain fs1 y where
    "WriteFile (userPath rootDir (UID u)) (Json (marshal_user u)) fs1 = (Inr y, fs')"
    by (auto simp: writeUser_def split: sum.splits prod.splits)
  from WriteFile_Inr [OF this] show ?thesis
    using unmarshal_marshal_user [OF assms(2)] by (simp add: user_view_def userPath_eq decode_user_def)
qed

lemma writeUser_view_Inl:
  assumes "writeUser rootDir u fs = (Inl e, fs')"
  shows "user_view rootDir fs' (Itoa (UID u)) = user_view rootDir fs (Itoa (UID u))
    \<or> user_view rootDir fs' (Itoa (UID u)) = None"
proof -
  obtain r1 fs1 where mk: "MkdirAll (butlast (userPath rootDir (UID u))) fs = (r1, fs1)" by fastforce
  have v1: "user_view rootDir fs1 n = user_view rootDir fs n" for n
    using MkdirAll_files [OF mk] by (intro user_view_eqI) simp
  show ?thesis
  proof (cases r1)
    case (Inl e1)
    then show ?thesis using assms mk v1 by (simp add: writeUser_def)
  next
    case (Inr y)
    with assms mk obtain e2 where wr: "WriteFile (userPath rootDir (UID u)) (Json (marshal_user u)) fs1 = (Inl e2, fs')"
      by (auto simp: writeUser_def split: sum.splits prod.splits)
    from WriteFile_Inl [OF wr] show ?thesis
    proof
      assume "fs_lookup fs' (userPath rootDir (UID u)) = fs_lookup fs1 (userPath rootDir (UID u))"
      then have "user_view rootDir fs' (Itoa (UID u)) = user_view rootDir fs1 (Itoa (UID u))"
        by (intro user_view_eqI) (simp add: userPath_eq)
      with v1 show ?thesis by simp
    qed (auto simp: user_view_def userPath_eq)
  qed
qed

lemma wf_fs_writeUser:
  assumes "wf_fs fs" "clean_path rootDir"
  shows "wf_fs (snd (writeUser rootDir u fs))"
proof -
  have cp: "clean_path (userPath rootDir (UID u))" "clean_path (butlast (userPath rootDir (UID u)))"
    using assms(2) by (simp_all add: userPath_eq butlast_append)
  obtain r1 fs1 where mk: "MkdirAll (butlast (userPath rootDir (UID u))) fs = (r1, fs1)" by fastforce
  then have "wf_fs fs1" using wf_fs_MkdirAll [OF assms(1) cp(2)] by simp
  then show ?thesis using wf_fs_WriteFile [OF _ cp(1)] mk
    by (auto simp: writeUser_def split: sum.splits prod.splits) (metis snd_conv)+
qed

section \<open>The invariant of the store\<close>

text \<open>
  Each record lies in the directory named by its UID, UIDs are positive, identifiers match
  the pattern, e-mail addresses contain an at sign, and no two records share an identifier or, up to case, an e-mail address.
\<close>

definition user_ok :: "user \<Rightarrow> bool" where
  "user_ok u \<longleftrightarrow> 1 \<le> UID u \<and> int64 (UID u) \<and> idPattern (ID u) \<and> CHR ''@'' \<in> set (Email u)"

definition clash :: "user \<Rightarrow> user \<Rightarrow> bool" where
  "clash u v \<longleftrightarrow> ID u = ID v \<or> EqualFold (Email u) (Email v)"

definition store_inv :: "path \<Rightarrow> fsys \<Rightarrow> bool" where
  "store_inv rootDir fs \<longleftrightarrow> clean_path rootDir \<and> wf_fs fs
    \<and> (\<forall>n u. user_view rootDir fs n = Some u \<longrightarrow> n = Itoa (UID u) \<and> user_ok u)
    \<and> (\<forall>n m u v. user_view rootDir fs n = Some u \<longrightarrow> user_view rootDir fs m = Some v \<longrightarrow>
        n \<noteq> m \<longrightarrow> \<not> clash u v)"

lemma store_invD:
  assumes "store_inv rootDir fs"
  shows "clean_path rootDir" "wf_fs fs"
    "user_view rootDir fs n = Some u \<Longrightarrow> n = Itoa (UID u) \<and> user_ok u"
    "user_view rootDir fs n = Some u \<Longrightarrow> user_view rootDir fs m = Some v \<Longrightarrow> n \<noteq> m \<Longrightarrow> \<not> clash u v"
  using assms unfolding store_inv_def by blast+

lemma store_inv_empty: "clean_path rootDir \<Longrightarrow> store_inv rootDir \<lparr>tree = [], faults = fp\<rparr>"
  by (simp add: store_inv_def wf_fs_def fs_lookup_def user_view_def)

lemma store_inv_cong:
  "(\<And>p. fs_lookup fs' p = fs_lookup fs p) \<Longrightarrow> store_inv rootDir fs' \<longleftrightarrow> store_inv rootDir fs"
  using user_view_cong [of fs' fs] wf_fs_cong [of fs' fs] unfolding store_inv_def by simp

lemma abs_users_view: "wf_fs fs \<Longrightarrow> u \<in> abs_users rootDir fs \<longleftrightarrow> (\<exists>n. user_view rootDir fs n = Some u)"
  unfolding abs_users_def using user_view_dir(2) by blast

lemma abs_users_at:
  assumes "store_inv rootDir fs"
  shows "u \<in> abs_users rootDir fs \<longleftrightarrow> user_view rootDir fs (Itoa (UID u)) = Some u"
  using store_invD(3) [OF assms] abs_users_view [OF store_invD(2) [OF assms]] by blast

text \<open>Two records that match one query are the same record.\<close>

lemma store_unique:
  assumes "store_inv rootDir fs" "u \<in> abs_users rootDir fs" "v \<in> abs_users rootDir fs" "clash u v"
  shows "u = v"
proof (rule ccontr)
  assume "u \<noteq> v"
  from assms(2,3) have uv: "user_view rootDir fs (Itoa (UID u)) = Some u" "user_view rootDir fs (Itoa (UID v)) = Some v"
    by (simp_all add: abs_users_at [OF assms(1)])
  with \<open>u \<noteq> v\<close> have "Itoa (UID u) \<noteq> Itoa (UID v)" by auto
  with store_invD(4) [OF assms(1) uv] assms(4) show False by blast
qed

lemma idPattern_ascii: "idPattern s \<Longrightarrow> ascii s"
  by (auto simp: idPattern_def ascii_def list_all_iff id_char_def is_alnum_def is_upper_def is_lower_def
      is_digit_def less_eq_char_def)

lemma norm_user_clash: "clash (norm_user u) v \<longleftrightarrow> json_str (ID u) = ID v \<or> EqualFold (Email u) (Email v)"
  by (simp add: clash_def norm_user_def EqualFold_json_str)

lemma store_inv_writeUser:
  assumes "store_inv rootDir fs" "user_ok u"
    and fresh: "\<And>v. v \<in> abs_users rootDir fs \<Longrightarrow> UID v \<noteq> UID u \<Longrightarrow> \<not> clash u v"
  shows "store_inv rootDir (snd (writeUser rootDir u fs))"
proof -
  obtain r fs' where wr: "writeUser rootDir u fs = (r, fs')" by fastforce
  let ?n = "Itoa (UID u)"
  have idn: "json_str (ID u) = ID u"
    using assms(2) idPattern_ascii json_str_ascii by (simp add: user_ok_def)
  have at: "user_view rootDir fs' ?n = Some v \<Longrightarrow> v = norm_user u \<or> user_view rootDir fs ?n = Some v" for v
    using writeUser_view_Inr [of rootDir u fs] writeUser_view_Inl [of rootDir u fs] wr assms(2)
    by (cases r) (auto simp: user_ok_def)
  have other: "m \<noteq> ?n \<Longrightarrow> user_view rootDir fs' m = user_view rootDir fs m" for m
    using writeUser_view_other [OF wr] by blast
  have sep: "\<not> clash v w" if v: "user_view rootDir fs' ?n = Some v" and m: "m \<noteq> ?n"
    and w: "user_view rootDir fs m = Some w" for m v w
  proof -
    have wm: "m = Itoa (UID w)" using store_invD(3) [OF assms(1) w] by blast
    with w m have "w \<in> abs_users rootDir fs" "UID w \<noteq> UID u" by (auto simp: abs_users_at [OF assms(1)])
    then have "\<not> clash u w" by (rule fresh)
    then have "\<not> clash (norm_user u) w" using idn by (auto simp: norm_user_clash) (auto simp: clash_def)
    with at [OF v] store_invD(4) [OF assms(1) _ w] m show ?thesis by blast
  qed
  have ok: "n = Itoa (UID v) \<and> user_ok v" if v: "user_view rootDir fs' n = Some v" for n v
  proof (cases "n = ?n")
    case True
    with at v store_invD(3) [OF assms(1)] assms(2) idn show ?thesis
      by (auto simp: user_ok_def norm_user_def json_str_ascii_mem)
  next
    case False
    with other store_invD(3) [OF assms(1)] v show ?thesis by simp
  qed
  have "\<not> clash v w" if "user_view rootDir fs' n = Some v" "user_view rootDir fs' m = Some w" "n \<noteq> m" for n m v w
  proof (cases "n = ?n")
    case True
    with sep [of v m w] other that show ?thesis by auto
  next
    case n: False
    show ?thesis
    proof (cases "m = ?n")
      case True
      with sep [of w n v] other that n show ?thesis by (auto simp: clash_def EqualFold_sym)
    next
      case False
      with n other that store_invD(4) [OF assms(1)] show ?thesis by metis
    qed
  qed
  with ok show ?thesis
    using wf_fs_writeUser [OF store_invD(2,1) [OF assms(1)], of u] store_invD(1) [OF assms(1)] wr
    by (simp add: store_inv_def)
qed

section \<open>Registration\<close>

definition uid_room :: "path \<Rightarrow> fsys \<Rightarrow> bool" where
  "uid_room rootDir fs \<longleftrightarrow> (\<forall>u\<in>abs_users rootDir fs. UID u < 2 ^ 63 - 1)"

lemma Max_insert_max: "finite S \<Longrightarrow> Max (insert (max a b) S) = Max (insert a (insert b S))"
  for a b :: "'a::linorder"
  by (cases "S = {}") (simp_all add: max.assoc)

lemma next_uid_from:
  "\<forall>u\<in>set us. 1 \<le> UID u \<and> UID u < 2 ^ 63 - 1 \<Longrightarrow>
   foldl (\<lambda>uid u. if uid \<le> UID u then wrap64 (UID u + 1) else uid) a us = Max (insert a ((\<lambda>u. UID u + 1) ` set us))"
proof (induction us arbitrary: a)
  case (Cons u us)
  have "int64 (UID u + 1)" using Cons.prems by (simp add: int64_def)
  then have "(if a \<le> UID u then wrap64 (UID u + 1) else a) = max a (UID u + 1)" by (simp add: max_def)
  with Cons.IH [of "max a (UID u + 1)"] Cons.prems show ?case
    using Max_insert_max [of "(\<lambda>u. UID u + 1) ` set us" a "UID u + 1"] by (simp del: Max_insert)
qed simp

lemma next_uid_Max:
  assumes "\<forall>u\<in>set us. 1 \<le> UID u \<and> UID u < 2 ^ 63 - 1"
  shows "next_uid us = 1 + Max (insert 0 (UID ` set us))"
proof -
  have "next_uid us = Max ((\<lambda>n. n + 1) ` insert 0 (UID ` set us))"
    using next_uid_from [OF assms] by (simp add: next_uid_def image_image)
  also have "\<dots> = Max (insert 0 (UID ` set us)) + 1"
    by (rule mono_Max_commute [symmetric]) (auto intro: monoI)
  finally show ?thesis by simp
qed

lemma collision_0: "collision us req = 0 \<longleftrightarrow> (\<forall>u\<in>set us. ID u \<noteq> reqID req \<and> \<not> EqualFold (Email u) (reqEmail req))"
  by (induction us) auto

lemma collision_cases:
  "collision us req = 2 \<Longrightarrow> \<exists>u\<in>set us. ID u = reqID req"
  "collision us req = 3 \<Longrightarrow> \<exists>u\<in>set us. EqualFold (Email u) (reqEmail req)"
  "collision us req \<in> {0, 2, 3}"
  by (induction us) (auto split: if_splits)

lemma finite_abs_users: "wf_fs fs \<Longrightarrow> finite (abs_users rootDir fs)"
  using set_user_list by (metis List.finite_set)

lemma register_uid:
  assumes inv: "store_inv rootDir fs" and room: "uid_room rootDir fs"
    and load: "loadUsers rootDir fs = (Inr us, fs1)"
  shows "next_uid us = 1 + Max (insert 0 (UID ` abs_users rootDir fs))"
    and "user_ok (new_user req (next_uid us) hash now) \<longleftrightarrow> idPattern (reqID req) \<and> CHR ''@'' \<in> set (reqEmail req)"
    and "u \<in> abs_users rootDir fs \<Longrightarrow> UID u < next_uid us"
proof -
  have set: "set us = abs_users rootDir fs"
    using loadUsers_Inr(1) [OF load] set_user_list store_invD(2) [OF inv] by simp
  have bounds: "\<forall>u\<in>set us. 1 \<le> UID u \<and> UID u < 2 ^ 63 - 1"
    using room store_invD(3) [OF inv] abs_users_at [OF inv] unfolding set uid_room_def user_ok_def by blast
  let ?M = "Max (insert 0 (UID ` set us))"
  have M: "?M \<in> insert 0 (UID ` set us)" by (rule Max_in) auto
  show nu: "next_uid us = 1 + Max (insert 0 (UID ` abs_users rootDir fs))"
    using next_uid_Max [OF bounds] by (simp add: set)
  have "0 \<le> ?M" by (rule Max_ge) auto
  moreover have "?M < 2 ^ 63 - 1" using M bounds by auto
  ultimately show "user_ok (new_user req (next_uid us) hash now) \<longleftrightarrow> idPattern (reqID req) \<and> CHR ''@'' \<in> set (reqEmail req)"
    unfolding nu set by (auto simp: user_ok_def new_user_def int64_def)
  show "UID u < next_uid us" if "u \<in> abs_users rootDir fs"
  proof -
    have "UID u \<in> insert 0 (UID ` set us)" using that set by blast
    then have "UID u \<le> ?M" by (intro Max_ge) simp_all
    then show ?thesis by (simp add: nu set)
  qed
qed

lemma register_fresh_path:
  assumes inv: "store_inv rootDir fs" and room: "uid_room rootDir fs"
    and load: "loadUsers rootDir fs = (Inr us, fs1)"
  shows "user_view rootDir fs (Itoa (next_uid us)) = None"
    and "fs_lookup fs (userPath rootDir (next_uid us)) \<noteq> Some (File c)"
proof -
  show none: "user_view rootDir fs (Itoa (next_uid us)) = None"
  proof (rule ccontr)
    assume "user_view rootDir fs (Itoa (next_uid us)) \<noteq> None"
    then obtain u where u: "user_view rootDir fs (Itoa (next_uid us)) = Some u" by blast
    then have "Itoa (next_uid us) = Itoa (UID u)" using store_invD(3) [OF inv u] by simp
    then have "UID u = next_uid us" by (metis Itoa_inj)
    moreover have "u \<in> abs_users rootDir fs" using u abs_users_view store_invD(2) [OF inv] by blast
    ultimately show False using register_uid(3) [OF inv room load, of u] by simp
  qed
  show "fs_lookup fs (userPath rootDir (next_uid us)) \<noteq> Some (File c)"
    using loadUsers_decodes [OF load store_invD(2) [OF inv], of "Itoa (next_uid us)" c] none
    by (force simp: userPath_eq)
qed

lemma register_writes:
  assumes "register rootDir hashPassword now req fs = (r, fs')"
  shows "(\<exists>us fs1 hash r2. loadUsers rootDir fs = (Inr us, fs1) \<and> collision us req = 0
            \<and> hashPassword (reqPassword req) = Some hash
            \<and> writeUser rootDir (new_user req (next_uid us) hash now) fs1 = (r2, fs')
            \<and> r = (case r2 of Inl e \<Rightarrow> Inl e | Inr _ \<Rightarrow> Inr (next_uid us, 0)))
    \<or> (\<exists>e. r = Inl e) \<and> (\<forall>p. fs_lookup fs' p = fs_lookup fs p)
    \<or> (\<exists>us fs1. loadUsers rootDir fs = (Inr us, fs1) \<and> collision us req \<noteq> 0 \<and> r = Inr (0, collision us req))
       \<and> (\<forall>p. fs_lookup fs' p = fs_lookup fs p)"
proof -
  obtain r1 fs1 where load: "loadUsers rootDir fs = (r1, fs1)" by fastforce
  have same: "\<forall>p. fs_lookup fs1 p = fs_lookup fs p" using loadUsers_lookup [of rootDir fs] load by simp
  show ?thesis
  proof (cases r1)
    case (Inl e)
    with assms load same show ?thesis by (auto simp: register_def)
  next
    case (Inr us)
    with assms load same show ?thesis
      by (auto simp: register_def Let_def split: option.splits if_splits prod.splits sum.splits)
  qed
qed

lemma new_user_simps [simp]:
  "ID (new_user req uid hash now) = reqID req" "Email (new_user req uid hash now) = reqEmail req"
  "UID (new_user req uid hash now) = uid" "Password (new_user req uid hash now) = hash"
  by (simp_all add: new_user_def zero_user_def)

lemma store_inv_new_user:
  assumes "store_inv rootDir fs" "uid_room rootDir fs" "idPattern (reqID req)" "CHR ''@'' \<in> set (reqEmail req)"
    and load: "loadUsers rootDir fs = (Inr us, fs1)" and col: "collision us req = 0"
  shows "store_inv rootDir (snd (writeUser rootDir (new_user req (next_uid us) hash now) fs1))"
proof (rule store_inv_writeUser)
  note wf = store_invD(2) [OF assms(1)]
  have same: "fs_lookup fs1 p = fs_lookup fs p" for p by (rule loadUsers_Inr(2) [OF load wf])
  then show "store_inv rootDir fs1" using store_inv_cong assms(1) by blast
  have abs: "abs_users rootDir fs1 = abs_users rootDir fs"
    using user_view_cong [OF same] by (simp add: abs_users_def)
  show "user_ok (new_user req (next_uid us) hash now)" using register_uid(2) [OF assms(1,2) load] assms(3,4) by simp
  show "\<not> clash (new_user req (next_uid us) hash now) v" if "v \<in> abs_users rootDir fs1" for v
    using that col loadUsers_Inr(1) [OF load wf] set_user_list [OF wf]
    by (auto simp: collision_0 clash_def abs EqualFold_sym)
qed

text \<open>Registration keeps the invariant under every fault plan.\<close>

lemma register_inv:
  assumes "store_inv rootDir fs" "uid_room rootDir fs" "idPattern (reqID req)" "CHR ''@'' \<in> set (reqEmail req)"
  shows "store_inv rootDir (snd (register rootDir hashPassword now req fs))"
proof -
  obtain r fs' where reg: "register rootDir hashPassword now req fs = (r, fs')" by fastforce
  from register_writes [OF reg] consider (stored) us fs1 hash r2 where "loadUsers rootDir fs = (Inr us, fs1)" "collision us req = 0"
        "writeUser rootDir (new_user req (next_uid us) hash now) fs1 = (r2, fs')"
      | (same) "\<forall>p. fs_lookup fs' p = fs_lookup fs p" by blast
  then show ?thesis
  proof cases
    case stored
    with store_inv_new_user [OF assms stored(1,2)] reg show ?thesis by (metis snd_conv)
  next
    case same
    with assms(1) store_inv_cong reg show ?thesis by (metis snd_conv)
  qed
qed

definition demo_req :: registerRequest where
  "demo_req = \<lparr>reqUsername = ''Ann'', reqID = ''ann'', reqEmail = ''a@b.c'', reqPassword = ''pw''\<rparr>"

definition empty_fs :: fsys where
  "empty_fs = \<lparr>tree = [], faults = []\<rparr>"

lemma demo_facts:
  "store_inv [''data''] empty_fs" "uid_room [''data''] empty_fs" "idPattern (reqID demo_req)"
  "CHR ''@'' \<in> set (reqEmail demo_req)" "abs_users [''data''] empty_fs = {}"
  using store_inv_empty [of "[''data'']" "[]"]
  by (simp_all add: empty_fs_def clean_path_def plain_name_def demo_req_def idPattern_def id_char_def
      is_alnum_def is_lower_def uid_room_def abs_users_def user_view_def fs_lookup_def)

text \<open>What a registration does to the readable records, under every fault plan.\<close>

lemma register_effect:
  assumes "store_inv rootDir fs" "uid_room rootDir fs"
    "idPattern (reqID req)" "CHR ''@'' \<in> set (reqEmail req)"
    "register rootDir hashPassword now req fs = (r, fs')"
  shows "case r of
      Inr (uid, code) \<Rightarrow>
        if code = 0 then
          uid = 1 + Max (insert 0 (UID ` abs_users rootDir fs))
          \<and> (\<forall>c. fs_lookup fs (userPath rootDir uid) \<noteq> Some (File c))
          \<and> (\<forall>u\<in>abs_users rootDir fs. ID u \<noteq> reqID req \<and> \<not> EqualFold (Email u) (reqEmail req))
          \<and> (\<exists>hash. hashPassword (reqPassword req) = Some hash
               \<and> user_view rootDir fs' = (user_view rootDir fs)(Itoa uid \<mapsto> norm_user (new_user req uid hash now)))
        else user_view rootDir fs' = user_view rootDir fs \<and> uid = 0
          \<and> (code = 2 \<and> (\<exists>u\<in>abs_users rootDir fs. ID u = reqID req)
             \<or> code = 3 \<and> (\<exists>u\<in>abs_users rootDir fs. EqualFold (Email u) (reqEmail req)))
    | Inl e \<Rightarrow> user_view rootDir fs' = user_view rootDir fs"
  using register_writes [OF assms(5)]
proof (elim disjE exE conjE)
  fix us fs1 hash r2
  assume load: "loadUsers rootDir fs = (Inr us, fs1)" and col: "collision us req = 0"
    and hash: "hashPassword (reqPassword req) = Some hash"
    and wr: "writeUser rootDir (new_user req (next_uid us) hash now) fs1 = (r2, fs')"
    and r: "r = (case r2 of Inl e \<Rightarrow> Inl e | Inr _ \<Rightarrow> Inr (next_uid us, 0))"
  let ?u = "new_user req (next_uid us) hash now"
  note inv = assms(1) and wf = store_invD(2) [OF assms(1)]
  have view1: "user_view rootDir fs1 = user_view rootDir fs"
    by (rule user_view_cong) (rule loadUsers_Inr(2) [OF load wf])
  have other: "n \<noteq> Itoa (next_uid us) \<Longrightarrow> user_view rootDir fs' n = user_view rootDir fs n" for n
    using writeUser_view_other [OF wr, of n] by (simp add: view1)
  note none = register_fresh_path(1) [OF inv assms(2) load]
  have ok: "user_ok ?u" using register_uid(2) [OF inv assms(2) load] assms(3,4) by simp
  have "\<forall>u\<in>abs_users rootDir fs. ID u \<noteq> reqID req \<and> \<not> EqualFold (Email u) (reqEmail req)"
    using col loadUsers_Inr(1) [OF load wf] set_user_list [OF wf] by (simp add: collision_0)
  moreover have "r2 = Inr () \<Longrightarrow> user_view rootDir fs' = (user_view rootDir fs)(Itoa (next_uid us) \<mapsto> norm_user ?u)"
    using writeUser_view_Inr [of rootDir ?u fs1 "()" fs'] wr ok other by (auto simp: user_ok_def)
  moreover have "r2 = Inl e \<Longrightarrow> user_view rootDir fs' n = user_view rootDir fs n" for e n
    using writeUser_view_Inl [of rootDir ?u fs1 e fs'] wr other [of n] none
    by (cases "n = Itoa (next_uid us)") (auto simp: view1)
  ultimately show ?thesis
    using register_uid(1) [OF inv assms(2) load] register_fresh_path(2) [OF inv assms(2) load] hash r
    by (cases r2) auto
next
  fix e assume "r = Inl e" "\<forall>p. fs_lookup fs' p = fs_lookup fs p"
  then show ?thesis by (simp add: user_view_cong [of fs' fs])
next
  fix us fs1
  assume load: "loadUsers rootDir fs = (Inr us, fs1)" and col: "collision us req \<noteq> 0"
    and r: "r = Inr (0, collision us req)" and same: "\<forall>p. fs_lookup fs' p = fs_lookup fs p"
  have "set us = abs_users rootDir fs"
    using loadUsers_Inr(1) [OF load] set_user_list store_invD(2) [OF assms(1)] by simp
  then show ?thesis
    using r col collision_cases [of us req] same by (auto simp: user_view_cong [of fs' fs])
qed

section \<open>Without faults\<close>

text \<open>A store in which every record decodes and no file stands where a directory belongs.\<close>

definition readable :: "path \<Rightarrow> fsys \<Rightarrow> bool" where
  "readable rootDir fs \<longleftrightarrow> faults fs = [] \<and> \<not> file_above fs rootDir
    \<and> (\<forall>n c. fs_lookup fs (rootDir @ [n]) \<noteq> Some (File c))
    \<and> (\<forall>n. fs_lookup fs (rootDir @ [n, ''user.json'']) \<noteq> Some Dir)
    \<and> (\<forall>n c. fs_lookup fs (rootDir @ [n, ''user.json'']) = Some (File c) \<longrightarrow> decode_user c \<noteq> None)"

lemma readable_above:
  assumes "readable rootDir fs"
  shows "\<not> file_above fs (rootDir @ [n])"
    and "fs_lookup fs (rootDir @ [n, ''user.json'']) = None \<Longrightarrow> \<not> file_above fs (rootDir @ [n, ''user.json''])"
proof -
  have root: "prefix q rootDir \<Longrightarrow> fs_lookup fs q \<noteq> Some (File c)" for q c
    using assms by (auto simp: readable_def no_file_above)
  have dir: "prefix q (rootDir @ [n]) \<Longrightarrow> fs_lookup fs q \<noteq> Some (File c)" for q c
    using root [of q c] assms by (auto simp: readable_def prefix_snoc)
  then show "\<not> file_above fs (rootDir @ [n])" by (simp add: no_file_above)
  assume none: "fs_lookup fs (rootDir @ [n, ''user.json'']) = None"
  have "prefix q (rootDir @ [n, ''user.json'']) \<longleftrightarrow> prefix q (rootDir @ [n]) \<or> q = rootDir @ [n, ''user.json'']" for q
    using prefix_snoc [of q "rootDir @ [n]" "''user.json''"] by auto
  with dir none show "\<not> file_above fs (rootDir @ [n, ''user.json''])" by (auto simp: no_file_above)
qed

lemma load_entries_total:
  assumes "readable rootDir fs" "\<forall>(n, d)\<in>set es. plain_name n"
  shows "\<exists>us. load_entries rootDir es fs = (Inr us, fs)"
  using assms(2)
proof (induction es)
  case (Cons e es)
  obtain n d where e: "e = (n, d)" by fastforce
  obtain us where ih: "load_entries rootDir es fs = (Inr us, fs)" using Cons by auto
  have p: "path_join (path_join rootDir n) ''user.json'' = rootDir @ [n, ''user.json'']"
    using Cons.prems e by (simp add: plain_name_join)
  have fl: "faults fs = []" using assms(1) by (simp add: readable_def)
  show ?case
    using ih assms(1) readable_above(2) [OF assms(1), of n]
    by (auto simp: e p ReadFile_ok [OF fl] missing_def readable_def split: option.splits node.splits)
      (metis option.distinct(1))
qed simp

lemma loadUsers_total:
  assumes "readable rootDir fs" "wf_fs fs"
  shows "loadUsers rootDir fs = (Inr (user_list rootDir fs), fs)"
proof -
  have fl: "faults fs = []" and above: "\<not> file_above fs rootDir" using assms(1) by (auto simp: readable_def)
  then have "fs_lookup fs rootDir \<noteq> Some (File c)" for c by (simp add: no_file_above)
  then consider "fs_lookup fs rootDir = None" | "fs_lookup fs rootDir = Some Dir"
    by (cases "fs_lookup fs rootDir") (auto, metis node.exhaust)
  then have "\<exists>us. loadUsers rootDir fs = (Inr us, fs)"
  proof cases
    case 1
    with fl above show ?thesis by (simp add: loadUsers_def ReadDir_def missing_def)
  next
    case 2
    have "\<forall>(n, d)\<in>set (map (\<lambda>n. (n, fs_lookup fs (rootDir @ [n]) = Some Dir)) (dir_names fs rootDir)). plain_name n"
      using wf_fs_plain [OF assms(2)] by (auto simp: set_dir_names)
    from load_entries_total [OF assms(1) this] show ?thesis
      using 2 fl by (simp add: loadUsers_def ReadDir_ok)
  qed
  with loadUsers_Inr(1) [OF _ assms(2)] show ?thesis by blast
qed

lemma writeUser_total:
  assumes "readable rootDir fs" "int64 (UID u)"
  obtains fs' where "writeUser rootDir u fs = (Inr (), fs')" "readable rootDir fs'"
proof -
  let ?d = "rootDir @ [Itoa (UID u)]" and ?p = "rootDir @ [Itoa (UID u), ''user.json'']"
  let ?fs' = "fs_put ?p (File (Json (marshal_user u))) (mkdirs ?d fs)"
  have fl: "faults fs = []" using assms(1) by (simp add: readable_def)
  have lk: "fs_lookup (mkdirs ?d fs) ?p = fs_lookup fs ?p" by (simp add: prefix_def)
  have wr: "writeUser rootDir u fs = (Inr (), ?fs')"
    using fl assms(1) readable_above(1) [OF assms(1)] lk
    by (simp add: writeUser_def userPath_eq butlast_append MkdirAll_ok WriteFile_ok readable_def)
  have look: "fs_lookup ?fs' q = (if q = ?p then Some (File (Json (marshal_user u)))
      else if prefix q ?d then Some Dir else fs_lookup fs q)" for q by simp
  have "\<not> file_above ?fs' rootDir"
    using assms(1) unfolding no_file_above look readable_def by (auto simp: prefix_def)
  then have "readable rootDir ?fs'"
    using assms fl unmarshal_marshal_user [OF assms(2)] unfolding readable_def look
    by (auto simp: decode_user_def prefix_def)
  with wr that show ?thesis by blast
qed

lemma register_total:
  assumes "store_inv rootDir fs" "uid_room rootDir fs" "readable rootDir fs"
    "idPattern (reqID req)" "CHR ''@'' \<in> set (reqEmail req)" "hashPassword (reqPassword req) = Some hash"
    and new: "\<forall>u\<in>abs_users rootDir fs. ID u \<noteq> reqID req \<and> \<not> EqualFold (Email u) (reqEmail req)"
  obtains uid fs' where "register rootDir hashPassword now req fs = (Inr (uid, 0), fs')" "readable rootDir fs'"
proof -
  let ?us = "user_list rootDir fs"
  note wf = store_invD(2) [OF assms(1)]
  have load: "loadUsers rootDir fs = (Inr ?us, fs)" by (rule loadUsers_total [OF assms(3) wf])
  have col: "collision ?us req = 0" using new by (simp add: collision_0 set_user_list [OF wf])
  have "int64 (UID (new_user req (next_uid ?us) hash now))"
    using register_uid(2) [OF assms(1,2) load, of req hash now] assms(4,5) by (simp add: user_ok_def)
  then obtain fs' where "writeUser rootDir (new_user req (next_uid ?us) hash now) fs = (Inr (), fs')"
    and r: "readable rootDir fs'" using writeUser_total [OF assms(3)] by blast
  then have "register rootDir hashPassword now req fs = (Inr (next_uid ?us, 0), fs')"
    using col load assms(6) by (simp add: register_def)
  then show ?thesis using r by (rule that)
qed

section \<open>Authentication\<close>

lemma idPattern_no_at: "idPattern s \<Longrightarrow> CHR ''@'' \<notin> set s"
  by (auto simp: idPattern_def list_all_iff id_char_def is_alnum_def is_upper_def is_lower_def is_digit_def)

text \<open>A query, an identifier or an e-mail address, matches at most one record.\<close>

lemma matches_unique:
  assumes inv: "store_inv rootDir fs" and u: "u \<in> abs_users rootDir fs" "matches query u"
    and v: "v \<in> abs_users rootDir fs" "matches query v"
  shows "u = v"
proof -
  have ok: "user_ok u" "user_ok v" using u(1) v(1) abs_users_at [OF inv] store_invD(3) [OF inv] by blast+
  have no: "\<not> EqualFold (Email a) (ID b)" if "user_ok a" "user_ok b" for a b
    using that EqualFold_at [of "Email a" "ID b"] idPattern_ascii idPattern_no_at
    by (auto simp: user_ok_def)
  have "clash u v"
    using u(2) v(2) no ok EqualFold_trans EqualFold_sym unfolding matches_def clash_def by metis
  with store_unique [OF inv] u v show ?thesis by blast
qed

lemma verifyPassword_Some:
  assumes "verifyPassword rootDir checkHash query pass fs = (Some u, fs')" "wf_fs fs"
  shows "u \<in> abs_users rootDir fs \<and> matches query u \<and> checkHash (Password u) pass"
proof -
  obtain us fs1 where load: "loadUsers rootDir fs = (Inr us, fs1)"
    and f: "find (\<lambda>u. matches query u \<and> checkHash (Password u) pass) us = Some u"
    using assms(1) by (auto simp: verifyPassword_def split: prod.splits sum.splits)
  have "set us = abs_users rootDir fs"
    using loadUsers_Inr(1) [OF load assms(2)] set_user_list [OF assms(2)] by simp
  with find_SomeD [OF f] show ?thesis by blast
qed

lemma verifyPassword_lookup [store_simps]:
  "fs_lookup (snd (verifyPassword rootDir checkHash query pass fs)) p = fs_lookup fs p"
  using loadUsers_lookup [of rootDir fs p]
  by (auto simp: verifyPassword_def split: prod.splits sum.splits)

lemma login_verifyPassword:
  "login rootDir checkHash query pass fs =
    (case verifyPassword rootDir checkHash query pass fs of
       (None, fs') \<Rightarrow> (([], False), fs') | (Some u, fs') \<Rightarrow> ((ID u, True), fs'))"
  by (auto simp: login_def verifyPassword_def split: prod.splits sum.splits option.splits)

lemma verifyPassword_total:
  assumes "store_inv rootDir fs" "readable rootDir fs"
  shows "verifyPassword rootDir checkHash query pass fs = (Some u, fs) \<longleftrightarrow>
    u \<in> abs_users rootDir fs \<and> matches query u \<and> checkHash (Password u) pass"
proof -
  note wf = store_invD(2) [OF assms(1)]
  have vp: "verifyPassword rootDir checkHash query pass fs =
      (find (\<lambda>u. matches query u \<and> checkHash (Password u) pass) (user_list rootDir fs), fs)"
    by (simp add: verifyPassword_def loadUsers_total [OF assms(2) wf])
  show ?thesis
    using find_Some_unique [of u "user_list rootDir fs" "\<lambda>u. matches query u \<and> checkHash (Password u) pass"]
      find_SomeD [of "\<lambda>u. matches query u \<and> checkHash (Password u) pass" "user_list rootDir fs" u]
      matches_unique [OF assms(1)] set_user_list [OF wf]
    unfolding vp by (metis prod.inject)
qed

text \<open>
  C5. Login is exact and unambiguous. With any faults a login that succeeds names a stored
  user whose identifier or e-mail address matches the query and whose hash accepts the
  password, and it changes no file; on a readable store it succeeds for every such user, and
  no second stored user matches the same query.
\<close>

theorem login_correct:
  assumes "store_inv rootDir fs"
  shows "(\<forall>ident fs'. login rootDir checkHash query pass fs = ((ident, True), fs') \<longrightarrow>
       (\<exists>!u. u \<in> abs_users rootDir fs \<and> matches query u)
       \<and> (\<exists>u\<in>abs_users rootDir fs. matches query u \<and> checkHash (Password u) pass \<and> ID u = ident))
    \<and> (readable rootDir fs \<longrightarrow> (\<forall>u\<in>abs_users rootDir fs. matches query u \<longrightarrow>
         login rootDir checkHash query pass fs =
           (if checkHash (Password u) pass then (ID u, True) else ([], False), fs)))
    \<and> (\<forall>p. fs_lookup (snd (login rootDir checkHash query pass fs)) p = fs_lookup fs p)"
proof (intro conjI allI impI ballI)
  fix ident fs' assume "login rootDir checkHash query pass fs = ((ident, True), fs')"
  then obtain u where vp: "verifyPassword rootDir checkHash query pass fs = (Some u, fs')" "ident = ID u"
    by (auto simp: login_verifyPassword split: prod.splits option.splits)
  note u = verifyPassword_Some [OF vp(1) store_invD(2) [OF assms]]
  show "\<exists>!u. u \<in> abs_users rootDir fs \<and> matches query u" using u matches_unique [OF assms] by blast
  show "\<exists>u\<in>abs_users rootDir fs. matches query u \<and> checkHash (Password u) pass \<and> ID u = ident" using u vp(2) by blast
next
  fix u assume r: "readable rootDir fs" and u: "u \<in> abs_users rootDir fs" "matches query u"
  obtain x where vp: "verifyPassword rootDir checkHash query pass fs = (x, fs)"
    by (simp add: verifyPassword_def loadUsers_total [OF r store_invD(2) [OF assms]])
  have "x = (if checkHash (Password u) pass then Some u else None)"
  proof (cases x)
    case None
    then show ?thesis using verifyPassword_total [OF assms r, of checkHash query pass u] vp u by auto
  next
    case (Some v)
    then show ?thesis using verifyPassword_total [OF assms r, of checkHash query pass v] vp u matches_unique [OF assms] by auto
  qed
  then show "login rootDir checkHash query pass fs =
      (if checkHash (Password u) pass then (ID u, True) else ([], False), fs)"
    by (simp add: login_verifyPassword vp)
next
  fix p show "fs_lookup (snd (login rootDir checkHash query pass fs)) p = fs_lookup fs p"
    using verifyPassword_lookup [of rootDir checkHash query pass fs p]
    by (auto simp: login_verifyPassword split: prod.splits option.splits)
qed

text \<open>
  C11. A registered user can log in. On a readable store a valid request for a new identifier
  and e-mail address succeeds, and right afterwards the identifier, or the e-mail address in
  any letter case, together with the password logs in as that user. Of bcrypt it is assumed
  that the hash of the password accepts it and is ASCII text.
\<close>

theorem register_login:
  assumes "store_inv rootDir fs" "uid_room rootDir fs" "readable rootDir fs"
    "idPattern (reqID req)" "CHR ''@'' \<in> set (reqEmail req)"
    "\<forall>u\<in>abs_users rootDir fs. ID u \<noteq> reqID req \<and> \<not> EqualFold (Email u) (reqEmail req)"
    and bcrypt: "hashPassword (reqPassword req) = Some hash" "checkHash hash (reqPassword req)" "ascii hash"
    and query: "query = reqID req \<or> EqualFold (reqEmail req) query"
  shows "\<exists>uid fs'. register rootDir hashPassword now req fs = (Inr (uid, 0), fs') \<and>
    login rootDir checkHash query (reqPassword req) fs' = ((reqID req, True), fs')"
proof -
  obtain uid fs' where reg: "register rootDir hashPassword now req fs = (Inr (uid, 0), fs')"
    and rd: "readable rootDir fs'" 
    using register_total [where hashPassword = hashPassword and req = req and fs = fs and rootDir = rootDir,
        OF assms(1-5) bcrypt(1) assms(6)] by blast
  from register_writes [OF reg] bcrypt(1) obtain us fs1 x where load: "loadUsers rootDir fs = (Inr us, fs1)"
    and col: "collision us req = 0" and wr: "writeUser rootDir (new_user req (next_uid us) hash now) fs1 = (Inr x, fs')"
    by (auto split: sum.splits) (metis sum.exhaust old.unit.exhaust)
  let ?u = "new_user req (next_uid us) hash now"
  have inv: "store_inv rootDir fs'"
    using store_inv_new_user [OF assms(1,2,4,5) load col, of hash now] wr by simp
  have "int64 (next_uid us)"
    using register_uid(2) [OF assms(1,2) load, of req hash now] assms(4,5) by (simp add: user_ok_def)
  then have "norm_user ?u \<in> abs_users rootDir fs'"
    using writeUser_view_Inr [OF wr] abs_users_view [OF store_invD(2) [OF inv]] by auto
  moreover have "matches query (norm_user ?u)" "ID (norm_user ?u) = reqID req" "Password (norm_user ?u) = hash"
    using query bcrypt(3) json_str_ascii [OF idPattern_ascii [OF assms(4)]]
    by (auto simp: matches_def norm_user_def)
  ultimately have "verifyPassword rootDir checkHash query (reqPassword req) fs' = (Some (norm_user ?u), fs')"
    using verifyPassword_total [OF inv rd, of checkHash query "reqPassword req" "norm_user ?u"] bcrypt(2) by simp
  then show ?thesis using reg \<open>ID (norm_user ?u) = reqID req\<close> by (simp add: login_verifyPassword)
qed

lemma demo_readable: "readable [''data''] empty_fs"
  by (simp add: readable_def empty_fs_def fs_lookup_def file_above_def)

theorem register_login_witness:
  "\<exists>uid fs'. register [''data''] (\<lambda>p. Some (CHR ''#'' # p)) 7 demo_req empty_fs = (Inr (uid, 0), fs') \<and>
    login [''data''] (\<lambda>h p. h = CHR ''#'' # p) ''A@B.c'' ''pw'' fs' = ((''ann'', True), fs')"
proof -
  have req: "reqID demo_req = ''ann''" "reqPassword demo_req = ''pw''" "reqEmail demo_req = ''a@b.c''"
    by (simp_all add: demo_req_def)
  have "EqualFold ''a@b.c'' ''A@B.c''" by (simp add: EqualFold_def fold_rune_def)
  then show ?thesis
    using register_login [OF demo_facts(1,2) demo_readable demo_facts(3,4), of "\<lambda>p. Some (CHR ''#'' # p)"
      "''#pw''" "\<lambda>h p. h = CHR ''#'' # p" "''A@B.c''" 7, unfolded req demo_facts(5)]
    by (simp add: ascii_def)
qed


definition demo_user :: user where
  "demo_user = zero_user\<lparr>ID := ''bob'', Email := ''b@b.c'', Password := ''#pw'', UID := 1\<rparr>"

definition demo_store :: "user \<Rightarrow> fsys" where
  "demo_store u = snd (writeUser [''data''] u empty_fs)"

definition demo_fs :: fsys where
  "demo_fs = demo_store demo_user"

lemma demo_store_facts:
  assumes "user_ok u" "norm_user u = u"
  shows "store_inv [''data''] (demo_store u)" "readable [''data''] (demo_store u)"
    "u \<in> abs_users [''data''] (demo_store u)" "user_view [''data''] (demo_store u) (Itoa (UID u)) = Some u"
    "abs_users [''data''] (demo_store u) = {u}"
proof -
  have i64: "int64 (UID u)" using assms(1) by (simp add: user_ok_def)
  obtain fs' where wr: "writeUser [''data''] u empty_fs = (Inr (), fs')" and rd: "readable [''data''] fs'"
    by (rule writeUser_total [OF demo_readable i64])
  show inv: "store_inv [''data''] (demo_store u)"
    unfolding demo_store_def using demo_facts(5) by (intro store_inv_writeUser [OF demo_facts(1) assms(1)]) auto
  show "readable [''data''] (demo_store u)" using wr rd by (simp add: demo_store_def)
  show v: "user_view [''data''] (demo_store u) (Itoa (UID u)) = Some u"
    using writeUser_view_Inr [OF wr i64] wr assms(2) by (simp add: demo_store_def)
  show mem: "u \<in> abs_users [''data''] (demo_store u)" using abs_users_at [OF inv] v by simp
  have none: "user_view [''data''] (demo_store u) n = None" if "n \<noteq> Itoa (UID u)" for n
    using writeUser_view_other [OF wr that] wr by (simp add: demo_store_def empty_fs_def user_view_def fs_lookup_def)
  have "w = u" if "w \<in> abs_users [''data''] (demo_store u)" for w
  proof -
    have w: "user_view [''data''] (demo_store u) (Itoa (UID w)) = Some w" using that abs_users_at [OF inv] by blast
    then have "Itoa (UID w) = Itoa (UID u)" using none [of "Itoa (UID w)"] by (metis option.distinct(1))
    with w v show "w = u" by (metis option.inject)
  qed
  with mem show "abs_users [''data''] (demo_store u) = {u}" by blast
qed

lemma demo_user_ok: "user_ok demo_user" "norm_user demo_user = demo_user"
  by (simp_all add: user_ok_def int64_def demo_user_def zero_user_def idPattern_def id_char_def is_alnum_def
      is_lower_def norm_user_def ascii_def)

lemma demo_UID: "UID demo_user = 1" "Itoa 1 = ''1''"
  by (simp add: demo_user_def) code_simp

lemmas demo_fs_facts = demo_store_facts [OF demo_user_ok, folded demo_fs_def, unfolded demo_UID]

theorem login_correct_witness:
  "login [''data''] (\<lambda>h p. h = CHR ''#'' # p) ''B@b.c'' ''pw'' demo_fs = ((''bob'', True), demo_fs)"
proof -
  have "EqualFold ''b@b.c'' ''B@b.c''" by (simp add: EqualFold_def fold_rune_def)
  then have "matches ''B@b.c'' demo_user" by (simp add: matches_def demo_user_def)
  with login_correct [OF demo_fs_facts(1), of "\<lambda>h p. h = CHR ''#'' # p" "''B@b.c''" "''pw''"] demo_fs_facts(2,3)
  show ?thesis by (auto simp: demo_user_def)
qed

section \<open>Resolving an identifier\<close>

lemma distinct_map_filter:
  "distinct xs \<Longrightarrow> (\<And>x y z. f x = Some z \<Longrightarrow> f y = Some z \<Longrightarrow> x = y) \<Longrightarrow> distinct (List.map_filter f xs)"
proof (induction xs)
  case (Cons x xs)
  show ?case
  proof (cases "f x")
    case None
    with Cons show ?thesis by (simp add: map_filter_simps)
  next
    case (Some z)
    have "z \<notin> set (List.map_filter f xs)"
    proof
      assume "z \<in> set (List.map_filter f xs)"
      then obtain y where "y \<in> set xs" "f y = Some z" by (auto simp: List.map_filter_def)
      with Cons.prems(2) [OF Some, of y] Cons.prems(1) show False by auto
    qed
    with Cons Some show ?thesis by (simp add: map_filter_simps)
  qed
qed (simp add: map_filter_simps)

lemma distinct_user_list: "store_inv rootDir fs \<Longrightarrow> distinct (user_list rootDir fs)"
  unfolding user_list_def by (intro distinct_map_filter) (simp, metis store_invD(3))

lemma filter_single:
  "distinct xs \<Longrightarrow> length (filter P xs) = 1 \<longleftrightarrow> (\<exists>x\<in>set xs. P x \<and> (\<forall>y\<in>set xs. P y \<longrightarrow> y = x))"
proof
  assume "distinct xs" "length (filter P xs) = 1"
  then obtain x where "filter P xs = [x]" by (auto simp: length_Suc_conv)
  then have "{y \<in> set xs. P y} = {x}" by (metis list.set(1) list.simps(15) set_filter)
  then show "\<exists>x\<in>set xs. P x \<and> (\<forall>y\<in>set xs. P y \<longrightarrow> y = x)" by blast
next
  assume d: "distinct xs" and "\<exists>x\<in>set xs. P x \<and> (\<forall>y\<in>set xs. P y \<longrightarrow> y = x)"
  then obtain x where "{y \<in> set xs. P y} = {x}" by blast
  then have "card (set (filter P xs)) = 1" by simp
  with d show "length (filter P xs) = 1" by (simp only: distinct_card distinct_filter)
qed

definition resolves :: "user set \<Rightarrow> string \<Rightarrow> user \<Rightarrow> bool" where
  "resolves us ident u \<longleftrightarrow> u \<in> us \<and>
    (ID u = ident \<or>
     (\<forall>v\<in>us. ID v \<noteq> ident) \<and> EqualFold (ID u) ident \<and> (\<forall>v\<in>us. EqualFold (ID v) ident \<longrightarrow> v = u))"

lemma FindByID_loaded:
  assumes inv: "store_inv rootDir fs" and load: "loadUsers rootDir fs = (Inr us, fs1)"
  shows "FindByID rootDir ident fs = (Some a, fs') \<longleftrightarrow>
    fs' = fs1 \<and> (\<exists>u. resolves (abs_users rootDir fs) ident u \<and> a = accountOf u)"
proof -
  have us: "us = user_list rootDir fs" and set: "set us = abs_users rootDir fs"
    using loadUsers_Inr(1) [OF load] store_invD(2) [OF inv] set_user_list by simp_all
  have d: "distinct us" using distinct_user_list [OF inv] us by simp
  have uniq: "u \<in> set us \<Longrightarrow> v \<in> set us \<Longrightarrow> ID u = ID v \<Longrightarrow> u = v" for u v
    using store_unique [OF inv] by (auto simp: set clash_def)
  show ?thesis
  proof (cases "find (\<lambda>u. ID u = ident) us")
    case (Some u)
    with find_SomeD [OF Some] uniq show ?thesis
      by (auto simp: FindByID_def load resolves_def set)
  next
    case None
    then have no: "\<forall>v\<in>set us. ID v \<noteq> ident" by (auto simp: find_None_iff)
    let ?F = "filter (\<lambda>u. EqualFold (ID u) ident) us"
    have one: "length ?F = 1 \<Longrightarrow> last ?F \<in> set us \<and> EqualFold (ID (last ?F)) ident
        \<and> (\<forall>v\<in>set us. EqualFold (ID v) ident \<longrightarrow> v = last ?F)"
    proof -
      assume "length ?F = 1"
      then obtain x where "?F = [x]" by (auto simp: length_Suc_conv)
      then have "last ?F = x" "{y \<in> set us. EqualFold (ID y) ident} = {x}"
        by (simp, metis list.set(1) list.simps(15) set_filter)
      then show ?thesis by blast
    qed
    show ?thesis
      using one filter_single [OF d, of "\<lambda>u. EqualFold (ID u) ident"] no None
      by (auto simp: FindByID_def load resolves_def set Let_def simp del: One_nat_def)
  qed
qed

text \<open>
  Resolving a recipient is exact and never ambiguous. Under any faults an account is
  returned only for a user whose identifier equals the query, or, when no identifier equals
  it, for the only user whose identifier equals it up to letter case; on a readable store
  every such user is found, and an ambiguous query finds nobody. No file changes.
\<close>

lemma FindByID_correct:
  assumes "store_inv rootDir fs"
  shows "(\<forall>a fs'. FindByID rootDir ident fs = (Some a, fs') \<longrightarrow>
        (\<exists>u. resolves (abs_users rootDir fs) ident u \<and> a = accountOf u))
    \<and> (readable rootDir fs \<longrightarrow> (\<forall>a. FindByID rootDir ident fs = (Some a, fs) \<longleftrightarrow>
        (\<exists>u. resolves (abs_users rootDir fs) ident u \<and> a = accountOf u)))
    \<and> (\<forall>u v. resolves (abs_users rootDir fs) ident u \<and> resolves (abs_users rootDir fs) ident v \<longrightarrow> u = v)
    \<and> (\<forall>p. fs_lookup (snd (FindByID rootDir ident fs)) p = fs_lookup fs p)"
proof (intro conjI allI impI)
  fix a fs' assume f: "FindByID rootDir ident fs = (Some a, fs')"
  then obtain us fs1 where "loadUsers rootDir fs = (Inr us, fs1)"
    by (cases "loadUsers rootDir fs") (auto simp: FindByID_def split: sum.splits)
  with f FindByID_loaded [OF assms] show "\<exists>u. resolves (abs_users rootDir fs) ident u \<and> a = accountOf u" by blast
next
  fix a assume "readable rootDir fs"
  with FindByID_loaded [OF assms loadUsers_total [OF _ store_invD(2) [OF assms]]]
  show "FindByID rootDir ident fs = (Some a, fs) \<longleftrightarrow>
    (\<exists>u. resolves (abs_users rootDir fs) ident u \<and> a = accountOf u)" by blast
next
  fix u v assume r: "resolves (abs_users rootDir fs) ident u \<and> resolves (abs_users rootDir fs) ident v"
  then have "ID u = ident \<and> ID v = ident \<or> u = v" unfolding resolves_def by blast
  with r store_unique [OF assms, of u v] show "u = v" unfolding resolves_def clash_def by metis
next
  fix p show "fs_lookup (snd (FindByID rootDir ident fs)) p = fs_lookup fs p"
    using loadUsers_lookup [of rootDir fs p]
    by (auto simp: FindByID_def Let_def split: prod.splits sum.splits option.splits)
qed

section \<open>Reading one record and editing a profile\<close>

lemma readUser_lookup [store_simps]: "fs_lookup (snd (readUser rootDir uid fs)) p = fs_lookup fs p"
  using ReadFile_lookup [of "userPath rootDir uid" fs p]
  by (auto simp: readUser_def split: prod.splits sum.splits oserr.splits option.splits)

lemma readUser_Some: "readUser rootDir uid fs = (Inr (Some u), fs') \<Longrightarrow> user_view rootDir fs (Itoa uid) = Some u"
  by (auto simp: readUser_def user_view_def userPath_eq dest!: ReadFile_Inr
      split: if_splits prod.splits sum.splits oserr.splits option.splits)

lemma readUser_None:
  assumes "readUser rootDir uid fs = (Inr None, fs')" "store_inv rootDir fs"
  shows "user_view rootDir fs (Itoa uid) = None"
proof (cases "uid < 1")
  case True
  show ?thesis
  proof (rule ccontr)
    assume "user_view rootDir fs (Itoa uid) \<noteq> None"
    then obtain u where "user_view rootDir fs (Itoa uid) = Some u" by blast
    from store_invD(3) [OF assms(2) this] have "Itoa uid = Itoa (UID u)" "1 \<le> UID u" by (auto simp: user_ok_def)
    with Itoa_inj [of uid "UID u"] True show False by simp
  qed
next
  case False
  with assms(1) have "ReadFile (userPath rootDir uid) fs = (Inl NotExist, fs')"
    by (auto simp: readUser_def split: prod.splits sum.splits oserr.splits option.splits)
  from ReadFile_NotExist [OF this] show ?thesis by (simp add: user_view_def userPath_eq)
qed

lemma readUser_total:
  assumes "store_inv rootDir fs" "readable rootDir fs"
  shows "readUser rootDir uid fs = (Inr (user_view rootDir fs (Itoa uid)), fs)"
proof (cases "uid < 1")
  case True
  then have "readUser rootDir uid fs = (Inr None, fs)" by (simp add: readUser_def)
  with readUser_None [OF _ assms(1)] show ?thesis by simp
next
  case False
  have fl: "faults fs = []" using assms(2) by (simp add: readable_def)
  have "decode_user c \<noteq> None" if "fs_lookup fs (rootDir @ [Itoa uid, ''user.json'']) = Some (File c)" for c
    using assms(2) that unfolding readable_def by blast
  then show ?thesis
    using False assms(2) readable_above(2) [OF assms(2), of "Itoa uid"]
    by (auto simp: readUser_def user_view_def userPath_eq ReadFile_ok [OF fl] missing_def readable_def
        split: option.splits node.splits) (metis option.distinct(1))
qed

definition merged :: "user \<Rightarrow> (string \<times> goval) list \<Rightarrow> user" where
  "merged target updates =
    target\<lparr>Profile := Some (foldl (\<lambda>m (k, v). AList.update k v m)
      (case Profile target of None \<Rightarrow> [] | Some m \<Rightarrow> m) updates)\<rparr>"

text \<open>A record that keeps its identity may be rewritten.\<close>

lemma store_inv_rewrite:
  assumes inv: "store_inv rootDir fs" and u: "user_view rootDir fs n = Some u"
    and same: "UID u' = UID u" "ID u' = ID u" "Email u' = Email u"
    and look: "\<And>p. fs_lookup fs1 p = fs_lookup fs p"
  shows "store_inv rootDir (snd (writeUser rootDir u' fs1))"
proof (rule store_inv_writeUser)
  show "store_inv rootDir fs1" using store_inv_cong [OF look] inv by simp
  show "user_ok u'" using store_invD(3) [OF inv u] same by (simp add: user_ok_def)
  fix v assume v: "v \<in> abs_users rootDir fs1" "UID v \<noteq> UID u'"
  have vv: "user_view rootDir fs (Itoa (UID v)) = Some v"
    using v(1) abs_users_at [OF \<open>store_inv rootDir fs1\<close>] user_view_cong [OF look] by simp
  have "n = Itoa (UID u)" using store_invD(3) [OF inv u] by simp
  with v(2) same Itoa_inj [of "UID u" "UID v"] have "n \<noteq> Itoa (UID v)" by auto
  from store_invD(4) [OF inv u vv this] show "\<not> clash u' v" using same by (simp add: clash_def)
qed

lemma updateProfile_cases:
  assumes "updateProfile rootDir issuer now uid token updates fs = (r, fs')"
  obtains (unchanged) "\<forall>p. fs_lookup fs' p = fs_lookup fs p"
      "r = Inr () \<Longrightarrow> updates = [] \<and> (\<exists>t. user_view rootDir fs (Itoa uid) = Some t \<and> Verify issuer now token = (ID t, True))"
    | (stored) target fs1 where "user_view rootDir fs (Itoa uid) = Some target"
      "Verify issuer now token = (ID target, True)" "updates \<noteq> []" "\<And>p. fs_lookup fs1 p = fs_lookup fs p"
      "writeUser rootDir (merged target updates) fs1 = (r, fs')"
proof -
  obtain r1 fs1 where rd: "readUser rootDir uid fs = (r1, fs1)" by fastforce
  have look: "fs_lookup fs1 p = fs_lookup fs p" for p using readUser_lookup [of rootDir uid fs p] rd by simp
  show ?thesis
  proof (cases "\<exists>t. r1 = Inr (Some t) \<and> Verify issuer now token = (ID t, True)")
    case True
    then obtain t where t: "r1 = Inr (Some t)" "Verify issuer now token = (ID t, True)" by blast
    note v = readUser_Some [OF rd [unfolded t(1)]]
    show ?thesis
    proof (cases "updates = []")
      case True
      then show ?thesis using assms rd t v look by (intro unchanged) (auto simp: updateProfile_def)
    next
      case False
      then have "writeUser rootDir (merged t updates) fs1 = (r, fs')"
        using assms rd t by (simp add: updateProfile_def merged_def Let_def)
      with False v t look show ?thesis by (intro stored)
    qed
  next
    case False
    then show ?thesis using assms rd look
      by (intro unchanged) (auto simp: updateProfile_def split: sum.splits option.splits prod.splits if_splits)
  qed
qed

text \<open>Editing a profile needs the owner's token and touches one record.\<close>

lemma updateProfile_correct:
  assumes inv: "store_inv rootDir fs"
    and up: "updateProfile rootDir issuer now uid token updates fs = (r, fs')"
  shows "store_inv rootDir fs'
    \<and> (\<forall>n. n \<noteq> Itoa uid \<longrightarrow> user_view rootDir fs' n = user_view rootDir fs n)
    \<and> (r = Inr () \<longrightarrow> (\<exists>target. user_view rootDir fs (Itoa uid) = Some target
          \<and> Verify issuer now token = (ID target, True)
          \<and> user_view rootDir fs' (Itoa uid) =
              Some (if updates = [] then target else norm_user (merged target updates))))
    \<and> ((\<forall>target. user_view rootDir fs (Itoa uid) = Some target \<longrightarrow> Verify issuer now token \<noteq> (ID target, True)) \<longrightarrow>
          r \<noteq> Inr () \<and> (\<forall>p. fs_lookup fs' p = fs_lookup fs p))"
  using up
proof (cases rule: updateProfile_cases)
  case unchanged
  have v: "user_view rootDir fs' = user_view rootDir fs" by (rule user_view_cong) (use unchanged(1) in blast)
  have "store_inv rootDir fs'" using store_inv_cong [of fs' fs rootDir] unchanged(1) inv by blast
  moreover have "r = Inr () \<Longrightarrow> \<exists>t. user_view rootDir fs (Itoa uid) = Some t \<and> Verify issuer now token = (ID t, True)"
    "r = Inr () \<Longrightarrow> updates = []" using unchanged(2) by blast+
  ultimately show ?thesis unfolding v using unchanged(1) by simp blast
next
  case (stored target fs1)
  let ?u = "merged target updates"
  have uid: "UID target = uid" "int64 uid"
    using store_invD(3) [OF inv stored(1)] Itoa_inj [of uid "UID target"] by (auto simp: user_ok_def)
  have m: "UID ?u = UID target" "ID ?u = ID target" "Email ?u = Email target" by (simp_all add: merged_def)
  have "store_inv rootDir fs'" using store_inv_rewrite [OF inv stored(1) m stored(4)] stored(5) by simp
  moreover have "n \<noteq> Itoa uid \<Longrightarrow> user_view rootDir fs' n = user_view rootDir fs n" for n
    using writeUser_view_other [OF stored(5)] m uid user_view_cong [OF stored(4)] by simp
  moreover have "r = Inr () \<Longrightarrow> user_view rootDir fs' (Itoa uid) = Some (norm_user ?u)"
    using writeUser_view_Inr [of rootDir ?u fs1 "()" fs'] stored(5) m uid by simp
  ultimately show ?thesis using stored(1,2,3) by simp
qed

definition demo_issuer :: TokenIssuer where
  "demo_issuer = NewTokenIssuer ''s'' 3600"

definition demo_token :: string where
  "demo_token = Issue demo_issuer 1000 ''bob''"

lemma demo_Verify: "Verify demo_issuer 1500 demo_token = (''bob'', True)"
  unfolding demo_token_def Issue_token_of
  by (rule Verify_complete [of _ _ 1000])
    (simp_all add: ParseInt_Itoa int64_def fresh_def demo_issuer_def NewTokenIssuer_def idPattern_def id_char_def
      is_alnum_def is_lower_def)

lemma demo_update:
  assumes "updates \<noteq> []"
  obtains fs' where "updateProfile [''data''] demo_issuer 1500 1 demo_token updates demo_fs = (Inr (), fs')"
proof -
  have rd: "readUser [''data''] 1 demo_fs = (Inr (Some demo_user), demo_fs)"
    using readUser_total [OF demo_fs_facts(1,2), of 1] demo_fs_facts(4) by (simp add: demo_UID)
  obtain fs' where "writeUser [''data''] (merged demo_user updates) demo_fs = (Inr (), fs')"
    by (rule writeUser_total [OF demo_fs_facts(2), of "merged demo_user updates"])
      (simp add: merged_def demo_user_def int64_def)
  moreover have "ID demo_user = ''bob''" by (simp add: demo_user_def)
  ultimately have "updateProfile [''data''] demo_issuer 1500 1 demo_token updates demo_fs = (Inr (), fs')"
    using assms by (simp add: updateProfile_def rd demo_Verify merged_def Let_def)
  then show ?thesis by (rule that)
qed

section \<open>The interface the mail server depends on\<close>

text \<open>
  The Go interface \<^verbatim>\<open>Accounts\<close>: its three methods, the accounts a state knows and the states
  it is meant for. Both lookups only read, return known accounts, and directories of
  different accounts never overlap.
\<close>

locale user_dirs =
  fixes userDir :: "int \<Rightarrow> path"
  assumes dirs_apart: "uid \<noteq> uid' \<Longrightarrow> \<not> prefix (userDir uid) (userDir uid' @ rest)"

locale accounts = user_dirs userDir for userDir :: "int \<Rightarrow> path" +
  fixes authenticate :: "string \<Rightarrow> string \<Rightarrow> 's \<Rightarrow> Account option \<times> 's"
    and findByID :: "string \<Rightarrow> 's \<Rightarrow> Account option \<times> 's"
    and known :: "'s \<Rightarrow> Account set"
    and good :: "'s \<Rightarrow> bool"
  assumes authenticate_known: "good s \<Longrightarrow> authenticate query pass s = (Some a, s') \<Longrightarrow> a \<in> known s"
    and find_known: "good s \<Longrightarrow> findByID ident s = (Some a, s') \<Longrightarrow> a \<in> known s \<and> EqualFold (acctID a) ident"
    and reads_good: "good s \<Longrightarrow> good (snd (authenticate query pass s)) \<and> good (snd (findByID ident s))"
    and reads_known: "known (snd (authenticate query pass s)) = known s" "known (snd (findByID ident s)) = known s"
    and known_valid: "good s \<Longrightarrow> a \<in> known s \<Longrightarrow> idPattern (acctID a) \<and> 1 \<le> acctUID a"
    and known_unique: "good s \<Longrightarrow> a \<in> known s \<Longrightarrow> b \<in> known s \<Longrightarrow> acctUID a = acctUID b \<or> acctID a = acctID b \<Longrightarrow> a = b"
begin

text \<open>The directory of an account determines it.\<close>

lemma dir_account:
  assumes "good s" "a \<in> known s" "b \<in> known s" "prefix (userDir (acctUID a)) (userDir (acctUID b) @ rest)"
  shows "a = b"
  using assms dirs_apart known_unique by blast

lemma find_valid:
  "good s \<Longrightarrow> findByID ident s = (Some a, s') \<Longrightarrow> idPattern (acctID a) \<and> 1 \<le> acctUID a \<and> good s' \<and> a \<in> known s'"
  using find_known [of s ident a s'] known_valid [of s a] reads_good [of s "[]" "[]" ident]
    reads_known(2) [of ident s] by simp

end

lemma Authenticate_Some:
  "Authenticate rootDir checkHash query pass fs = (Some a, fs') \<longleftrightarrow>
   (\<exists>u. verifyPassword rootDir checkHash query pass fs = (Some u, fs') \<and> a = accountOf u)"
  by (auto simp: Authenticate_def split: prod.splits option.splits)

lemma Authenticate_lookup [store_simps]:
  "fs_lookup (snd (Authenticate rootDir checkHash query pass fs)) p = fs_lookup fs p"
  using verifyPassword_lookup [of rootDir checkHash query pass fs p]
  by (auto simp: Authenticate_def split: prod.splits option.splits)

lemma FindByID_lookup [store_simps]: "fs_lookup (snd (FindByID rootDir ident fs)) p = fs_lookup fs p"
  using loadUsers_lookup [of rootDir fs p]
  by (auto simp: FindByID_def Let_def split: prod.splits sum.splits option.splits)

lemma FindByID_resolves:
  assumes "store_inv rootDir fs" "FindByID rootDir ident fs = (Some a, fs')"
  shows "\<exists>u. resolves (abs_users rootDir fs) ident u \<and> a = accountOf u"
proof -
  obtain us fs1 where "loadUsers rootDir fs = (Inr us, fs1)"
    using assms(2) by (cases "loadUsers rootDir fs") (auto simp: FindByID_def split: sum.splits)
  with FindByID_loaded [OF assms(1)] assms(2) show ?thesis by blast
qed

definition known_accounts :: "path \<Rightarrow> fsys \<Rightarrow> Account set" where
  "known_accounts rootDir fs = accountOf ` abs_users rootDir fs"

lemma known_accounts_cong: "(\<And>p. fs_lookup fs' p = fs_lookup fs p) \<Longrightarrow> known_accounts rootDir fs' = known_accounts rootDir fs"
  using user_view_cong [of fs' fs] by (simp add: known_accounts_def abs_users_def)

lemma UserDir_apart: "uid \<noteq> uid' \<Longrightarrow> \<not> prefix (UserDir rootDir uid) (UserDir rootDir uid' @ rest)"
  using Itoa_inj by (auto simp: UserDir_eq)

interpretation user_accounts: accounts "UserDir rootDir" "Authenticate rootDir checkHash" "FindByID rootDir"
  "known_accounts rootDir" "store_inv rootDir" for rootDir checkHash
proof
  fix uid uid' :: int and rest assume "uid \<noteq> uid'"
  then show "\<not> prefix (UserDir rootDir uid) (UserDir rootDir uid' @ rest)" by (rule UserDir_apart)
next
  fix s query pass a s' assume "store_inv rootDir s" "Authenticate rootDir checkHash query pass s = (Some a, s')"
  then show "a \<in> known_accounts rootDir s"
    using verifyPassword_Some store_invD(2) unfolding Authenticate_Some known_accounts_def by blast
next
  fix s ident a s' assume "store_inv rootDir s" "FindByID rootDir ident s = (Some a, s')"
  then obtain u where "resolves (abs_users rootDir s) ident u" "a = accountOf u" using FindByID_resolves by blast
  then show "a \<in> known_accounts rootDir s \<and> EqualFold (acctID a) ident"
    by (auto simp: known_accounts_def resolves_def accountOf_def)
next
  fix s query pass ident assume "store_inv rootDir s"
  then show "store_inv rootDir (snd (Authenticate rootDir checkHash query pass s)) \<and>
      store_inv rootDir (snd (FindByID rootDir ident s))"
    using store_inv_cong [of _ s] Authenticate_lookup FindByID_lookup by blast
next
  fix query pass s show "known_accounts rootDir (snd (Authenticate rootDir checkHash query pass s)) = known_accounts rootDir s"
    by (rule known_accounts_cong) (rule Authenticate_lookup)
next
  fix ident s show "known_accounts rootDir (snd (FindByID rootDir ident s)) = known_accounts rootDir s"
    by (rule known_accounts_cong) (rule FindByID_lookup)
next
  fix s a assume inv: "store_inv rootDir s" and "a \<in> known_accounts rootDir s"
  then obtain u where u: "u \<in> abs_users rootDir s" "a = accountOf u" by (auto simp: known_accounts_def)
  then have "user_ok u" using abs_users_at [OF inv, of u] store_invD(3) [OF inv] by blast
  with u(2) show "idPattern (acctID a) \<and> 1 \<le> acctUID a" by (simp add: accountOf_def user_ok_def)
next
  fix s a b assume inv: "store_inv rootDir s" and "a \<in> known_accounts rootDir s" "b \<in> known_accounts rootDir s"
    and eq: "acctUID a = acctUID b \<or> acctID a = acctID b"
  then obtain u v where uv: "u \<in> abs_users rootDir s" "v \<in> abs_users rootDir s" "a = accountOf u" "b = accountOf v"
    by (auto simp: known_accounts_def)
  from eq uv(3,4) have "UID u = UID v \<or> ID u = ID v" by (simp add: accountOf_def)
  then have "u = v"
  proof
    assume "UID u = UID v"
    then show "u = v" using uv(1,2) abs_users_at [OF inv, of u] abs_users_at [OF inv, of v] by simp
  next
    assume "ID u = ID v"
    then show "u = v" by (intro store_unique [OF inv uv(1,2)]) (simp add: clash_def)
  qed
  with uv show "a = b" by simp
qed

end
