(* ===== verification/AuthHandlers.thy ===== *)
theory AuthHandlers
  imports UserStore
begin

text \<open>
  The HTTP handlers of \<^verbatim>\<open>auth/auth.go\<close> and \<^verbatim>\<open>auth/profile.go\<close>: registration, login,
  profile editing and profile viewing. A request body is a JSON document, or
  nothing when it does not parse; a response is its status code with the object
  written to the client. Each handler is a function from the body and the file
  system to a response and the file system after it. \<^verbatim>\<open>mail.ParseAddress\<close> is an
  argument (the address it extracts, or an error), so the theorems hold for every
  parser.
\<close>

section \<open>Requests and responses\<close>

record response =
  respCode :: nat
  respBody :: "(string \<times> goval) list"

definition c_JSON :: "nat \<Rightarrow> (string \<times> goval) list \<Rightarrow> response" where
  "c_JSON n kvs = \<lparr>respCode = n, respBody = (''status'', VInt64 (int n)) # kvs\<rparr>"

text \<open>\<^verbatim>\<open>c.ShouldBindJSON\<close> into a struct.\<close>

definition ShouldBindJSON :: "(string \<Rightarrow> json \<Rightarrow> 'a \<Rightarrow> 'a option) \<Rightarrow> 'a \<Rightarrow> json option \<Rightarrow> 'a option" where
  "ShouldBindJSON field zero doc = (case doc of None \<Rightarrow> None | Some j \<Rightarrow> dec_object field zero j)"

definition registerRequest_field :: "string \<Rightarrow> json \<Rightarrow> registerRequest \<Rightarrow> registerRequest option" where
  "registerRequest_field k j r =
    (if field_is ''username'' k then map_option (\<lambda>s. r\<lparr>reqUsername := s\<rparr>) (dec_string j (reqUsername r))
     else if field_is ''id'' k then map_option (\<lambda>s. r\<lparr>reqID := s\<rparr>) (dec_string j (reqID r))
     else if field_is ''email'' k then map_option (\<lambda>s. r\<lparr>reqEmail := s\<rparr>) (dec_string j (reqEmail r))
     else if field_is ''password'' k then map_option (\<lambda>s. r\<lparr>reqPassword := s\<rparr>) (dec_string j (reqPassword r))
     else Some r)"

record loginRequest =
  lrQuery :: string
  lrPassword :: string

definition loginRequest_field :: "string \<Rightarrow> json \<Rightarrow> loginRequest \<Rightarrow> loginRequest option" where
  "loginRequest_field k j r =
    (if field_is ''query'' k then map_option (\<lambda>s. r\<lparr>lrQuery := s\<rparr>) (dec_string j (lrQuery r))
     else if field_is ''password'' k then map_option (\<lambda>s. r\<lparr>lrPassword := s\<rparr>) (dec_string j (lrPassword r))
     else Some r)"

record profileEntry =
  entryKey :: goval
  entryValue :: goval

definition profileEntry_field :: "string \<Rightarrow> json \<Rightarrow> profileEntry \<Rightarrow> profileEntry option" where
  "profileEntry_field k j r =
    (if field_is ''key'' k then Some (r\<lparr>entryKey := unmarshal_val j\<rparr>)
     else if field_is ''value'' k then Some (r\<lparr>entryValue := unmarshal_val j\<rparr>)
     else Some r)"

record profileEditRequest =
  editUID :: int
  editToken :: string
  editContent :: "profileEntry list"

definition dec_entries :: "json \<Rightarrow> profileEntry list \<Rightarrow> profileEntry list option" where
  "dec_entries j old =
    (case j of
       JArr js \<Rightarrow> those (map (dec_object profileEntry_field \<lparr>entryKey = VNil, entryValue = VNil\<rparr>) js)
     | JNull \<Rightarrow> Some []
     | _ \<Rightarrow> None)"

definition profileEditRequest_field :: "string \<Rightarrow> json \<Rightarrow> profileEditRequest \<Rightarrow> profileEditRequest option" where
  "profileEditRequest_field k j r =
    (if field_is ''UID'' k then map_option (\<lambda>n. r\<lparr>editUID := n\<rparr>) (dec_int j (editUID r))
     else if field_is ''token'' k then map_option (\<lambda>s. r\<lparr>editToken := s\<rparr>) (dec_string j (editToken r))
     else if field_is ''content'' k then map_option (\<lambda>c. r\<lparr>editContent := c\<rparr>) (dec_entries j (editContent r))
     else Some r)"

record profileViewRequest =
  viewUID :: int
  viewToken :: string

definition profileViewRequest_field :: "string \<Rightarrow> json \<Rightarrow> profileViewRequest \<Rightarrow> profileViewRequest option" where
  "profileViewRequest_field k j r =
    (if field_is ''UID'' k then map_option (\<lambda>n. r\<lparr>viewUID := n\<rparr>) (dec_int j (viewUID r))
     else if field_is ''token'' k then map_option (\<lambda>s. r\<lparr>viewToken := s\<rparr>) (dec_string j (viewToken r))
     else Some r)"

section \<open>Registration and login\<close>

definition validateRegister :: "(string \<Rightarrow> string option) \<Rightarrow> registerRequest \<Rightarrow> nat" where
  "validateRegister parseAddress req =
    (if reqUsername req = [] \<or> ContainsAny (reqUsername req) [CHR 0x0D, CHR 0x0A] then 1
     else if \<not> idPattern (reqID req) then 2
     else if parseAddress (reqEmail req) \<noteq> Some (reqEmail req) \<or> CHR ''@'' \<notin> set (reqEmail req) then 3
     else if \<not> pwdPattern (reqPassword req) then 4
     else 0)"

definition RegisterHandler :: "path \<Rightarrow> (string \<Rightarrow> string option) \<Rightarrow> (string \<Rightarrow> string option) \<Rightarrow> string
    \<Rightarrow> int \<Rightarrow> json option \<Rightarrow> fsys \<Rightarrow> response \<times> fsys" where
  "RegisterHandler rootDir parseAddress hashPassword mailDomain now doc fs =
    (case ShouldBindJSON registerRequest_field
            \<lparr>reqUsername = [], reqID = [], reqEmail = [], reqPassword = []\<rparr> doc of
       None \<Rightarrow> (c_JSON 400 [(''err'', VInt64 0)], fs)
     | Some req \<Rightarrow>
         let errCode = validateRegister parseAddress req
         in if errCode \<noteq> 0 then (c_JSON 400 [(''err'', VInt64 (int errCode))], fs)
         else (case register rootDir hashPassword now req fs of
             (Inl _, fs') \<Rightarrow> (c_JSON 500 [], fs')
           | (Inr (uid, code), fs') \<Rightarrow>
               if code \<noteq> 0 then (c_JSON 400 [(''err'', VInt64 (int code))], fs')
               else if mailDomain = [] then (c_JSON 201 [(''UID'', VInt64 uid)], fs')
               else (c_JSON 201 [(''UID'', VInt64 uid), (''mail'', VString (reqID req @ ''@'' @ mailDomain))], fs')))"

definition LoginHandler :: "path \<Rightarrow> (string \<Rightarrow> string \<Rightarrow> bool) \<Rightarrow> TokenIssuer
    \<Rightarrow> int \<Rightarrow> json option \<Rightarrow> fsys \<Rightarrow> response \<times> fsys" where
  "LoginHandler rootDir checkHash issuer now doc fs =
    (case ShouldBindJSON loginRequest_field \<lparr>lrQuery = [], lrPassword = []\<rparr> doc of
       None \<Rightarrow> (c_JSON 400 [], fs)
     | Some req \<Rightarrow>
         if lrQuery req = [] \<or> lrPassword req = [] then (c_JSON 400 [], fs)
         else (case login rootDir checkHash (lrQuery req) (lrPassword req) fs of ((ident, ok), fs') \<Rightarrow>
           if \<not> ok then (c_JSON 400 [], fs')
           else (c_JSON 200 [(''token'', VString (Issue issuer now ident))], fs')))"

section \<open>Profiles\<close>

text \<open>The loop over the requested changes: the rejected keys and the map of updates.\<close>

fun split_entries :: "ProfileSchema \<Rightarrow> profileEntry list \<Rightarrow> goval list \<Rightarrow> (string \<times> goval) list
    \<Rightarrow> goval list \<times> (string \<times> goval) list" where
  "split_entries schema [] invalid updates = (invalid, updates)"
| "split_entries schema (e # es) invalid updates =
    (case entryKey e of
       VString key \<Rightarrow>
         if accepts schema key (entryValue e)
         then split_entries schema es invalid (AList.update key (entryValue e) updates)
         else split_entries schema es (invalid @ [entryKey e]) updates
     | _ \<Rightarrow> split_entries schema es (invalid @ [entryKey e]) updates)"

definition ProfileEditHandler :: "path \<Rightarrow> TokenIssuer \<Rightarrow> ProfileSchema
    \<Rightarrow> int \<Rightarrow> json option \<Rightarrow> fsys \<Rightarrow> response \<times> fsys" where
  "ProfileEditHandler rootDir issuer schema now doc fs =
    (case ShouldBindJSON profileEditRequest_field \<lparr>editUID = 0, editToken = [], editContent = []\<rparr> doc of
       None \<Rightarrow> (c_JSON 400 [], fs)
     | Some req \<Rightarrow>
         (case split_entries schema (editContent req) [] [] of (invalid, updates) \<Rightarrow>
          if invalid \<noteq> [] then (c_JSON 400 [(''invalid'', VSlice invalid)], fs)
          else (case updateProfile rootDir issuer now (editUID req) (editToken req) updates fs of
              (Inl e, fs') \<Rightarrow> if e = errProfileDenied then (c_JSON 400 [], fs') else (c_JSON 500 [], fs')
            | (Inr _, fs') \<Rightarrow> (c_JSON 200 [], fs'))))"

definition view_content :: "ProfileSchema \<Rightarrow> bool \<Rightarrow> user \<Rightarrow> (string \<times> goval) list" where
  "view_content schema authenticated target =
    filter (\<lambda>(key, value). visible schema key authenticated)
      (case Profile target of None \<Rightarrow> [] | Some m \<Rightarrow> m)"

definition ProfileViewHandler :: "path \<Rightarrow> TokenIssuer \<Rightarrow> ProfileSchema
    \<Rightarrow> int \<Rightarrow> json option \<Rightarrow> fsys \<Rightarrow> response \<times> fsys" where
  "ProfileViewHandler rootDir issuer schema now doc fs =
    (case ShouldBindJSON profileViewRequest_field \<lparr>viewUID = 0, viewToken = []\<rparr> doc of
       None \<Rightarrow> (c_JSON 400 [], fs)
     | Some req \<Rightarrow>
         (case readUser rootDir (viewUID req) fs of
            (Inl _, fs') \<Rightarrow> (c_JSON 500 [], fs')
          | (Inr None, fs') \<Rightarrow> (c_JSON 400 [], fs')
          | (Inr (Some target), fs') \<Rightarrow>
              let authenticated = (viewToken req \<noteq> [] \<and> Verify issuer now (viewToken req) = (ID target, True))
              in (c_JSON 200 [(''content'', VMap (view_content schema authenticated target))], fs')))"

section \<open>Registration and login: what the handlers do\<close>

definition bind_register :: "json option \<Rightarrow> registerRequest option" where
  "bind_register = ShouldBindJSON registerRequest_field \<lparr>reqUsername = [], reqID = [], reqEmail = [], reqPassword = []\<rparr>"

lemma c_JSON_code [simp]: "respCode (c_JSON n kvs) = n"
  by (simp add: c_JSON_def)

lemma validateRegister_0:
  "validateRegister parseAddress req = 0 \<longleftrightarrow>
    reqUsername req \<noteq> [] \<and> \<not> ContainsAny (reqUsername req) [CHR 0x0D, CHR 0x0A] \<and> idPattern (reqID req)
    \<and> parseAddress (reqEmail req) = Some (reqEmail req) \<and> CHR ''@'' \<in> set (reqEmail req) \<and> pwdPattern (reqPassword req)"
  by (auto simp: validateRegister_def)

lemma RegisterHandler_cases:
  assumes "RegisterHandler rootDir parseAddress hashPassword mailDomain now doc fs = (resp, fs')"
  obtains (refused) "respCode resp = 400" "fs' = fs"
    | (called) req r where "bind_register doc = Some req" "validateRegister parseAddress req = 0"
        "register rootDir hashPassword now req fs = (r, fs')"
        "resp = (case r of Inl _ \<Rightarrow> c_JSON 500 []
           | Inr (uid, code) \<Rightarrow>
               if code \<noteq> 0 then c_JSON 400 [(''err'', VInt64 (int code))]
               else c_JSON 201 ((''UID'', VInt64 uid) #
                 (if mailDomain = [] then [] else [(''mail'', VString (reqID req @ ''@'' @ mailDomain))])))"
proof (cases "bind_register doc")
  case None
  then show ?thesis using assms by (intro refused) (auto simp: RegisterHandler_def bind_register_def)
next
  case (Some req)
  show ?thesis
  proof (cases "validateRegister parseAddress req = 0")
    case False
    then show ?thesis using assms Some
      by (intro refused) (auto simp: RegisterHandler_def bind_register_def Let_def)
  next
    case True
    obtain r fs1 where r: "register rootDir hashPassword now req fs = (r, fs1)" by fastforce
    show ?thesis using assms Some True r
      by (intro called [of req r])
        (auto simp: RegisterHandler_def bind_register_def Let_def split: sum.splits prod.splits if_splits)
  qed
qed

lemma RegisterHandler_inv:
  assumes "store_inv rootDir fs" "uid_room rootDir fs"
  shows "store_inv rootDir (snd (RegisterHandler rootDir parseAddress hashPassword mailDomain now doc fs))"
proof -
  obtain resp fs' where h: "RegisterHandler rootDir parseAddress hashPassword mailDomain now doc fs = (resp, fs')"
    by fastforce
  then show ?thesis
  proof (cases rule: RegisterHandler_cases)
    case refused
    with assms(1) h show ?thesis by simp
  next
    case (called req r)
    with register_inv [OF assms, of req hashPassword now] h show ?thesis by (simp add: validateRegister_0)
  qed
qed


definition demo_doc :: json where
  "demo_doc = JObj [(''username'', JStr ''Ann''), (''id'', JStr ''ann''), (''Email'', JStr ''a@b.c''), (''password'', JStr ''pw'')]"

lemma demo_bind: "bind_register (Some demo_doc) = Some demo_req"
  by (simp add: bind_register_def ShouldBindJSON_def demo_doc_def demo_req_def dec_object_def
      registerRequest_field_def field_is_def EqualFold_def fold_rune_def)

lemma demo_valid: "validateRegister Some demo_req = 0"
  by (simp add: validateRegister_0 demo_facts(3,4))
    (simp add: demo_req_def ContainsAny_def pwdPattern_def id_char_def is_alnum_def is_lower_def)


text \<open>
  C12. A login answer carries a usable token of the right user: a 200 answer implies that a
  stored user matches the query and accepts the password, and that the token in the answer
  verifies to exactly that user's identifier at every time within the validity window; no
  file changes.
\<close>

theorem LoginHandler_token:
  assumes "store_inv rootDir fs" "0 \<le> now" "now \<le> later" "int64 later" "later - now < validSecs issuer"
    "LoginHandler rootDir checkHash issuer now doc fs = (resp, fs')" "respCode resp = 200"
  shows "\<exists>req u tok. ShouldBindJSON loginRequest_field \<lparr>lrQuery = [], lrPassword = []\<rparr> doc = Some req
     \<and> u \<in> abs_users rootDir fs \<and> matches (lrQuery req) u \<and> checkHash (Password u) (lrPassword req)
     \<and> resp = c_JSON 200 [(''token'', VString tok)] \<and> Verify issuer later tok = (ID u, True)
     \<and> (\<forall>p. fs_lookup fs' p = fs_lookup fs p)"
proof -
  let ?zero = "\<lparr>lrQuery = [], lrPassword = []\<rparr>"
  from assms(6,7) obtain req ident where req: "ShouldBindJSON loginRequest_field ?zero doc = Some req"
    and lg: "login rootDir checkHash (lrQuery req) (lrPassword req) fs = ((ident, True), fs')"
    and resp: "resp = c_JSON 200 [(''token'', VString (Issue issuer now ident))]"
    by (auto simp: LoginHandler_def split: option.splits if_splits prod.splits)
  from lg obtain u where vp: "verifyPassword rootDir checkHash (lrQuery req) (lrPassword req) fs = (Some u, fs')"
    and ident: "ident = ID u" by (auto simp: login_verifyPassword split: prod.splits option.splits)
  note u = verifyPassword_Some [OF vp store_invD(2) [OF assms(1)]]
  have "idPattern (ID u)" using u abs_users_at [OF assms(1)] store_invD(3) [OF assms(1)] by (auto simp: user_ok_def)
  moreover have "int64 now" "int64 (later - now)" using assms(2,3,4) by (auto simp: int64_def)
  ultimately have "Verify issuer later (Issue issuer now ident) = (ID u, True)"
    unfolding Issue_token_of ident using assms(3,5)
    by (intro Verify_complete [of _ _ now]) (simp_all add: ParseInt_Itoa fresh_window)
  then show ?thesis
    using u req resp verifyPassword_lookup [of rootDir checkHash "lrQuery req" "lrPassword req" fs] vp by auto
qed

definition demo_login :: json where
  "demo_login = JObj [(''query'', JStr ''bob''), (''password'', JStr ''pw'')]"

definition demo_check :: "string \<Rightarrow> string \<Rightarrow> bool" where
  "demo_check h p \<longleftrightarrow> h = CHR ''#'' # p"

lemma demo_verifyPassword: "verifyPassword [''data''] demo_check ''bob'' ''pw'' demo_fs = (Some demo_user, demo_fs)"
  using verifyPassword_total [OF demo_fs_facts(1,2)] demo_fs_facts(3)
  by (simp add: matches_def demo_check_def) (simp add: demo_user_def)

theorem LoginHandler_token_witness:
  "\<exists>tok. LoginHandler [''data''] demo_check demo_issuer 1000 (Some demo_login) demo_fs
      = (c_JSON 200 [(''token'', VString tok)], demo_fs) \<and> Verify demo_issuer 1500 tok = (''bob'', True)"
proof -
  have bind: "ShouldBindJSON loginRequest_field \<lparr>lrQuery = [], lrPassword = []\<rparr> (Some demo_login) =
      Some \<lparr>lrQuery = ''bob'', lrPassword = ''pw''\<rparr>"
    by (simp add: ShouldBindJSON_def demo_login_def dec_object_def loginRequest_field_def field_is_def
        EqualFold_def fold_rune_def)
  have lg: "LoginHandler [''data''] demo_check demo_issuer 1000 (Some demo_login) demo_fs =
      (c_JSON 200 [(''token'', VString (Issue demo_issuer 1000 (ID demo_user)))], demo_fs)"
    by (simp add: LoginHandler_def bind login_verifyPassword demo_verifyPassword)
  have "(0::int) \<le> 1000" "(1000::int) \<le> 1500" "int64 1500" "1500 - 1000 < validSecs demo_issuer"
    by (simp_all add: int64_def demo_issuer_def NewTokenIssuer_def)
  from LoginHandler_token [OF demo_fs_facts(1) this lg] obtain u tok where
    u: "u \<in> abs_users [''data''] demo_fs" "matches ''bob'' u"
    and tok: "c_JSON 200 [(''token'', VString (Issue demo_issuer 1000 (ID demo_user)))] = c_JSON 200 [(''token'', VString tok)]"
    "Verify demo_issuer 1500 tok = (ID u, True)"
    by (auto simp: bind)
  have "u = demo_user"
    by (rule matches_unique [OF demo_fs_facts(1) u demo_fs_facts(3)]) (simp add: matches_def demo_user_def)
  then show ?thesis using lg tok by (auto simp: demo_user_def c_JSON_def)
qed

section \<open>Profiles: what the handlers do\<close>

lemma split_entries_valid:
  "split_entries schema es invalid updates = ([], updates') \<Longrightarrow>
   invalid = [] \<and> (\<forall>e\<in>set es. \<exists>k. entryKey e = VString k \<and> accepts schema k (entryValue e))"
  by (induction schema es invalid updates rule: split_entries.induct) (auto split: goval.splits if_splits)

lemma split_entries_accepted:
  "split_entries schema es invalid updates = (invalid', updates') \<Longrightarrow>
   map_of updates' k = Some v \<Longrightarrow> map_of updates k = Some v \<or> accepts schema k v"
  by (induction schema es invalid updates rule: split_entries.induct)
    (auto simp: update_conv' split: goval.splits if_splits)

lemma split_entries_distinct:
  "split_entries schema es invalid updates = (invalid', updates') \<Longrightarrow> distinct (map fst updates) \<Longrightarrow>
   distinct (map fst updates')"
  by (induction schema es invalid updates rule: split_entries.induct)
    (auto simp: distinct_update split: goval.splits if_splits)

lemma map_of_merge:
  "map_of (foldl (\<lambda>m (k, v). AList.update k v m) m ups) k =
   (case map_of (rev ups) k of None \<Rightarrow> map_of m k | Some v \<Rightarrow> Some v)"
  by (induction ups arbitrary: m) (auto simp: update_conv' map_add_def split: option.splits)

definition profile_of :: "user \<Rightarrow> string \<Rightarrow> goval option" where
  "profile_of u = map_of (case Profile u of None \<Rightarrow> [] | Some m \<Rightarrow> m)"

lemma profile_of_merged:
  "distinct (map fst ups) \<Longrightarrow> profile_of (merged u ups) = profile_of u ++ map_of ups"
  using map_of_inject_set [of "rev ups" ups]
  by (intro ext) (simp add: profile_of_def merged_def map_of_merge map_add_def flip: rev_map)

definition bind_edit :: "json option \<Rightarrow> profileEditRequest option" where
  "bind_edit = ShouldBindJSON profileEditRequest_field \<lparr>editUID = 0, editToken = [], editContent = []\<rparr>"

lemma ProfileEditHandler_cases:
  assumes "ProfileEditHandler rootDir issuer schema now doc fs = (resp, fs')"
  obtains (refused) "respCode resp = 400" "fs' = fs"
    | (called) req updates r where "bind_edit doc = Some req"
        "split_entries schema (editContent req) [] [] = ([], updates)"
        "updateProfile rootDir issuer now (editUID req) (editToken req) updates fs = (r, fs')"
        "respCode resp = (case r of Inl e \<Rightarrow> if e = errProfileDenied then 400 else 500 | Inr _ \<Rightarrow> 200)"
proof (cases "bind_edit doc")
  case None
  then show ?thesis using assms by (intro refused) (auto simp: ProfileEditHandler_def bind_edit_def)
next
  case (Some req)
  obtain invalid updates where sp: "split_entries schema (editContent req) [] [] = (invalid, updates)" by fastforce
  show ?thesis
  proof (cases "invalid = []")
    case False
    then show ?thesis using assms Some sp
      by (intro refused) (auto simp: ProfileEditHandler_def bind_edit_def)
  next
    case True
    obtain r fs1 where r: "updateProfile rootDir issuer now (editUID req) (editToken req) updates fs = (r, fs1)" by fastforce
    show ?thesis using assms Some True sp r
      by (intro called [of req updates r])
        (auto simp: ProfileEditHandler_def bind_edit_def split: sum.splits if_splits)
  qed
qed

lemma ProfileEditHandler_inv:
  assumes "store_inv rootDir fs"
  shows "store_inv rootDir (snd (ProfileEditHandler rootDir issuer schema now doc fs))"
proof -
  obtain resp fs' where h: "ProfileEditHandler rootDir issuer schema now doc fs = (resp, fs')" by fastforce
  then show ?thesis
  proof (cases rule: ProfileEditHandler_cases)
    case refused
    with assms h show ?thesis by simp
  next
    case (called req updates r)
    with updateProfile_correct [OF assms called(3)] h show ?thesis by simp
  qed
qed

text \<open>
  C6. Editing a profile over HTTP. A 200 answer means that every entry of the request has a
  string key the schema lets clients write with a value of the declared type, that the token
  verifies to the owner of the record, and that the record read back is the old one with
  those values written over its profile: keys outside the request, and keys no value is
  accepted for (such as the registration time), keep theirs. A partly invalid request writes
  nothing, and no answer changes the record of another UID.
\<close>

theorem ProfileEditHandler_correct:
  assumes "store_inv rootDir fs" "ProfileEditHandler rootDir issuer schema now doc fs = (resp, fs')"
  shows "(respCode resp = 200 \<longrightarrow> (\<exists>req target updates. bind_edit doc = Some req
        \<and> (\<forall>e\<in>set (editContent req). \<exists>k. entryKey e = VString k \<and> accepts schema k (entryValue e))
        \<and> user_view rootDir fs (Itoa (editUID req)) = Some target
        \<and> Verify issuer now (editToken req) = (ID target, True)
        \<and> (\<forall>k v. map_of updates k = Some v \<longrightarrow> accepts schema k v)
        \<and> profile_of (merged target updates) = profile_of target ++ map_of updates
        \<and> (\<forall>k. (\<forall>v. \<not> accepts schema k v) \<longrightarrow> profile_of (merged target updates) k = profile_of target k)
        \<and> user_view rootDir fs' = (user_view rootDir fs)(Itoa (editUID req) \<mapsto>
              (if updates = [] then target else norm_user (merged target updates)))))
    \<and> (respCode resp = 400 \<longrightarrow> (\<forall>p. fs_lookup fs' p = fs_lookup fs p))
    \<and> (\<forall>req n. bind_edit doc = Some req \<longrightarrow> n \<noteq> Itoa (editUID req) \<longrightarrow>
          user_view rootDir fs' n = user_view rootDir fs n)"
  using assms(2)
proof (cases rule: ProfileEditHandler_cases)
  case refused
  then show ?thesis by simp
next
  case (called req updates r)
  note up = updateProfile_correct [OF assms(1) called(3)]
  have acc: "map_of updates k = Some v \<Longrightarrow> accepts schema k v" for k v
    using split_entries_accepted [OF called(2)] by simp
  have pm: "profile_of (merged u updates) = profile_of u ++ map_of updates" for u
    using split_entries_distinct [OF called(2)] by (simp add: profile_of_merged)
  have keep: "(\<forall>v. \<not> accepts schema k v) \<Longrightarrow> profile_of (merged u updates) k = profile_of u k" for u k
    using acc [of k] by (cases "map_of updates k") (auto simp: pm map_add_def)
  have same: "respCode resp = 400 \<Longrightarrow> \<forall>p. fs_lookup fs' p = fs_lookup fs p"
    using called(3)
  proof (cases rule: updateProfile_cases)
    case (stored target fs1)
    assume "respCode resp = 400"
    then have "r = Inl errProfileDenied" using called(4) by (auto split: sum.splits if_splits)
    with stored(5) show ?thesis by (auto simp: writeUser_def split: sum.splits prod.splits)
  qed
  have ok: "\<exists>target. user_view rootDir fs (Itoa (editUID req)) = Some target
      \<and> Verify issuer now (editToken req) = (ID target, True)
      \<and> user_view rootDir fs' = (user_view rootDir fs)(Itoa (editUID req) \<mapsto>
          (if updates = [] then target else norm_user (merged target updates)))" if "respCode resp = 200"
  proof -
    have "r = Inr ()" using that called(4) by (auto split: sum.splits if_splits)
    with up obtain target where t: "user_view rootDir fs (Itoa (editUID req)) = Some target"
      "Verify issuer now (editToken req) = (ID target, True)"
      "user_view rootDir fs' (Itoa (editUID req)) = Some (if updates = [] then target else norm_user (merged target updates))"
      by blast
    have "user_view rootDir fs' = (user_view rootDir fs)(Itoa (editUID req) \<mapsto>
        (if updates = [] then target else norm_user (merged target updates)))"
      using up t(3) by (intro ext) (simp add: fun_upd_def)
    with t(1,2) show ?thesis by blast
  qed
  show ?thesis
  proof (intro conjI impI allI)
    assume "respCode resp = 200"
    from ok [OF this] called(1) split_entries_valid [OF called(2)] acc pm keep
    show "\<exists>req target updates. bind_edit doc = Some req
        \<and> (\<forall>e\<in>set (editContent req). \<exists>k. entryKey e = VString k \<and> accepts schema k (entryValue e))
        \<and> user_view rootDir fs (Itoa (editUID req)) = Some target
        \<and> Verify issuer now (editToken req) = (ID target, True)
        \<and> (\<forall>k v. map_of updates k = Some v \<longrightarrow> accepts schema k v)
        \<and> profile_of (merged target updates) = profile_of target ++ map_of updates
        \<and> (\<forall>k. (\<forall>v. \<not> accepts schema k v) \<longrightarrow> profile_of (merged target updates) k = profile_of target k)
        \<and> user_view rootDir fs' = (user_view rootDir fs)(Itoa (editUID req) \<mapsto>
              (if updates = [] then target else norm_user (merged target updates)))" by blast
  next
    fix p assume "respCode resp = 400"
    then show "fs_lookup fs' p = fs_lookup fs p" using same by blast
  next
    fix req' n assume "bind_edit doc = Some req'" "n \<noteq> Itoa (editUID req')"
    then show "user_view rootDir fs' n = user_view rootDir fs n" using called(1) up by simp
  qed
qed

definition demo_edit :: json where
  "demo_edit = JObj [(''UID'', JInt 1), (''token'', JStr demo_token),
     (''content'', JArr [JObj [(''key'', JStr ''username''), (''value'', JStr ''Bobby'')]])]"

theorem ProfileEditHandler_correct_witness:
  "\<exists>fs'. ProfileEditHandler [''data''] demo_issuer \<lparr>schema_fields = builtinFields\<rparr> 1500 (Some demo_edit) demo_fs
      = (c_JSON 200 [], fs')
    \<and> (\<forall>n. n \<noteq> Itoa 1 \<longrightarrow> user_view [''data''] fs' n = user_view [''data''] demo_fs n)"
proof -
  let ?req = "\<lparr>editUID = 1, editToken = demo_token,
      editContent = [\<lparr>entryKey = VString ''username'', entryValue = VString ''Bobby''\<rparr>]\<rparr>"
  have bind: "bind_edit (Some demo_edit) = Some ?req"
    by (simp add: bind_edit_def ShouldBindJSON_def demo_edit_def dec_object_def profileEditRequest_field_def
        dec_entries_def profileEntry_field_def field_is_def EqualFold_def fold_rune_def int64_def)
  have sp: "split_entries \<lparr>schema_fields = builtinFields\<rparr> (editContent ?req) [] [] = ([], [(''username'', VString ''Bobby'')])"
    by (simp add: accepts_def builtinFields_def ProfileKeyUsername_def)
  obtain fs' where up: "updateProfile [''data''] demo_issuer 1500 1 demo_token [(''username'', VString ''Bobby'')] demo_fs = (Inr (), fs')"
    by (rule demo_update [of "[(''username'', VString ''Bobby'')]"]) simp
  have h: "ProfileEditHandler [''data''] demo_issuer \<lparr>schema_fields = builtinFields\<rparr> 1500 (Some demo_edit) demo_fs
      = (c_JSON 200 [], fs')"
    using bind sp up by (simp add: ProfileEditHandler_def bind_edit_def)
  from ProfileEditHandler_correct [OF demo_fs_facts(1) h] h bind show ?thesis by simp
qed

text \<open>
  C7. Viewing a profile leaks nothing private: the content of a 200 answer is exactly the part
  of the stored profile whose keys the schema declares and that are public, or private with
  the request carrying a token that verifies to the owner of that very record. Keys dropped
  from the configuration are never shown, nothing else of the record is, and no file changes.
\<close>

theorem ProfileViewHandler_private:
  assumes "ProfileViewHandler rootDir issuer schema now doc fs = (resp, fs')"
  shows "(respCode resp = 200 \<longrightarrow> (\<exists>req target content.
        ShouldBindJSON profileViewRequest_field \<lparr>viewUID = 0, viewToken = []\<rparr> doc = Some req
        \<and> user_view rootDir fs (Itoa (viewUID req)) = Some target
        \<and> resp = c_JSON 200 [(''content'', VMap content)]
        \<and> (\<forall>k v. (k, v) \<in> set content \<longleftrightarrow>
             (\<exists>m field. Profile target = Some m \<and> (k, v) \<in> set m \<and> map_of (schema_fields schema) k = Some field
               \<and> (private field \<longrightarrow> viewToken req \<noteq> [] \<and> Verify issuer now (viewToken req) = (ID target, True))))))
    \<and> (respCode resp \<noteq> 200 \<longrightarrow> resp = c_JSON 400 [] \<or> resp = c_JSON 500 [])
    \<and> (\<forall>p. fs_lookup fs' p = fs_lookup fs p)"
proof (cases "ShouldBindJSON profileViewRequest_field \<lparr>viewUID = 0, viewToken = []\<rparr> doc")
  case None
  with assms show ?thesis by (auto simp: ProfileViewHandler_def)
next
  case (Some req)
  obtain r fs1 where rd: "readUser rootDir (viewUID req) fs = (r, fs1)" by fastforce
  have fs': "fs' = fs1" using assms Some rd
    by (auto simp: ProfileViewHandler_def Let_def split: sum.splits option.splits)
  have look: "fs_lookup fs' p = fs_lookup fs p" for p
    using readUser_lookup [of rootDir "viewUID req" fs p] rd fs' by simp
  show ?thesis
  proof (cases "\<exists>target. r = Inr (Some target)")
    case True
    then obtain target where r: "r = Inr (Some target)" by blast
    let ?auth = "viewToken req \<noteq> [] \<and> Verify issuer now (viewToken req) = (ID target, True)"
    have resp: "resp = c_JSON 200 [(''content'', VMap (view_content schema ?auth target))]"
      using assms Some rd r by (simp add: ProfileViewHandler_def Let_def)
    have "(k, v) \<in> set (view_content schema ?auth target) \<longleftrightarrow>
        (\<exists>m field. Profile target = Some m \<and> (k, v) \<in> set m \<and> map_of (schema_fields schema) k = Some field
          \<and> (private field \<longrightarrow> ?auth))" for k v
      by (cases "Profile target") (auto simp: view_content_def visible_def split: option.splits)
    with Some readUser_Some [OF rd [unfolded r]] resp look show ?thesis by (simp add: c_JSON_def)
  next
    case False
    with assms Some rd look show ?thesis
      by (auto simp: ProfileViewHandler_def Let_def split: sum.splits option.splits)
  qed
qed

definition demo_view :: json where
  "demo_view = JObj [(''UID'', JInt 1)]"

theorem ProfileViewHandler_private_witness:
  "ProfileViewHandler [''data''] demo_issuer \<lparr>schema_fields = builtinFields\<rparr> 1500 (Some demo_view) demo_fs
     = (c_JSON 200 [(''content'', VMap [])], demo_fs)
   \<and> (\<exists>target. user_view [''data''] demo_fs ''1'' = Some target)"
proof -
  have bind: "ShouldBindJSON profileViewRequest_field \<lparr>viewUID = 0, viewToken = []\<rparr> (Some demo_view) =
      Some \<lparr>viewUID = 1, viewToken = []\<rparr>"
    by (simp add: ShouldBindJSON_def demo_view_def dec_object_def profileViewRequest_field_def field_is_def
        EqualFold_def fold_rune_def int64_def)
  have "readUser [''data''] 1 demo_fs = (Inr (Some demo_user), demo_fs)"
    using readUser_total [OF demo_fs_facts(1,2), of 1] demo_fs_facts(4) by (simp add: demo_UID)
  then have h: "ProfileViewHandler [''data''] demo_issuer \<lparr>schema_fields = builtinFields\<rparr> 1500 (Some demo_view) demo_fs
     = (c_JSON 200 [(''content'', VMap [])], demo_fs)"
    using bind by (simp add: ProfileViewHandler_def view_content_def demo_user_def zero_user_def)
  from ProfileViewHandler_private [OF h] h bind show ?thesis by (auto simp: demo_UID(2))
qed

end
