(* ===== verification/Totp.thy ===== *)
theory Totp
  imports AuthHandlers
begin

text \<open>
  Two-factor authentication of \<^verbatim>\<open>auth/totp.go\<close>: the five handlers, the recovery codes
  and their base32 text. The handlers look a user up under the store's mutex and
  write the changed record after releasing it, so each is two atomic steps: a
  read step that ends with an answer or with a record to store, and a commit.
  The handler itself is the two steps in sequence. The TOTP library (generating
  a key, validating a code) and the system's random bytes are arguments.

  The step relation \<open>totp_step\<close> is the abstract machine of one record's
  two-factor state; the theorems show that the handlers refine it, what the
  machine keeps invariant, that a recovery code works once when requests run one
  after the other, and that two overlapping requests can both use one code.
\<close>

section \<open>Recovery codes\<close>

definition base32_char :: "nat \<Rightarrow> char" where
  "base32_char d = (if d < 26 then char_of (65 + d) else char_of (50 + (d - 26)))"

text \<open>One group of \<^verbatim>\<open>base32.StdEncoding\<close>: five bytes, the last group padded.\<close>

definition base32_group :: "byte list \<Rightarrow> string" where
  "base32_group bs =
    (let n = length bs;
         v = foldl (\<lambda>acc b. acc * 256 + b) 0 (bs @ replicate (5 - n) 0);
         cs = map (\<lambda>i. base32_char (v div 32 ^ (7 - i) mod 32)) [0..<8];
         k = (8 * n + 4) div 5
     in take k cs @ replicate (8 - k) (CHR ''=''))"

fun base32_EncodeToString :: "byte list \<Rightarrow> string" where
  "base32_EncodeToString [] = []"
| "base32_EncodeToString (b # bs) =
    base32_group (b # take 4 bs) @ base32_EncodeToString (drop 4 bs)"

definition recovery_code :: "byte list \<Rightarrow> string" where
  "recovery_code bs =
    (let raw = take 16 (ToUpper (base32_EncodeToString bs))
     in take 4 raw @ ''-'' @ take 4 (drop 4 raw) @ ''-'' @ take 4 (drop 8 raw) @ ''-'' @ drop 12 raw)"

text \<open>\<^verbatim>\<open>rand.Read\<close> number \<open>i\<close> fills ten bytes or fails.\<close>

fun generate_codes :: "(nat \<Rightarrow> byte list option) \<Rightarrow> nat \<Rightarrow> nat \<Rightarrow> string list option" where
  "generate_codes rand_read i 0 = Some []"
| "generate_codes rand_read i (Suc n) =
    (case rand_read i of
       None \<Rightarrow> None
     | Some bs \<Rightarrow>
         (case generate_codes rand_read (Suc i) n of
            None \<Rightarrow> None
          | Some codes \<Rightarrow> Some (recovery_code bs # codes)))"

definition generateRecoveryCodes :: "(nat \<Rightarrow> byte list option) \<Rightarrow> string list option" where
  "generateRecoveryCodes rand_read = generate_codes rand_read 0 10"

section \<open>Requests\<close>

record totpSignRequest =
  tsQuery :: string
  tsPassword :: string

record totpVerifyRequest =
  tvQuery :: string
  tvPassword :: string
  tvCode :: string

record totpUnsignRequest =
  tuQuery :: string
  tuPassword :: string

record totpLoginRequest =
  tlQuery :: string
  tlCode :: string

record recoveryCodeLoginRequest =
  rcQuery :: string
  rcCode :: string

definition totpSignRequest_field :: "string \<Rightarrow> json \<Rightarrow> totpSignRequest \<Rightarrow> totpSignRequest option" where
  "totpSignRequest_field k j r =
    (if field_is ''query'' k then map_option (\<lambda>s. r\<lparr>tsQuery := s\<rparr>) (dec_string j (tsQuery r))
     else if field_is ''password'' k then map_option (\<lambda>s. r\<lparr>tsPassword := s\<rparr>) (dec_string j (tsPassword r))
     else Some r)"

definition totpVerifyRequest_field :: "string \<Rightarrow> json \<Rightarrow> totpVerifyRequest \<Rightarrow> totpVerifyRequest option" where
  "totpVerifyRequest_field k j r =
    (if field_is ''query'' k then map_option (\<lambda>s. r\<lparr>tvQuery := s\<rparr>) (dec_string j (tvQuery r))
     else if field_is ''password'' k then map_option (\<lambda>s. r\<lparr>tvPassword := s\<rparr>) (dec_string j (tvPassword r))
     else if field_is ''code'' k then map_option (\<lambda>s. r\<lparr>tvCode := s\<rparr>) (dec_string j (tvCode r))
     else Some r)"

definition totpUnsignRequest_field :: "string \<Rightarrow> json \<Rightarrow> totpUnsignRequest \<Rightarrow> totpUnsignRequest option" where
  "totpUnsignRequest_field k j r =
    (if field_is ''query'' k then map_option (\<lambda>s. r\<lparr>tuQuery := s\<rparr>) (dec_string j (tuQuery r))
     else if field_is ''password'' k then map_option (\<lambda>s. r\<lparr>tuPassword := s\<rparr>) (dec_string j (tuPassword r))
     else Some r)"

definition totpLoginRequest_field :: "string \<Rightarrow> json \<Rightarrow> totpLoginRequest \<Rightarrow> totpLoginRequest option" where
  "totpLoginRequest_field k j r =
    (if field_is ''query'' k then map_option (\<lambda>s. r\<lparr>tlQuery := s\<rparr>) (dec_string j (tlQuery r))
     else if field_is ''code'' k then map_option (\<lambda>s. r\<lparr>tlCode := s\<rparr>) (dec_string j (tlCode r))
     else Some r)"

definition recoveryCodeLoginRequest_field ::
    "string \<Rightarrow> json \<Rightarrow> recoveryCodeLoginRequest \<Rightarrow> recoveryCodeLoginRequest option" where
  "recoveryCodeLoginRequest_field k j r =
    (if field_is ''query'' k then map_option (\<lambda>s. r\<lparr>rcQuery := s\<rparr>) (dec_string j (rcQuery r))
     else if field_is ''recovery_code'' k then map_option (\<lambda>s. r\<lparr>rcCode := s\<rparr>) (dec_string j (rcCode r))
     else Some r)"

section \<open>Handlers\<close>

text \<open>What the read step of a request ends with: the answer, or a record to store and the
  answer once it is stored.\<close>

datatype pending = Respond response | Store user response

definition commit :: "path \<Rightarrow> user \<Rightarrow> response \<Rightarrow> fsys \<Rightarrow> response \<times> fsys" where
  "commit rootDir u resp fs =
    (case writeUser rootDir u fs of
       (Inl _, fs') \<Rightarrow> (c_JSON 500 [], fs')
     | (Inr _, fs') \<Rightarrow> (resp, fs'))"

definition finish :: "path \<Rightarrow> pending \<times> fsys \<Rightarrow> response \<times> fsys" where
  "finish rootDir p =
    (case p of (Respond resp, fs) \<Rightarrow> (resp, fs) | (Store u resp, fs) \<Rightarrow> commit rootDir u resp fs)"

definition totp_sign_read :: "path \<Rightarrow> (string \<Rightarrow> string \<Rightarrow> bool) \<Rightarrow> (string \<Rightarrow> (string \<times> string) option)
    \<Rightarrow> json option \<Rightarrow> fsys \<Rightarrow> pending \<times> fsys" where
  "totp_sign_read rootDir checkHash generate doc fs =
    (case ShouldBindJSON totpSignRequest_field \<lparr>tsQuery = [], tsPassword = []\<rparr> doc of
       None \<Rightarrow> (Respond (c_JSON 400 []), fs)
     | Some req \<Rightarrow>
         if tsQuery req = [] \<or> tsPassword req = [] then (Respond (c_JSON 400 []), fs)
         else (case verifyPassword rootDir checkHash (tsQuery req) (tsPassword req) fs of
             (None, fs') \<Rightarrow> (Respond (c_JSON 400 []), fs')
           | (Some target, fs') \<Rightarrow>
               if TOTPVerified target then (Respond (c_JSON 400 [(''err'', VInt64 1)]), fs')
               else (case generate (ID target) of
                   None \<Rightarrow> (Respond (c_JSON 500 []), fs')
                 | Some (key_secret, url) \<Rightarrow>
                     (Store (target\<lparr>TOTPSecret := key_secret, TOTPVerified := False, RecoveryCodes := []\<rparr>)
                        (c_JSON 200 [(''otpauth_url'', VString url)]), fs'))))"

definition TotpSignHandler :: "path \<Rightarrow> (string \<Rightarrow> string \<Rightarrow> bool) \<Rightarrow> (string \<Rightarrow> (string \<times> string) option)
    \<Rightarrow> json option \<Rightarrow> fsys \<Rightarrow> response \<times> fsys" where
  "TotpSignHandler rootDir checkHash generate doc fs =
    finish rootDir (totp_sign_read rootDir checkHash generate doc fs)"

definition totp_verify_read :: "path \<Rightarrow> (string \<Rightarrow> string \<Rightarrow> bool) \<Rightarrow> (string \<Rightarrow> string \<Rightarrow> bool)
    \<Rightarrow> (nat \<Rightarrow> byte list option) \<Rightarrow> json option \<Rightarrow> fsys \<Rightarrow> pending \<times> fsys" where
  "totp_verify_read rootDir checkHash validate rand_read doc fs =
    (case ShouldBindJSON totpVerifyRequest_field \<lparr>tvQuery = [], tvPassword = [], tvCode = []\<rparr> doc of
       None \<Rightarrow> (Respond (c_JSON 400 []), fs)
     | Some req \<Rightarrow>
         if tvQuery req = [] \<or> tvPassword req = [] \<or> tvCode req = [] then (Respond (c_JSON 400 []), fs)
         else (case verifyPassword rootDir checkHash (tvQuery req) (tvPassword req) fs of
             (None, fs') \<Rightarrow> (Respond (c_JSON 400 []), fs')
           | (Some target, fs') \<Rightarrow>
               if TOTPSecret target = [] \<or> TOTPVerified target then (Respond (c_JSON 400 []), fs')
               else if \<not> validate (tvCode req) (TOTPSecret target) then
                 (Store (target\<lparr>TOTPSecret := [], TOTPVerified := False, RecoveryCodes := []\<rparr>)
                    (c_JSON 400 []), fs')
               else (case generateRecoveryCodes rand_read of
                   None \<Rightarrow> (Respond (c_JSON 500 []), fs')
                 | Some codes \<Rightarrow>
                     (Store (target\<lparr>TOTPVerified := True, RecoveryCodes := codes\<rparr>)
                        (c_JSON 200 [(''recovery_codes'', VSlice (map VString codes))]), fs'))))"

definition TotpVerifyHandler :: "path \<Rightarrow> (string \<Rightarrow> string \<Rightarrow> bool) \<Rightarrow> (string \<Rightarrow> string \<Rightarrow> bool)
    \<Rightarrow> (nat \<Rightarrow> byte list option) \<Rightarrow> json option \<Rightarrow> fsys \<Rightarrow> response \<times> fsys" where
  "TotpVerifyHandler rootDir checkHash validate rand_read doc fs =
    finish rootDir (totp_verify_read rootDir checkHash validate rand_read doc fs)"

definition totp_unsign_read :: "path \<Rightarrow> (string \<Rightarrow> string \<Rightarrow> bool) \<Rightarrow> json option \<Rightarrow> fsys \<Rightarrow> pending \<times> fsys" where
  "totp_unsign_read rootDir checkHash doc fs =
    (case ShouldBindJSON totpUnsignRequest_field \<lparr>tuQuery = [], tuPassword = []\<rparr> doc of
       None \<Rightarrow> (Respond (c_JSON 400 []), fs)
     | Some req \<Rightarrow>
         if tuQuery req = [] \<or> tuPassword req = [] then (Respond (c_JSON 400 []), fs)
         else (case verifyPassword rootDir checkHash (tuQuery req) (tuPassword req) fs of
             (None, fs') \<Rightarrow> (Respond (c_JSON 400 []), fs')
           | (Some target, fs') \<Rightarrow>
               if TOTPSecret target = [] then (Respond (c_JSON 400 [(''err'', VInt64 2)]), fs')
               else (Store (target\<lparr>TOTPSecret := [], TOTPVerified := False, RecoveryCodes := []\<rparr>)
                       (c_JSON 200 []), fs')))"

definition TotpUnsignHandler :: "path \<Rightarrow> (string \<Rightarrow> string \<Rightarrow> bool) \<Rightarrow> json option \<Rightarrow> fsys \<Rightarrow> response \<times> fsys" where
  "TotpUnsignHandler rootDir checkHash doc fs = finish rootDir (totp_unsign_read rootDir checkHash doc fs)"

definition TotpLoginHandler :: "path \<Rightarrow> (string \<Rightarrow> string \<Rightarrow> bool) \<Rightarrow> TokenIssuer
    \<Rightarrow> int \<Rightarrow> json option \<Rightarrow> fsys \<Rightarrow> response \<times> fsys" where
  "TotpLoginHandler rootDir validate issuer now doc fs =
    (case ShouldBindJSON totpLoginRequest_field \<lparr>tlQuery = [], tlCode = []\<rparr> doc of
       None \<Rightarrow> (c_JSON 400 [], fs)
     | Some req \<Rightarrow>
         if tlQuery req = [] \<or> tlCode req = [] then (c_JSON 400 [], fs)
         else (case loadUsers rootDir fs of
             (Inl _, fs') \<Rightarrow> (c_JSON 500 [], fs')
           | (Inr users, fs') \<Rightarrow>
               (case find (matches (tlQuery req)) users of
                  None \<Rightarrow> (c_JSON 400 [], fs')
                | Some target \<Rightarrow>
                    if \<not> TOTPVerified target \<or> TOTPSecret target = [] then (c_JSON 400 [], fs')
                    else if \<not> validate (tlCode req) (TOTPSecret target) then (c_JSON 400 [], fs')
                    else (c_JSON 200 [(''token'', VString (Issue issuer now (ID target)))], fs'))))"

text \<open>The loop that drops the first matching recovery code.\<close>

fun take_code :: "string \<Rightarrow> bool \<Rightarrow> string list \<Rightarrow> bool \<times> string list" where
  "take_code upperCode found [] = (found, [])"
| "take_code upperCode found (code # codes) =
    (if EqualFold code upperCode \<and> \<not> found then take_code upperCode True codes
     else (case take_code upperCode found codes of (found', rest) \<Rightarrow> (found', code # rest)))"

definition recovery_read :: "path \<Rightarrow> TokenIssuer \<Rightarrow> int \<Rightarrow> json option \<Rightarrow> fsys \<Rightarrow> pending \<times> fsys" where
  "recovery_read rootDir issuer now doc fs =
    (case ShouldBindJSON recoveryCodeLoginRequest_field \<lparr>rcQuery = [], rcCode = []\<rparr> doc of
       None \<Rightarrow> (Respond (c_JSON 400 []), fs)
     | Some req \<Rightarrow>
         if rcQuery req = [] \<or> rcCode req = [] then (Respond (c_JSON 400 []), fs)
         else (case loadUsers rootDir fs of
             (Inl _, fs') \<Rightarrow> (Respond (c_JSON 500 []), fs')
           | (Inr users, fs') \<Rightarrow>
               (case find (matches (rcQuery req)) users of
                  None \<Rightarrow> (Respond (c_JSON 400 []), fs')
                | Some target \<Rightarrow>
                    if \<not> TOTPVerified target \<or> RecoveryCodes target = [] then (Respond (c_JSON 400 []), fs')
                    else (case take_code (ToUpper (rcCode req)) False (RecoveryCodes target) of (found, newCodes) \<Rightarrow>
                      if \<not> found then (Respond (c_JSON 400 []), fs')
                      else (Store (target\<lparr>RecoveryCodes := newCodes\<rparr>)
                              (c_JSON 200 [(''token'', VString (Issue issuer now (ID target)))]), fs')))))"

definition RecoveryCodeLoginHandler :: "path \<Rightarrow> TokenIssuer \<Rightarrow> int \<Rightarrow> json option \<Rightarrow> fsys \<Rightarrow> response \<times> fsys" where
  "RecoveryCodeLoginHandler rootDir issuer now doc fs = finish rootDir (recovery_read rootDir issuer now doc fs)"

text \<open>The four requests that change two-factor state, each with what the environment
  contributes to it.\<close>

datatype totp_call =
    SignCall "string \<Rightarrow> (string \<times> string) option" "json option"
  | VerifyCall "string \<Rightarrow> string \<Rightarrow> bool" "nat \<Rightarrow> byte list option" "json option"
  | UnsignCall "json option"
  | RecoveryCall TokenIssuer int "json option"

fun totp_read :: "path \<Rightarrow> (string \<Rightarrow> string \<Rightarrow> bool) \<Rightarrow> totp_call \<Rightarrow> fsys \<Rightarrow> pending \<times> fsys" where
  "totp_read rootDir checkHash (SignCall generate doc) fs = totp_sign_read rootDir checkHash generate doc fs"
| "totp_read rootDir checkHash (VerifyCall validate rand_read doc) fs =
     totp_verify_read rootDir checkHash validate rand_read doc fs"
| "totp_read rootDir checkHash (UnsignCall doc) fs = totp_unsign_read rootDir checkHash doc fs"
| "totp_read rootDir checkHash (RecoveryCall issuer now doc) fs = recovery_read rootDir issuer now doc fs"

fun totp_handle :: "path \<Rightarrow> (string \<Rightarrow> string \<Rightarrow> bool) \<Rightarrow> totp_call \<Rightarrow> fsys \<Rightarrow> response \<times> fsys" where
  "totp_handle rootDir checkHash (SignCall generate doc) fs = TotpSignHandler rootDir checkHash generate doc fs"
| "totp_handle rootDir checkHash (VerifyCall validate rand_read doc) fs =
     TotpVerifyHandler rootDir checkHash validate rand_read doc fs"
| "totp_handle rootDir checkHash (UnsignCall doc) fs = TotpUnsignHandler rootDir checkHash doc fs"
| "totp_handle rootDir checkHash (RecoveryCall issuer now doc) fs = RecoveryCodeLoginHandler rootDir issuer now doc fs"

section \<open>The abstract machine of one record\<close>

text \<open>
  A record is without two-factor state, pending (a secret, not verified) or active
  (verified, with recovery codes). A step keeps everything else of the record.
\<close>

inductive totp_step :: "totp_call \<Rightarrow> user \<Rightarrow> user \<Rightarrow> bool" where
  Sign: "\<not> TOTPVerified u \<Longrightarrow> generate (ID u) = Some (key_secret, url) \<Longrightarrow>
    totp_step (SignCall generate doc) u (u\<lparr>TOTPSecret := key_secret, TOTPVerified := False, RecoveryCodes := []\<rparr>)"
| Activate: "TOTPSecret u \<noteq> [] \<Longrightarrow> \<not> TOTPVerified u \<Longrightarrow> validate code (TOTPSecret u) \<Longrightarrow>
    generateRecoveryCodes rand_read = Some codes \<Longrightarrow>
    totp_step (VerifyCall validate rand_read doc) u (u\<lparr>TOTPVerified := True, RecoveryCodes := codes\<rparr>)"
| Revert: "TOTPSecret u \<noteq> [] \<Longrightarrow> \<not> TOTPVerified u \<Longrightarrow> \<not> validate code (TOTPSecret u) \<Longrightarrow>
    totp_step (VerifyCall validate rand_read doc) u (u\<lparr>TOTPSecret := [], TOTPVerified := False, RecoveryCodes := []\<rparr>)"
| Unsign: "TOTPSecret u \<noteq> [] \<Longrightarrow>
    totp_step (UnsignCall doc) u (u\<lparr>TOTPSecret := [], TOTPVerified := False, RecoveryCodes := []\<rparr>)"
| Recover: "TOTPVerified u \<Longrightarrow> take_code upperCode False (RecoveryCodes u) = (True, codes) \<Longrightarrow>
    totp_step (RecoveryCall issuer now doc) u (u\<lparr>RecoveryCodes := codes\<rparr>)"

inductive_cases totp_stepE: "totp_step call u u'"

lemma totp_step_identity:
  "totp_step call u u' \<Longrightarrow> UID u' = UID u \<and> ID u' = ID u \<and> Email u' = Email u \<and> Password u' = Password u
     \<and> Profile u' = Profile u"
  by (induction rule: totp_step.induct) simp_all

section \<open>The interface of a two-step handler\<close>

locale two_phase =
  fixes rootDir :: path
    and call :: totp_call
    and read_step :: "fsys \<Rightarrow> pending \<times> fsys"
  assumes read_lookup: "fs_lookup (snd (read_step fs)) p = fs_lookup fs p"
    and read_store: "wf_fs fs \<Longrightarrow> read_step fs = (Store u' resp, fs1) \<Longrightarrow>
          \<exists>u\<in>abs_users rootDir fs. totp_step call u u'"
begin

lemma handler_refines:
  assumes inv: "store_inv rootDir fs" and fin: "finish rootDir (read_step fs) = (resp, fs')"
  shows "store_inv rootDir fs' \<and>
    (user_view rootDir fs' = user_view rootDir fs
     \<or> (\<exists>u u'. user_view rootDir fs (Itoa (UID u)) = Some u \<and> totp_step call u u'
          \<and> (\<forall>n. n \<noteq> Itoa (UID u) \<longrightarrow> user_view rootDir fs' n = user_view rootDir fs n)
          \<and> (user_view rootDir fs' (Itoa (UID u)) = Some (norm_user u')
             \<or> respCode resp = 500 \<and> user_view rootDir fs' (Itoa (UID u)) = None)))"
proof -
  obtain p fs1 where rs: "read_step fs = (p, fs1)" by fastforce
  have look: "fs_lookup fs1 q = fs_lookup fs q" for q using read_lookup [of fs q] rs by simp
  have view: "user_view rootDir fs1 = user_view rootDir fs" by (rule user_view_cong) (rule look)
  show ?thesis
  proof (cases p)
    case (Respond r)
    with fin rs have "fs' = fs1" by (simp add: finish_def)
    with view store_inv_cong [OF look] inv show ?thesis by simp
  next
    case (Store u' r)
    with read_store [OF store_invD(2) [OF inv]] rs obtain u where
      u: "u \<in> abs_users rootDir fs" and st: "totp_step call u u'" by blast
    note ident = totp_step_identity [OF st]
    have uv: "user_view rootDir fs (Itoa (UID u)) = Some u" using u abs_users_at [OF inv] by simp
    obtain w where wr: "writeUser rootDir u' fs1 = (w, fs')"
      using fin rs Store by (auto simp: finish_def commit_def split: prod.splits sum.splits)
    have "store_inv rootDir (snd (writeUser rootDir u' fs1))"
      using ident by (intro store_inv_rewrite [OF inv uv _ _ _ look]) simp_all
    then have inv': "store_inv rootDir fs'" using wr by simp
    have other: "\<forall>n. n \<noteq> Itoa (UID u) \<longrightarrow> user_view rootDir fs' n = user_view rootDir fs n"
      using writeUser_view_other [OF wr] ident view by simp
    have i64: "int64 (UID u')" using store_invD(3) [OF inv uv] ident by (simp add: user_ok_def)
    show ?thesis
    proof (cases w)
      case (Inr x)
      then show ?thesis
        using writeUser_view_Inr [OF wr [unfolded Inr] i64] inv' uv st other ident by auto
    next
      case (Inl e)
      have "respCode resp = 500" using fin rs Store wr Inl by (auto simp: finish_def commit_def)
      moreover have "user_view rootDir fs' (Itoa (UID u)) = user_view rootDir fs (Itoa (UID u))
          \<or> user_view rootDir fs' (Itoa (UID u)) = None"
        using writeUser_view_Inl [OF wr [unfolded Inl]] ident view by simp
      moreover have "user_view rootDir fs' (Itoa (UID u)) = user_view rootDir fs (Itoa (UID u)) \<Longrightarrow>
          user_view rootDir fs' = user_view rootDir fs"
        using other by (intro ext) metis
      ultimately show ?thesis using inv' uv st other by blast
    qed
  qed
qed

end

lemma totp_handle_finish: "totp_handle rootDir checkHash call fs = finish rootDir (totp_read rootDir checkHash call fs)"
  by (cases call) (simp_all add: TotpSignHandler_def TotpVerifyHandler_def TotpUnsignHandler_def RecoveryCodeLoginHandler_def)

text \<open>Where the record to store comes from, handler by handler.\<close>

lemma totp_sign_read_Store:
  "totp_sign_read rootDir checkHash generate doc fs = (Store u' resp, fs1) \<Longrightarrow>
   \<exists>(req :: totpSignRequest) u key_secret url. verifyPassword rootDir checkHash (tsQuery req) (tsPassword req) fs = (Some u, fs1)
     \<and> \<not> TOTPVerified u \<and> generate (ID u) = Some (key_secret, url)
     \<and> u' = u\<lparr>TOTPSecret := key_secret, TOTPVerified := False, RecoveryCodes := []\<rparr>"
  by (auto simp: totp_sign_read_def split: option.splits if_splits prod.splits)

lemma totp_verify_read_Store:
  "totp_verify_read rootDir checkHash validate rand_read doc fs = (Store u' resp, fs1) \<Longrightarrow>
   \<exists>(req :: totpVerifyRequest) u. verifyPassword rootDir checkHash (tvQuery req) (tvPassword req) fs = (Some u, fs1)
     \<and> TOTPSecret u \<noteq> [] \<and> \<not> TOTPVerified u
     \<and> (\<not> validate (tvCode req) (TOTPSecret u)
          \<and> u' = u\<lparr>TOTPSecret := [], TOTPVerified := False, RecoveryCodes := []\<rparr>
        \<or> validate (tvCode req) (TOTPSecret u) \<and> (\<exists>codes. generateRecoveryCodes rand_read = Some codes
          \<and> u' = u\<lparr>TOTPVerified := True, RecoveryCodes := codes\<rparr>))"
  by (auto simp: totp_verify_read_def split: option.splits if_splits prod.splits)

lemma totp_unsign_read_Store:
  "totp_unsign_read rootDir checkHash doc fs = (Store u' resp, fs1) \<Longrightarrow>
   \<exists>(req :: totpUnsignRequest) u. verifyPassword rootDir checkHash (tuQuery req) (tuPassword req) fs = (Some u, fs1)
     \<and> TOTPSecret u \<noteq> [] \<and> u' = u\<lparr>TOTPSecret := [], TOTPVerified := False, RecoveryCodes := []\<rparr>"
  by (auto simp: totp_unsign_read_def split: option.splits if_splits prod.splits)

definition bind_recovery :: "json option \<Rightarrow> recoveryCodeLoginRequest option" where
  "bind_recovery = ShouldBindJSON recoveryCodeLoginRequest_field \<lparr>rcQuery = [], rcCode = []\<rparr>"

lemma recovery_read_Store:
  "recovery_read rootDir issuer now doc fs = (Store u' resp, fs1) \<longleftrightarrow>
   (\<exists>req users u codes. bind_recovery doc = Some req \<and> rcQuery req \<noteq> [] \<and> rcCode req \<noteq> []
     \<and> loadUsers rootDir fs = (Inr users, fs1)
     \<and> find (matches (rcQuery req)) users = Some u \<and> TOTPVerified u
     \<and> take_code (ToUpper (rcCode req)) False (RecoveryCodes u) = (True, codes)
     \<and> u' = u\<lparr>RecoveryCodes := codes\<rparr>
     \<and> resp = c_JSON 200 [(''token'', VString (Issue issuer now (ID u)))])"
  by (auto simp: recovery_read_def bind_recovery_def split: option.splits if_splits prod.splits sum.splits)

lemma totp_read_lookup: "fs_lookup (snd (totp_read rootDir checkHash call fs)) p = fs_lookup fs p"
proof -
  have v: "verifyPassword rootDir checkHash q w fs = (x, fs1) \<Longrightarrow> fs_lookup fs1 p = fs_lookup fs p" for q w x fs1
    using verifyPassword_lookup [of rootDir checkHash q w fs p] by simp
  have l: "loadUsers rootDir fs = (x, fs1) \<Longrightarrow> fs_lookup fs1 p = fs_lookup fs p" for x fs1
    using loadUsers_lookup [of rootDir fs p] by simp
  show ?thesis
    by (cases call) (auto simp: totp_sign_read_def totp_verify_read_def totp_unsign_read_def recovery_read_def
        dest: v l split: option.splits prod.splits sum.splits)
qed

lemma loadUsers_find:
  assumes "loadUsers rootDir fs = (Inr users, fs1)" "find P users = Some u" "wf_fs fs"
  shows "u \<in> abs_users rootDir fs \<and> P u"
  using find_SomeD [OF assms(2)] loadUsers_Inr(1) [OF assms(1,3)] set_user_list [OF assms(3)] by auto

lemma totp_read_Store:
  assumes wf: "wf_fs fs" and rs: "totp_read rootDir checkHash call fs = (Store u' resp, fs1)"
  shows "\<exists>u\<in>abs_users rootDir fs. totp_step call u u'"
proof (cases call)
  case (SignCall generate doc)
  with rs totp_sign_read_Store [of rootDir checkHash generate doc fs] verifyPassword_Some [OF _ wf] show ?thesis
    by (auto intro!: totp_step.Sign)
next
  case (VerifyCall validate rand_read doc)
  with rs totp_verify_read_Store [of rootDir checkHash validate rand_read doc fs] obtain q w u where
    "verifyPassword rootDir checkHash q w fs = (Some u, fs1)" "totp_step call u u'"
    by (auto intro: totp_step.Activate totp_step.Revert)
  with verifyPassword_Some [OF _ wf] show ?thesis by blast
next
  case (UnsignCall doc)
  with rs totp_unsign_read_Store [of rootDir checkHash doc fs] obtain q w u where
    "verifyPassword rootDir checkHash q w fs = (Some u, fs1)" "totp_step call u u'"
    by (auto intro: totp_step.Unsign)
  with verifyPassword_Some [OF _ wf] show ?thesis by blast
next
  case (RecoveryCall issuer now doc)
  with rs obtain q c users u codes where "loadUsers rootDir fs = (Inr users, fs1)"
    "find (matches q) users = Some u" "TOTPVerified u"
    "take_code c False (RecoveryCodes u) = (True, codes)" "u' = u\<lparr>RecoveryCodes := codes\<rparr>"
    by (auto simp: recovery_read_Store)
  with loadUsers_find [OF _ _ wf] RecoveryCall show ?thesis using totp_step.Recover by blast
qed

interpretation totp_calls: two_phase rootDir call "totp_read rootDir checkHash call" for rootDir call checkHash
  by unfold_locales (rule totp_read_lookup, rule totp_read_Store)

text \<open>
  C8. The two-factor handlers refine the abstract machine. For every request body, every
  answer of the TOTP library and every fault plan, signing, verifying, unsigning and logging
  in with a recovery code keep the store's invariant and either leave all readable records
  as they are or change exactly one, by a step of the machine: activation needs a pending
  secret and a code that validates against it, a wrong code removes the secret, signing
  never touches an active record and a recovery login removes one code. A record that is
  lost by a failed write is reported as a 500.
\<close>

theorem totp_handlers_refine:
  assumes "store_inv rootDir fs" "totp_handle rootDir checkHash call fs = (resp, fs')"
  shows "store_inv rootDir fs' \<and>
    (user_view rootDir fs' = user_view rootDir fs
     \<or> (\<exists>u u'. user_view rootDir fs (Itoa (UID u)) = Some u \<and> totp_step call u u'
          \<and> (\<forall>n. n \<noteq> Itoa (UID u) \<longrightarrow> user_view rootDir fs' n = user_view rootDir fs n)
          \<and> (user_view rootDir fs' (Itoa (UID u)) = Some (norm_user u')
             \<or> respCode resp = 500 \<and> user_view rootDir fs' (Itoa (UID u)) = None)))"
  using totp_calls.handler_refines [OF assms(1)] assms(2) unfolding totp_handle_finish by blast

definition demo_pending :: user where
  "demo_pending = demo_user\<lparr>TOTPSecret := ''K''\<rparr>"

lemma demo_pending_ok: "user_ok demo_pending" "norm_user demo_pending = demo_pending"
  using demo_user_ok(1)
  by (simp add: demo_pending_def user_ok_def)
    (simp add: demo_pending_def demo_user_def zero_user_def norm_user_def ascii_def)

definition demo_unsign :: json where
  "demo_unsign = JObj [(''query'', JStr ''bob''), (''password'', JStr ''pw'')]"

theorem totp_handlers_refine_witness:
  "\<exists>resp fs'. totp_handle [''data''] demo_check (UnsignCall (Some demo_unsign)) (demo_store demo_pending) = (resp, fs')
     \<and> store_inv [''data''] fs'"
proof -
  obtain resp fs' where "totp_handle [''data''] demo_check (UnsignCall (Some demo_unsign)) (demo_store demo_pending) = (resp, fs')"
    by fastforce
  with totp_handlers_refine [OF demo_store_facts(1) [OF demo_pending_ok] this] show ?thesis by blast
qed

section \<open>Recovery codes are single use\<close>

lemma take_code_True: "take_code c True codes = (True, codes)"
  by (induction codes) auto

lemma take_code_iff:
  "take_code c False codes = (True, rest) \<longleftrightarrow>
   (\<exists>before code after. codes = before @ code # after \<and> rest = before @ after \<and> EqualFold code c
      \<and> (\<forall>x\<in>set before. \<not> EqualFold x c))"
proof (induction codes arbitrary: rest)
  case (Cons x xs)
  show ?case
  proof (cases "EqualFold x c")
    case True
    then have "before @ code # after = x # xs \<and> (\<forall>y\<in>set before. \<not> EqualFold y c) \<longleftrightarrow>
        before = [] \<and> code = x \<and> after = xs" for before code after
      by (cases before) auto
    with True show ?thesis by (auto simp: take_code_True) (metis append_Nil)+
  next
    case False
    obtain f ys where r: "take_code c False xs = (f, ys)" by fastforce
    have "take_code c False (x # xs) = (True, rest) \<longleftrightarrow> f \<and> rest = x # ys" using False r by auto
    also have "\<dots> \<longleftrightarrow> (\<exists>zs. take_code c False xs = (True, zs) \<and> rest = x # zs)" using r by auto
    also have "\<dots> \<longleftrightarrow> (\<exists>before code after. x # xs = before @ code # after \<and> rest = before @ after
        \<and> EqualFold code c \<and> (\<forall>y\<in>set before. \<not> EqualFold y c))" (is "_ \<longleftrightarrow> ?R")
    proof
      assume "\<exists>zs. take_code c False xs = (True, zs) \<and> rest = x # zs"
      then obtain before code after where "xs = before @ code # after" "rest = x # before @ after" "EqualFold code c"
        "\<forall>y\<in>set before. \<not> EqualFold y c" using Cons.IH by auto
      then have "x # xs = (x # before) @ code # after \<and> rest = (x # before) @ after \<and> EqualFold code c
          \<and> (\<forall>y\<in>set (x # before). \<not> EqualFold y c)" using False by simp
      then show ?R by blast
    next
      assume ?R
      then obtain before code after where b: "x # xs = before @ code # after" "rest = before @ after" "EqualFold code c"
        "\<forall>y\<in>set before. \<not> EqualFold y c" by blast
      with False obtain bs where "before = x # bs" by (cases before) auto
      with b Cons.IH show "\<exists>zs. take_code c False xs = (True, zs) \<and> rest = x # zs" by auto
    qed
    finally show ?thesis .
  qed
qed simp

text \<open>Codes that differ up to letter case.\<close>

definition codes_apart :: "string list \<Rightarrow> bool" where
  "codes_apart codes \<longleftrightarrow> distinct codes \<and> (\<forall>a\<in>set codes. \<forall>b\<in>set codes. EqualFold a b \<longrightarrow> a = b)"

lemma take_code_spent:
  assumes "take_code c False codes = (True, rest)" "codes_apart codes"
  shows "\<forall>x\<in>set rest. \<not> EqualFold x c" "Suc (length rest) = length codes" "codes_apart rest"
proof -
  obtain before code after where b: "codes = before @ code # after" "rest = before @ after" "EqualFold code c"
    using assms(1) by (auto simp: take_code_iff)
  show "\<forall>x\<in>set rest. \<not> EqualFold x c"
  proof
    fix x assume x: "x \<in> set rest"
    show "\<not> EqualFold x c"
    proof
      assume "EqualFold x c"
      then have "EqualFold x code" using b(3) EqualFold_sym EqualFold_trans by blast
      with x b assms(2) have "x = code" by (auto simp: codes_apart_def)
      with x b assms(2) show False by (auto simp: codes_apart_def)
    qed
  qed
  show "Suc (length rest) = length codes" "codes_apart rest" using b assms(2) by (auto simp: codes_apart_def)
qed

lemma recovery_200:
  assumes "RecoveryCodeLoginHandler rootDir issuer now doc fs = (resp, fs')" "respCode resp = 200" "wf_fs fs"
  obtains req u codes fs1 where "bind_recovery doc = Some req" "u \<in> abs_users rootDir fs" "matches (rcQuery req) u"
    "\<And>p. fs_lookup fs1 p = fs_lookup fs p" "TOTPVerified u"
    "take_code (ToUpper (rcCode req)) False (RecoveryCodes u) = (True, codes)"
    "writeUser rootDir (u\<lparr>RecoveryCodes := codes\<rparr>) fs1 = (Inr (), fs')"
    "resp = c_JSON 200 [(''token'', VString (Issue issuer now (ID u)))]"
proof -
  obtain p fs1 where rs: "recovery_read rootDir issuer now doc fs = (p, fs1)" by fastforce
  have "respCode r \<noteq> 200" if "recovery_read rootDir issuer now doc fs = (Respond r, fs1)" for r
    using that by (auto simp: recovery_read_def split: option.splits if_splits prod.splits sum.splits)
  with assms(1,2) rs obtain u' r where p: "p = Store u' r"
    by (cases p) (auto simp: RecoveryCodeLoginHandler_def finish_def)
  then obtain req users u codes where req: "bind_recovery doc = Some req"
    and load: "loadUsers rootDir fs = (Inr users, fs1)" and f: "find (matches (rcQuery req)) users = Some u"
    and u: "TOTPVerified u" "take_code (ToUpper (rcCode req)) False (RecoveryCodes u) = (True, codes)"
    and u': "u' = u\<lparr>RecoveryCodes := codes\<rparr>" and r: "r = c_JSON 200 [(''token'', VString (Issue issuer now (ID u)))]"
    using rs by (auto simp: recovery_read_Store)
  have "writeUser rootDir u' fs1 = (Inr (), fs')" "resp = r"
    using assms(1,2) rs p by (auto simp: RecoveryCodeLoginHandler_def finish_def commit_def split: sum.splits prod.splits)
  with that [OF req _ _ loadUsers_Inr(2) [OF load assms(3)] u] loadUsers_find [OF load f assms(3)] u' r
  show ?thesis by simp
qed

text \<open>
  C9. A recovery code works once when requests follow each other. If a recovery login
  answers 200, the stored user had a matching code, the record read back has exactly one
  code fewer, and from that state the same request, whenever it is repeated and with
  whatever faults, does not answer 200. The user's codes are assumed different up to letter
  case.
\<close>

theorem recovery_code_once:
  assumes inv: "store_inv rootDir fs"
    and first: "RecoveryCodeLoginHandler rootDir issuer now doc fs = (resp, fs')" "respCode resp = 200"
    and apart: "\<forall>u\<in>abs_users rootDir fs. codes_apart (RecoveryCodes u)"
    and later: "\<forall>p. fs_lookup fs'' p = fs_lookup fs' p"
  shows "(\<exists>u u'. u \<in> abs_users rootDir fs \<and> u' \<in> abs_users rootDir fs' \<and> UID u' = UID u \<and> TOTPVerified u
       \<and> Suc (length (RecoveryCodes u')) = length (RecoveryCodes u)
       \<and> resp = c_JSON 200 [(''token'', VString (Issue issuer now (ID u)))])
    \<and> respCode (fst (RecoveryCodeLoginHandler rootDir issuer' now' doc fs'')) \<noteq> 200"
proof -
  obtain req u codes fs1 where req: "bind_recovery doc = Some req" and u: "u \<in> abs_users rootDir fs" "matches (rcQuery req) u"
    and look: "\<And>p. fs_lookup fs1 p = fs_lookup fs p" and tv: "TOTPVerified u"
    and tk: "take_code (ToUpper (rcCode req)) False (RecoveryCodes u) = (True, codes)"
    and wr: "writeUser rootDir (u\<lparr>RecoveryCodes := codes\<rparr>) fs1 = (Inr (), fs')"
    and resp: "resp = c_JSON 200 [(''token'', VString (Issue issuer now (ID u)))]"
    by (rule recovery_200 [OF first store_invD(2) [OF inv]]) (rule that)
  let ?v = "norm_user (u\<lparr>RecoveryCodes := codes\<rparr>)"
  have uv: "user_view rootDir fs (Itoa (UID u)) = Some u" using u abs_users_at [OF inv] by simp
  have ok: "user_ok u" using store_invD(3) [OF inv uv] by simp
  have v': "user_view rootDir fs' (Itoa (UID u)) = Some ?v" using writeUser_view_Inr [OF wr] ok by (simp add: user_ok_def)
  have inv': "store_inv rootDir fs'"
    using store_inv_rewrite [OF inv uv _ _ _ look, of "u\<lparr>RecoveryCodes := codes\<rparr>"] wr by simp
  have inv'': "store_inv rootDir fs''" using store_inv_cong [of fs'' fs'] later inv' by blast
  have abs: "?v \<in> abs_users rootDir fs'" "?v \<in> abs_users rootDir fs''"
    using v' user_view_cong [of fs'' fs' rootDir] later
    by (simp_all add: abs_users_at [OF inv'] abs_users_at [OF inv''] norm_user_def)
  have m: "matches (rcQuery req) ?v"
    using u(2) ok json_str_ascii [OF idPattern_ascii] by (auto simp: matches_def norm_user_def user_ok_def)
  note spent = take_code_spent [OF tk bspec [OF apart u(1)]]
  have "respCode (fst (RecoveryCodeLoginHandler rootDir issuer' now' doc fs'')) \<noteq> 200"
  proof
    assume again: "respCode (fst (RecoveryCodeLoginHandler rootDir issuer' now' doc fs'')) = 200"
    obtain w codes2 where w: "w \<in> abs_users rootDir fs''" "matches (rcQuery req) w"
      and tk2: "take_code (ToUpper (rcCode req)) False (RecoveryCodes w) = (True, codes2)"
      using recovery_200 [OF prod.collapse [symmetric] again store_invD(2) [OF inv'']] req by (metis option.inject)
    have "w = ?v" by (rule matches_unique [OF inv'' w abs(2) m])
    then show False using tk2 spent(1) by (auto simp: take_code_iff norm_user_def map_eq_append_conv)
  qed
  moreover have "Suc (length (RecoveryCodes ?v)) = length (RecoveryCodes u)" "UID ?v = UID u"
    using spent(2) by (simp_all add: norm_user_def)
  ultimately show ?thesis using u(1) abs(1) tv resp by blast
qed

definition demo_active :: user where
  "demo_active = demo_user\<lparr>TOTPSecret := ''K'', TOTPVerified := True, RecoveryCodes := [''AAAA'', ''BBBB'']\<rparr>"

lemma demo_active_ok: "user_ok demo_active" "norm_user demo_active = demo_active"
  using demo_user_ok(1)
  by (simp add: demo_active_def user_ok_def)
    (simp add: demo_active_def demo_user_def zero_user_def norm_user_def ascii_def)

definition demo_recovery :: json where
  "demo_recovery = JObj [(''query'', JStr ''bob''), (''recovery_code'', JStr ''bbbb'')]"

lemma demo_bind_recovery: "bind_recovery (Some demo_recovery) = Some \<lparr>rcQuery = ''bob'', rcCode = ''bbbb''\<rparr>"
  by (simp add: bind_recovery_def ShouldBindJSON_def demo_recovery_def dec_object_def
      recoveryCodeLoginRequest_field_def field_is_def EqualFold_def fold_rune_def)

lemma recovery_read_ready:
  assumes inv: "store_inv rootDir fs" and rd: "readable rootDir fs"
    and u: "u \<in> abs_users rootDir fs" "matches (rcQuery req) u" "TOTPVerified u"
    and req: "bind_recovery doc = Some req" "rcQuery req \<noteq> []" "rcCode req \<noteq> []"
    and tk: "take_code (ToUpper (rcCode req)) False (RecoveryCodes u) = (True, codes)"
  shows "recovery_read rootDir issuer now doc fs =
    (Store (u\<lparr>RecoveryCodes := codes\<rparr>) (c_JSON 200 [(''token'', VString (Issue issuer now (ID u)))]), fs)"
proof -
  note wf = store_invD(2) [OF inv]
  have "find (matches (rcQuery req)) (user_list rootDir fs) = Some u"
    using u matches_unique [OF inv] set_user_list [OF wf] by (intro find_Some_unique) auto
  then show ?thesis using loadUsers_total [OF rd wf] u(3) req tk by (auto simp: recovery_read_Store)
qed

text \<open>
  C10. The mutex does not protect the use of a recovery code: when two requests with the same
  code overlap, both reading the store before either writes, both are answered with a token,
  on every store in which one such request would succeed.
\<close>

theorem recovery_code_race:
  assumes inv: "store_inv rootDir fs" and rd: "readable rootDir fs"
    and u: "u \<in> abs_users rootDir fs" "matches (rcQuery req) u" "TOTPVerified u"
    and req: "bind_recovery doc = Some req" "rcQuery req \<noteq> []" "rcCode req \<noteq> []"
    and tk: "take_code (ToUpper (rcCode req)) False (RecoveryCodes u) = (True, codes)"
  shows "\<exists>u' r1 r2 fs1 fs2.
    recovery_read rootDir issuer now1 doc fs = (Store u' r1, fs) \<and>
    recovery_read rootDir issuer now2 doc fs = (Store u' r2, fs) \<and>
    commit rootDir u' r1 fs = (r1, fs1) \<and> commit rootDir u' r2 fs1 = (r2, fs2) \<and>
    r1 = c_JSON 200 [(''token'', VString (Issue issuer now1 (ID u)))] \<and>
    r2 = c_JSON 200 [(''token'', VString (Issue issuer now2 (ID u)))]"
proof -
  let ?u = "u\<lparr>RecoveryCodes := codes\<rparr>"
  have "user_ok u" using u(1) abs_users_at [OF inv] store_invD(3) [OF inv] by blast
  then have i64: "int64 (UID ?u)" by (simp add: user_ok_def)
  obtain fs1 where w1: "writeUser rootDir ?u fs = (Inr (), fs1)" and rd1: "readable rootDir fs1"
    by (rule writeUser_total [OF rd i64])
  obtain fs2 where w2: "writeUser rootDir ?u fs1 = (Inr (), fs2)" by (rule writeUser_total [OF rd1 i64])
  show ?thesis
    using recovery_read_ready [OF assms, of issuer now1] recovery_read_ready [OF assms, of issuer now2] w1 w2
    by (simp add: commit_def)
qed

lemma demo_upper: "ToUpper ''bbbb'' = ''BBBB''"
  by (simp add: ToUpper_def upper_rune_def encode_rune_def valid_rune_def encode_bytes_def) code_simp

lemma demo_take: "take_code (ToUpper ''bbbb'') False [''AAAA'', ''BBBB''] = (True, [''AAAA''])"
  unfolding demo_upper by (simp add: EqualFold_def fold_rune_def)

lemma demo_active_matches: "matches ''bob'' demo_active" "TOTPVerified demo_active"
  by (simp_all add: matches_def demo_active_def demo_user_def)

theorem recovery_code_race_witness:
  "\<exists>u' r1 r2 fs1 fs2.
    recovery_read [''data''] demo_issuer 1000 (Some demo_recovery) (demo_store demo_active) = (Store u' r1, demo_store demo_active) \<and>
    recovery_read [''data''] demo_issuer 1001 (Some demo_recovery) (demo_store demo_active) = (Store u' r2, demo_store demo_active) \<and>
    commit [''data''] u' r1 (demo_store demo_active) = (r1, fs1) \<and> commit [''data''] u' r2 fs1 = (r2, fs2) \<and>
    respCode r1 = 200 \<and> respCode r2 = 200"
  using recovery_code_race [OF demo_store_facts(1-3) [OF demo_active_ok], of "\<lparr>rcQuery = ''bob'', rcCode = ''bbbb''\<rparr>"
      "Some demo_recovery" "[''AAAA'']" demo_issuer 1000 1001] demo_active_matches demo_bind_recovery demo_take
  by (auto simp: demo_active_def)

theorem recovery_code_once_witness:
  "\<exists>resp fs'. RecoveryCodeLoginHandler [''data''] demo_issuer 1000 (Some demo_recovery) (demo_store demo_active) = (resp, fs')
     \<and> respCode resp = 200
     \<and> respCode (fst (RecoveryCodeLoginHandler [''data''] demo_issuer 1001 (Some demo_recovery) fs')) \<noteq> 200"
proof -
  let ?fs = "demo_store demo_active" and ?u = "demo_active\<lparr>RecoveryCodes := [''AAAA'']\<rparr>"
  let ?r = "c_JSON 200 [(''token'', VString (Issue demo_issuer 1000 (ID demo_active)))]"
  note facts = demo_store_facts [OF demo_active_ok]
  have "recovery_read [''data''] demo_issuer 1000 (Some demo_recovery) ?fs = (Store ?u ?r, ?fs)"
    using demo_active_matches demo_take
    by (intro recovery_read_ready [OF facts(1-3) _ _ demo_bind_recovery]) (simp_all add: demo_active_def)
  moreover have "int64 (UID ?u)" by (simp add: demo_active_def demo_user_def int64_def)
  then obtain fs' where "writeUser [''data''] ?u ?fs = (Inr (), fs')" by (rule writeUser_total [OF facts(2)])
  ultimately have h: "RecoveryCodeLoginHandler [''data''] demo_issuer 1000 (Some demo_recovery) ?fs = (?r, fs')"
    by (simp add: RecoveryCodeLoginHandler_def finish_def commit_def)
  have "codes_apart (RecoveryCodes demo_active)"
    by (simp add: codes_apart_def demo_active_def EqualFold_def fold_rune_def)
  with recovery_code_once [OF facts(1) h, of fs' demo_issuer 1001] facts(5) h show ?thesis by simp
qed

section \<open>The text of recovery codes\<close>

lemma digits_determine:
  "v < b ^ n \<Longrightarrow> w < b ^ n \<Longrightarrow> (\<forall>i<n. v div b ^ i mod b = w div b ^ i mod b) \<Longrightarrow> v = w" for v w b :: nat
proof (induction n arbitrary: v w)
  case (Suc n)
  have "v div b < b ^ n" "w div b < b ^ n"
    using Suc.prems(1,2) by (auto simp: less_mult_imp_div_less mult.commute)
  moreover have "\<forall>i<n. v div b div b ^ i mod b = w div b div b ^ i mod b"
    using Suc.prems(3) by (auto simp: div_mult2_eq [symmetric] dest: spec [where x = "Suc _"])
  ultimately have "v div b = w div b" by (rule Suc.IH)
  moreover have "v mod b = w mod b" using Suc.prems(3) by (auto dest: spec [where x = 0])
  ultimately show ?case by (metis div_mult_mod_eq)
qed simp

lemma bytes_value_bound:
  "\<forall>b\<in>set bs. b < 256 \<Longrightarrow> foldl (\<lambda>acc b. acc * 256 + b) a bs < (a + 1) * 256 ^ length bs" for a :: nat
proof (induction bs arbitrary: a)
  case (Cons b bs)
  have "foldl (\<lambda>acc b. acc * 256 + b) (a * 256 + b) bs < (a * 256 + b + 1) * 256 ^ length bs"
    using Cons by simp
  also have "\<dots> \<le> ((a + 1) * 256) * 256 ^ length bs" using Cons.prems by (intro mult_right_mono) auto
  finally show ?case by (simp add: algebra_simps)
qed simp

lemma bytes_value_inj:
  "length bs = length cs \<Longrightarrow> \<forall>b\<in>set bs. b < 256 \<Longrightarrow> \<forall>c\<in>set cs. c < 256 \<Longrightarrow>
   foldl (\<lambda>acc b. acc * 256 + b) 0 bs = foldl (\<lambda>acc b. acc * 256 + b) 0 cs \<Longrightarrow> bs = (cs :: nat list)"
proof (induction bs arbitrary: cs rule: rev_induct)
  case (snoc b bs)
  obtain c cs' where cs: "cs = cs' @ [c]" using snoc.prems(1) by (cases cs rule: rev_cases) auto
  let ?v = "foldl (\<lambda>acc b. acc * 256 + b) 0"
  have eq: "?v bs * 256 + b = ?v cs' * 256 + c" "b < 256" "c < 256" using snoc.prems cs by auto
  have "?v bs = (?v bs * 256 + b) div 256" "?v cs' = (?v cs' * 256 + c) div 256" using eq(2,3) by simp_all
  then have "?v bs = ?v cs'" using eq(1) by simp
  then have "b = c" using eq(1) by simp
  with \<open>?v bs = ?v cs'\<close> snoc cs show ?case by auto
qed simp

lemma base32_char_inj: "d < 32 \<Longrightarrow> e < 32 \<Longrightarrow> base32_char d = base32_char e \<Longrightarrow> d = e"
proof -
  assume "d < 32" "e < 32" "base32_char d = base32_char e"
  then have "byte_of (base32_char d) = (byte_of (base32_char e) :: nat)" by simp
  with \<open>d < 32\<close> \<open>e < 32\<close> show ?thesis by (auto simp: base32_char_def split: if_splits)
qed

definition code_char :: "char \<Rightarrow> bool" where
  "code_char c \<longleftrightarrow> CHR ''A'' \<le> c \<and> c \<le> CHR ''Z'' \<or> CHR ''2'' \<le> c \<and> c \<le> CHR ''7''"

lemma code_char_byte: "code_char c \<longleftrightarrow> 65 \<le> byte_of c \<and> byte_of c \<le> (90::nat) \<or> 50 \<le> byte_of c \<and> byte_of c \<le> (55::nat)"
  by (simp add: code_char_def less_eq_char_def)

lemma base32_char_code: "d < 32 \<Longrightarrow> code_char (base32_char d)"
proof -
  have "list_all (\<lambda>d. code_char (base32_char d)) [0..<32]" by code_simp
  then show "d < 32 \<Longrightarrow> code_char (base32_char d)" by (simp add: list_all_iff)
qed

definition bytes10 :: "byte list \<Rightarrow> bool" where
  "bytes10 bs \<longleftrightarrow> length bs = 10 \<and> (\<forall>b\<in>set bs. b < 256)"

lemma base32_group5:
  "length bs = 5 \<Longrightarrow> base32_group bs =
   map (\<lambda>i. base32_char (foldl (\<lambda>acc b. acc * 256 + b) 0 bs div 32 ^ (7 - i) mod 32)) [0..<8]"
  by (simp add: base32_group_def Let_def)

lemma base32_group_inj:
  assumes "length bs = 5" "length cs = 5" "\<forall>b\<in>set bs. b < 256" "\<forall>c\<in>set cs. c < 256"
    "base32_group bs = base32_group cs"
  shows "bs = cs"
proof -
  let ?v = "foldl (\<lambda>acc b. acc * 256 + b) (0::nat)"
  have "\<forall>j<8. base32_char (?v bs div 32 ^ (7 - j) mod 32) = base32_char (?v cs div 32 ^ (7 - j) mod 32)"
    using assms(5) unfolding base32_group5 [OF assms(1)] base32_group5 [OF assms(2)] map_eq_conv by simp
  then have d: "\<forall>j<8. ?v bs div 32 ^ (7 - j) mod 32 = ?v cs div 32 ^ (7 - j) mod 32"
    using base32_char_inj by simp
  have "\<forall>i<8. ?v bs div 32 ^ i mod 32 = ?v cs div 32 ^ i mod 32"
  proof (intro allI impI)
    fix i :: nat assume "i < 8"
    then show "?v bs div 32 ^ i mod 32 = ?v cs div 32 ^ i mod 32" using d [rule_format, of "7 - i"] by simp
  qed
  moreover have "?v bs < 32 ^ 8" "?v cs < 32 ^ 8"
    using bytes_value_bound [OF assms(3), of 0] bytes_value_bound [OF assms(4), of 0] assms(1,2) by simp_all
  ultimately have "?v bs = ?v cs" using digits_determine [of "?v bs" 32 8 "?v cs"] by blast
  then show ?thesis using bytes_value_inj assms by simp
qed

lemma bytes10_split: "bytes10 bs \<Longrightarrow> bs = take 5 bs @ drop 5 bs \<and> length (take 5 bs) = 5 \<and> length (drop 5 bs) = 5
    \<and> (\<forall>b\<in>set (take 5 bs). b < 256) \<and> (\<forall>b\<in>set (drop 5 bs). b < 256)"
  by (auto simp: bytes10_def dest: in_set_takeD in_set_dropD)

lemma base32_10: "bytes10 bs \<Longrightarrow> base32_EncodeToString bs = base32_group (take 5 bs) @ base32_group (drop 5 bs)"
  by (auto simp: bytes10_def numeral_eq_Suc length_Suc_conv)

lemma code_char_ascii: "list_all code_char s \<Longrightarrow> ascii s"
  by (auto simp: list_all_iff code_char_byte ascii_def)

lemma ToUpper_code: "list_all code_char s \<Longrightarrow> ToUpper s = s"
proof -
  assume s: "list_all code_char s"
  have "encode_rune (upper_rune (byte_of c)) = [c]" if "code_char c" for c
  proof -
    have "upper_rune (byte_of c) = byte_of c" "byte_of c < (128::nat)"
      using that by (auto simp: code_char_byte upper_rune_def)
    then show ?thesis by (simp add: encode_rune_ascii)
  qed
  then have "map (encode_rune \<circ> upper_rune) (map byte_of s) = map (\<lambda>c. [c]) s"
    using s by (simp add: list_all_iff)
  then show ?thesis by (simp only: ToUpper_def runes_ascii [OF code_char_ascii [OF s]]) simp
qed

lemma base32_10_props:
  assumes "bytes10 bs"
  shows "length (base32_EncodeToString bs) = 16" "list_all code_char (base32_EncodeToString bs)"
proof -
  have "length (base32_group cs) = 8 \<and> list_all code_char (base32_group cs)" if "length cs = 5" for cs
    using base32_char_code by (simp add: base32_group5 [OF that] list_all_iff del: upt_Suc upt_rec_numeral)
  with bytes10_split [OF assms] show "length (base32_EncodeToString bs) = 16" "list_all code_char (base32_EncodeToString bs)"
    by (simp_all add: base32_10 [OF assms])
qed

definition code_groups :: "string \<Rightarrow> string" where
  "code_groups raw = take 4 raw @ ''-'' @ take 4 (drop 4 raw) @ ''-'' @ take 4 (drop 8 raw) @ ''-'' @ drop 12 raw"

lemma recovery_code_groups: "bytes10 bs \<Longrightarrow> recovery_code bs = code_groups (base32_EncodeToString bs)"
  by (simp add: recovery_code_def code_groups_def Let_def ToUpper_code base32_10_props)

lemma code_groups_inj: "length a = 16 \<Longrightarrow> length b = 16 \<Longrightarrow> code_groups a = code_groups b \<Longrightarrow> a = b"
  by (auto simp: code_groups_def numeral_eq_Suc length_Suc_conv)

lemma recovery_code_inj:
  assumes "bytes10 bs" "bytes10 cs" "recovery_code bs = recovery_code cs"
  shows "bs = cs"
proof -
  have "base32_EncodeToString bs = base32_EncodeToString cs"
    using assms(3) unfolding recovery_code_groups [OF assms(1)] recovery_code_groups [OF assms(2)]
    by (rule code_groups_inj [OF base32_10_props(1) [OF assms(1)] base32_10_props(1) [OF assms(2)]])
  moreover have "length (base32_group (take 5 bs)) = length (base32_group (take 5 cs))"
    using bytes10_split [OF assms(1)] bytes10_split [OF assms(2)] by (simp add: base32_group5)
  ultimately have "base32_group (take 5 bs) = base32_group (take 5 cs)" "base32_group (drop 5 bs) = base32_group (drop 5 cs)"
    by (simp_all add: base32_10 [OF assms(1)] base32_10 [OF assms(2)])
  then have "take 5 bs = take 5 cs" "drop 5 bs = drop 5 cs"
    using base32_group_inj bytes10_split [OF assms(1)] bytes10_split [OF assms(2)] by blast+
  then show ?thesis by (metis append_take_drop_id)
qed

text \<open>Folding case does not merge codes: their letters are all capitals.\<close>

lemma EqualFold_codes:
  assumes "list_all (\<lambda>c. code_char c \<or> c = CHR ''-'') a" "list_all (\<lambda>c. code_char c \<or> c = CHR ''-'') b" "EqualFold a b"
  shows "a = b"
proof -
  have asc: "ascii a" "ascii b" using assms(1,2) by (auto simp: list_all_iff ascii_def code_char_byte)
  have inj: "c = d" if "code_char c \<or> c = CHR ''-''" "code_char d \<or> d = CHR ''-''"
    "fold_rune (byte_of c) = fold_rune (byte_of d)" for c d
  proof -
    have "byte_of c = (byte_of d :: nat)"
      using that by (auto simp: code_char_byte fold_rune_def split: if_splits)
    then show ?thesis by simp
  qed
  have "map (\<lambda>c. fold_rune (byte_of c)) a = map (\<lambda>c. fold_rune (byte_of c)) b"
    using assms(3) asc by (simp add: EqualFold_def runes_ascii comp_def)
  then show ?thesis
    using assms(1,2) inj by (intro list.inj_map_strong [of a b]) (auto simp: list_all_iff)
qed

lemma generate_codes_Some:
  "generate_codes rand_read i n = Some codes \<longleftrightarrow>
   (\<forall>j<n. rand_read (i + j) \<noteq> None) \<and> codes = map (\<lambda>j. recovery_code (the (rand_read (i + j)))) [0..<n]"
proof (induction n arbitrary: i codes)
  case (Suc n)
  have up: "[0..<Suc n] = 0 # map Suc [0..<n]" by (simp add: map_Suc_upt upt_conv_Cons)
  show ?case
  proof (cases "rand_read i")
    case None
    then show ?thesis by (auto intro: exI [of _ 0])
  next
    case (Some bs)
    have "(\<forall>j<Suc n. rand_read (i + j) \<noteq> None) \<longleftrightarrow> (\<forall>j<n. rand_read (Suc i + j) \<noteq> None)"
      using Some by (auto simp: less_Suc_eq_0_disj)
    then show ?thesis unfolding up
      using Suc.IH [of "Suc i"] Some by (cases "generate_codes rand_read (Suc i) n") (auto simp: comp_def)
  qed
qed auto

text \<open>
  Recovery codes carry all the randomness that was drawn. Whenever the ten reads of the
  system's random source succeed, ten codes come back, each four groups of four capital
  letters and digits 2 to 7 joined by dashes; different random bytes give different codes,
  and if the ten draws differ then the codes are pairwise different even up to letter case,
  so a typed code can match one of them only.
\<close>

lemma generateRecoveryCodes_correct:
  assumes "\<And>i. i < 10 \<Longrightarrow> \<exists>bs. rand_read i = Some bs \<and> bytes10 bs"
  shows "\<exists>codes. generateRecoveryCodes rand_read = Some codes \<and> length codes = 10
    \<and> (\<forall>c\<in>set codes. \<exists>raw. length raw = 16 \<and> list_all code_char raw \<and> c = code_groups raw)
    \<and> (\<forall>i<10. \<forall>j<10. codes ! i = codes ! j \<longleftrightarrow> rand_read i = rand_read j)
    \<and> (distinct (map rand_read [0..<10]) \<longrightarrow> codes_apart codes)"
proof -
  let ?b = "\<lambda>i. the (rand_read i)"
  let ?codes = "map (\<lambda>i. recovery_code (?b i)) [0..<10]"
  have b: "bytes10 (?b i)" "rand_read i = Some (?b i)" if "i < 10" for i using assms [OF that] by auto
  have gen: "generateRecoveryCodes rand_read = Some ?codes"
    using b(2) by (simp add: generateRecoveryCodes_def generate_codes_Some del: upt_rec_numeral) force
  have form: "\<exists>raw. length raw = 16 \<and> list_all code_char raw \<and> c = code_groups raw" if "c \<in> set ?codes" for c
    using that b(1) base32_10_props recovery_code_groups by (fastforce simp del: upt_rec_numeral)
  have inj: "recovery_code (?b i) = recovery_code (?b j) \<longleftrightarrow> rand_read i = rand_read j" if "i < 10" "j < 10" for i j
    using recovery_code_inj [OF b(1) [OF that(1)] b(1) [OF that(2)]] b(2) [OF that(1)] b(2) [OF that(2)] by metis
  have "codes_apart ?codes" if d: "distinct (map rand_read [0..<10])"
  proof -
    have "inj_on (\<lambda>i. recovery_code (?b i)) {0..<10}"
      using inj d by (auto simp: inj_on_def distinct_map simp del: upt_rec_numeral)
    then have "distinct ?codes" by (simp add: distinct_map del: upt_rec_numeral)
    moreover have "list_all (\<lambda>c. code_char c \<or> c = CHR ''-'') c" if c: "c \<in> set ?codes" for c
    proof -
      obtain raw where "\<forall>x\<in>set raw. code_char x" "c = code_groups raw" using form [OF c] by (auto simp: list_all_iff)
      then show ?thesis by (auto simp: code_groups_def list_all_iff dest!: in_set_takeD in_set_dropD)
    qed
    ultimately show ?thesis using EqualFold_codes unfolding codes_apart_def by blast
  qed
  with gen form inj show ?thesis by (intro exI [of _ ?codes]) (simp del: upt_rec_numeral)
qed

definition demo_rand :: "nat \<Rightarrow> byte list option" where
  "demo_rand i = Some (i # replicate 9 7)"

end
