(* ===== verification/HttpApi.thy ===== *)
theory HttpApi
  imports Totp
begin

text \<open>
  The HTTP service as a whole: the routes \<^verbatim>\<open>main.go\<close> registers, as a step relation on
  the file system and the requests that have read the store but not yet written
  back. Registration and profile editing hold the mutex throughout and are one
  step; a two-factor request is a read step and, any time later, a commit. Before
  every step the environment may choose new faults. The theorem is an invariant
  of every interleaving.
\<close>

section \<open>States and steps\<close>

record api_env =
  apiRoot :: path
  apiMailDomain :: string
  apiIssuer :: TokenIssuer
  apiSchema :: ProfileSchema

record api_state =
  files :: fsys
  inflight :: "(user \<times> response) list"

definition api_init :: "api_env \<Rightarrow> api_state \<Rightarrow> bool" where
  "api_init env s \<longleftrightarrow> clean_path (apiRoot env) \<and> tree (files s) = [] \<and> inflight s = []"

definition add_pending :: "pending \<Rightarrow> (user \<times> response) list \<Rightarrow> (user \<times> response) list" where
  "add_pending p xs = (case p of Respond _ \<Rightarrow> xs | Store u resp \<Rightarrow> (u, resp) # xs)"

inductive api_step :: "api_env \<Rightarrow> api_state \<Rightarrow> api_state \<Rightarrow> bool" for env where
  Faults: "api_step env s (s\<lparr>files := (files s)\<lparr>faults := fp\<rparr>\<rparr>)"
| Register: "RegisterHandler (apiRoot env) parseAddress hashPassword (apiMailDomain env) now doc (files s) = (resp, fs') \<Longrightarrow>
    api_step env s (s\<lparr>files := fs'\<rparr>)"
| Login: "LoginHandler (apiRoot env) checkHash (apiIssuer env) now doc (files s) = (resp, fs') \<Longrightarrow>
    api_step env s (s\<lparr>files := fs'\<rparr>)"
| TotpLogin: "TotpLoginHandler (apiRoot env) validate (apiIssuer env) now doc (files s) = (resp, fs') \<Longrightarrow>
    api_step env s (s\<lparr>files := fs'\<rparr>)"
| ProfileEdit: "ProfileEditHandler (apiRoot env) (apiIssuer env) (apiSchema env) now doc (files s) = (resp, fs') \<Longrightarrow>
    api_step env s (s\<lparr>files := fs'\<rparr>)"
| ProfileView: "ProfileViewHandler (apiRoot env) (apiIssuer env) (apiSchema env) now doc (files s) = (resp, fs') \<Longrightarrow>
    api_step env s (s\<lparr>files := fs'\<rparr>)"
| TotpRead: "totp_read (apiRoot env) checkHash call (files s) = (p, fs') \<Longrightarrow>
    api_step env s (s\<lparr>files := fs', inflight := add_pending p (inflight s)\<rparr>)"
| TotpCommit: "inflight s = xs @ (u, ok) # ys \<Longrightarrow> commit (apiRoot env) u ok (files s) = (resp, fs') \<Longrightarrow>
    api_step env s (s\<lparr>files := fs', inflight := xs @ ys\<rparr>)"

section \<open>The invariant\<close>

text \<open>
  Two records agree when they are records of one user, or of two users that share neither
  identifier nor e-mail address. All records on disk and in flight agree pairwise.
\<close>

definition agree :: "user \<Rightarrow> user \<Rightarrow> bool" where
  "agree u v \<longleftrightarrow> (if UID u = UID v then ID u = ID v \<and> EqualFold (Email u) (Email v) else \<not> clash u v)"

definition totp_ok :: "user \<Rightarrow> bool" where
  "totp_ok u \<longleftrightarrow> (TOTPVerified u \<longrightarrow> TOTPSecret u \<noteq> []) \<and> (RecoveryCodes u \<noteq> [] \<longrightarrow> TOTPVerified u)"

definition has_file :: "path \<Rightarrow> fsys \<Rightarrow> user \<Rightarrow> bool" where
  "has_file rootDir fs u \<longleftrightarrow> (\<exists>c. fs_lookup fs (userPath rootDir (UID u)) = Some (File c))"

definition population :: "path \<Rightarrow> api_state \<Rightarrow> user set" where
  "population rootDir s = abs_users rootDir (files s) \<union> fst ` set (inflight s)"

definition api_inv :: "api_env \<Rightarrow> nat \<Rightarrow> api_state \<Rightarrow> bool" where
  "api_inv env n s \<longleftrightarrow> store_inv (apiRoot env) (files s)
    \<and> (\<forall>u\<in>population (apiRoot env) s. user_ok u \<and> UID u \<le> int n \<and> totp_ok u)
    \<and> (\<forall>u\<in>fst ` set (inflight s). has_file (apiRoot env) (files s) u)
    \<and> (\<forall>u\<in>population (apiRoot env) s. \<forall>v\<in>population (apiRoot env) s. agree u v)"

lemma totp_ok_step: "totp_step call u u' \<Longrightarrow> totp_ok u \<Longrightarrow> totp_ok u'"
  by (induction rule: totp_step.induct) (auto simp: totp_ok_def take_code_iff)

lemma json_str_Nil: "json_str s = [] \<longleftrightarrow> s = []"
proof (cases s)
  case (Cons c cs)
  have "runes s \<noteq> []" unfolding runes_def Cons by (subst chunks.simps) (simp split: prod.splits)
  moreover have "encode_rune r \<noteq> []" for r by (simp add: encode_rune_def)
  ultimately show ?thesis using Cons by (cases "runes s") (auto simp: json_str_def)
qed (simp add: json_str_def)

lemma norm_facts:
  assumes "user_ok u"
  shows "UID (norm_user u) = UID u" "ID (norm_user u) = ID u" "EqualFold (Email (norm_user u)) t \<longleftrightarrow> EqualFold (Email u) t"
    "EqualFold t (Email (norm_user u)) \<longleftrightarrow> EqualFold t (Email u)"
    "user_ok (norm_user u)" "totp_ok (norm_user u) = totp_ok u"
proof -
  have "json_str (ID u) = ID u" using assms by (simp add: user_ok_def json_str_ascii [OF idPattern_ascii])
  then show "UID (norm_user u) = UID u" "ID (norm_user u) = ID u" "EqualFold (Email (norm_user u)) t \<longleftrightarrow> EqualFold (Email u) t"
    "EqualFold t (Email (norm_user u)) \<longleftrightarrow> EqualFold t (Email u)"
    "user_ok (norm_user u)" "totp_ok (norm_user u) = totp_ok u"
    using assms by (simp_all add: norm_user_def user_ok_def totp_ok_def json_str_Nil json_str_ascii_mem)
qed

text \<open>Only the identity of a record matters for agreement, and storing keeps it.\<close>

lemma agree_sym: "agree u v \<longleftrightarrow> agree v u"
  by (auto simp: agree_def clash_def EqualFold_sym)

lemma agree_refl: "agree u u"
  by (simp add: agree_def)

lemma agree_same:
  assumes "UID w = UID u" "ID w = ID u" "\<And>t. EqualFold (Email w) t \<longleftrightarrow> EqualFold (Email u) t"
  shows "agree w v \<longleftrightarrow> agree u v"
  using assms by (simp add: agree_def clash_def)

lemma agree_norm: "user_ok u \<Longrightarrow> agree (norm_user u) v \<longleftrightarrow> agree u v"
  by (rule agree_same) (simp_all add: norm_facts)

lemma writeUser_file:
  assumes "has_file rootDir fs v"
  shows "has_file rootDir (snd (writeUser rootDir u fs)) v"
proof -
  obtain r fs' where wr: "writeUser rootDir u fs = (r, fs')" by fastforce
  obtain c where c: "fs_lookup fs (userPath rootDir (UID v)) = Some (File c)" using assms by (auto simp: has_file_def)
  obtain r1 fs1 where mk: "MkdirAll (butlast (userPath rootDir (UID u))) fs = (r1, fs1)" by fastforce
  have c1: "fs_lookup fs1 (userPath rootDir (UID v)) = Some (File c)" using MkdirAll_files [OF mk] c by simp
  let ?w = "WriteFile (userPath rootDir (UID u)) (Json (marshal_user u)) fs1"
  have fs': "fs' = fs1 \<or> fs' = snd ?w"
    using wr mk by (auto simp: writeUser_def split: sum.splits prod.splits)
  have "\<exists>c. fs_lookup (snd ?w) (userPath rootDir (UID v)) = Some (File c)"
  proof (cases "userPath rootDir (UID v) = userPath rootDir (UID u)")
    case True
    obtain r2 fs2 where w: "?w = (r2, fs2)" by fastforce
    show ?thesis
    proof (cases r2)
      case (Inl e)
      from WriteFile_Inl [OF w [unfolded Inl]] show ?thesis using True c1 w by auto
    next
      case (Inr x)
      from WriteFile_Inr [OF w [unfolded Inr]] show ?thesis using True w by simp
    qed
  next
    case False
    with c1 show ?thesis by (simp add: WriteFile_frame)
  qed
  then show ?thesis using fs' c1 wr by (auto simp: has_file_def)
qed

lemma has_file_view: "user_view rootDir fs (Itoa (UID u)) \<noteq> None \<Longrightarrow> has_file rootDir fs u"
  by (auto simp: has_file_def user_view_def userPath_eq split: option.splits node.splits)

lemma abs_users_writeUser:
  assumes "writeUser rootDir u fs = (r, fs')" "wf_fs fs" "wf_fs fs'" "int64 (UID u)"
  shows "abs_users rootDir fs' \<subseteq> insert (norm_user u) (abs_users rootDir fs)"
proof
  fix v assume "v \<in> abs_users rootDir fs'"
  then obtain n where n: "user_view rootDir fs' n = Some v" by (auto simp: abs_users_def)
  show "v \<in> insert (norm_user u) (abs_users rootDir fs)"
  proof (cases "n = Itoa (UID u)")
    case True
    show ?thesis
      using n writeUser_view_Inr [of rootDir u fs _ fs'] writeUser_view_Inl [of rootDir u fs _ fs'] assms True
        abs_users_view [OF assms(2)] by (cases r) force+
  next
    case False
    then show ?thesis using n writeUser_view_other [OF assms(1)] abs_users_view [OF assms(2)] by auto
  qed
qed

section \<open>Preservation\<close>

lemma api_invD:
  assumes "api_inv env n s"
  shows "store_inv (apiRoot env) (files s)" "u \<in> population (apiRoot env) s \<Longrightarrow> user_ok u \<and> UID u \<le> int n \<and> totp_ok u"
    "(u, r) \<in> set (inflight s) \<Longrightarrow> has_file (apiRoot env) (files s) u"
    "u \<in> population (apiRoot env) s \<Longrightarrow> v \<in> population (apiRoot env) s \<Longrightarrow> agree u v"
  using assms unfolding api_inv_def by (blast, blast, force, blast)

lemma api_inv_Suc: "api_inv env n s \<Longrightarrow> api_inv env (Suc n) s"
  unfolding api_inv_def by (metis (no_types, lifting) int_ops(4) less_add_one order_less_imp_le order_trans of_nat_Suc add.commute)

lemma api_inv_reads:
  assumes "api_inv env n s" "\<And>p. fs_lookup fs' p = fs_lookup (files s) p"
  shows "api_inv env (Suc n) (s\<lparr>files := fs'\<rparr>)"
proof -
  have "abs_users (apiRoot env) fs' = abs_users (apiRoot env) (files s)"
    using user_view_cong [OF assms(2)] by (simp add: abs_users_def)
  moreover have "store_inv (apiRoot env) fs' = store_inv (apiRoot env) (files s)" by (rule store_inv_cong) (rule assms(2))
  ultimately have "api_inv env n (s\<lparr>files := fs'\<rparr>)"
    using assms by (simp add: api_inv_def population_def has_file_def)
  then show ?thesis by (rule api_inv_Suc)
qed

text \<open>Writing a record that agrees with everybody.\<close>

lemma api_inv_write:
  assumes inv: "api_inv env n s" and w: "user_ok w" "UID w \<le> int (Suc n)" "totp_ok w"
    and agr: "\<And>v. v \<in> population (apiRoot env) s \<Longrightarrow> agree w v"
    and look: "\<And>p. fs_lookup fs1 p = fs_lookup (files s) p"
    and wr: "writeUser (apiRoot env) w fs1 = (r, fs')" and sub: "set xs \<subseteq> set (inflight s)"
  shows "api_inv env (Suc n) (s\<lparr>files := fs', inflight := xs\<rparr>)"
proof -
  let ?R = "apiRoot env"
  let ?s' = "s\<lparr>files := fs', inflight := xs\<rparr>"
  have abs1: "abs_users ?R fs1 = abs_users ?R (files s)" using user_view_cong [OF look] by (simp add: abs_users_def)
  have inv1: "store_inv ?R fs1" using store_inv_cong [OF look] api_invD(1) [OF inv] by simp
  have "store_inv ?R (snd (writeUser ?R w fs1))"
  proof (rule store_inv_writeUser [OF inv1 w(1)])
    fix v assume "v \<in> abs_users ?R fs1" "UID v \<noteq> UID w"
    then show "\<not> clash w v" using agr [of v] by (auto simp: population_def abs1 agree_def)
  qed
  then have inv': "store_inv ?R fs'" using wr by simp
  have pop: "v \<in> population ?R ?s' \<Longrightarrow> v \<in> population ?R s \<or> v = norm_user w" for v
    using abs_users_writeUser [OF wr store_invD(2) [OF inv1] store_invD(2) [OF inv']] w(1) sub
    by (auto simp: population_def abs1 user_ok_def)
  have "agree a b" if "a \<in> population ?R ?s'" "b \<in> population ?R ?s'" for a b
    using pop [OF that(1)] pop [OF that(2)] api_invD(4) [OF inv] agr agree_norm [OF w(1)] agree_sym agree_refl by metis
  moreover have "user_ok a \<and> UID a \<le> int (Suc n) \<and> totp_ok a" if "a \<in> population ?R ?s'" for a
    using pop [OF that] api_invD(2) [OF inv] w norm_facts [OF w(1)] by force
  moreover have "has_file ?R fs' a" if "a \<in> fst ` set xs" for a
  proof -
    have "has_file ?R fs1 a" using that sub api_invD(3) [OF inv] look by (auto simp: has_file_def)
    then show ?thesis using writeUser_file [of ?R fs1 a w] wr by simp
  qed
  ultimately show ?thesis using inv' by (simp add: api_inv_def)
qed

text \<open>After a successful load every record in flight has its user on disk.\<close>

lemma inflight_on_disk:
  assumes inv: "api_inv env n s" and load: "loadUsers (apiRoot env) (files s) = (Inr us, fs1)"
    and v: "v \<in> population (apiRoot env) s"
  shows "\<exists>v'\<in>set us. UID v' = UID v \<and> ID v' = ID v \<and> EqualFold (Email v') (Email v)"
proof -
  let ?R = "apiRoot env"
  note sinv = api_invD(1) [OF inv] and wf = store_invD(2) [OF api_invD(1) [OF inv]]
  have set: "set us = abs_users ?R (files s)" using loadUsers_Inr(1) [OF load wf] set_user_list [OF wf] by simp
  show ?thesis
  proof (cases "v \<in> abs_users ?R (files s)")
    case False
    then obtain r where "(v, r) \<in> set (inflight s)" using v by (auto simp: population_def)
    then obtain c where "fs_lookup (files s) (?R @ [Itoa (UID v), ''user.json'']) = Some (File c)"
      using api_invD(3) [OF inv] by (auto simp: has_file_def userPath_eq)
    with loadUsers_decodes [OF load wf] obtain v' where v': "user_view ?R (files s) (Itoa (UID v)) = Some v'" by blast
    then have "UID v' = UID v" using store_invD(3) [OF sinv v'] Itoa_inj [of "UID v" "UID v'"] by simp
    moreover have in_abs: "v' \<in> abs_users ?R (files s)" using v' abs_users_view [OF wf] by blast
    moreover have "agree v' v" using api_invD(4) [OF inv _ v] in_abs by (simp add: population_def)
    ultimately show ?thesis by (auto simp: agree_def set)
  qed (auto simp: set)
qed

lemma api_inv_register:
  assumes inv: "api_inv env n s" and n: "n < 2 ^ 63 - 1"
    and h: "RegisterHandler (apiRoot env) parseAddress hashPassword mailDomain now doc (files s) = (resp, fs')"
  shows "api_inv env (Suc n) (s\<lparr>files := fs'\<rparr>)"
  using h
proof (cases rule: RegisterHandler_cases)
  case refused
  then show ?thesis using api_inv_reads [OF inv, of "files s"] by simp
next
  case (called req r)
  let ?R = "apiRoot env"
  have room: "uid_room ?R (files s)"
    using api_invD(2) [OF inv] n by (force simp: uid_room_def population_def)
  note sinv = api_invD(1) [OF inv] and wf = store_invD(2) [OF api_invD(1) [OF inv]]
  from called(2) have req: "idPattern (reqID req)" "CHR ''@'' \<in> set (reqEmail req)" by (auto simp: validateRegister_0)
  from register_writes [OF called(3)] consider
      (stored) us fs1 hash r2 where "loadUsers ?R (files s) = (Inr us, fs1)" "collision us req = 0"
        "writeUser ?R (new_user req (next_uid us) hash now) fs1 = (r2, fs')"
    | (same) "\<forall>p. fs_lookup fs' p = fs_lookup (files s) p" by blast
  then show ?thesis
  proof cases
    case same
    then show ?thesis using api_inv_reads [OF inv] by blast
  next
    case stored
    let ?u = "new_user req (next_uid us) hash now"
    have set: "set us = abs_users ?R (files s)" using loadUsers_Inr(1) [OF stored(1) wf] set_user_list [OF wf] by simp
    have "agree ?u v" if v: "v \<in> population ?R s" for v
    proof -
      obtain v' where v': "v' \<in> set us" "UID v' = UID v" "ID v' = ID v" "EqualFold (Email v') (Email v)"
        using inflight_on_disk [OF inv stored(1) v] by blast
      have "UID v < next_uid us" using register_uid(3) [OF sinv room stored(1), of v'] v' set by simp
      moreover have "\<not> clash ?u v"
        using stored(2) v' EqualFold_trans EqualFold_sym unfolding collision_0 clash_def new_user_simps by metis
      ultimately show ?thesis by (simp add: agree_def)
    qed
    moreover have "next_uid us \<le> int (Suc n)"
      using register_uid(1) [OF sinv room stored(1)] api_invD(2) [OF inv] finite_abs_users [OF wf]
      by (auto simp: population_def)
    moreover have "user_ok ?u" using register_uid(2) [OF sinv room stored(1)] req by simp
    moreover have "totp_ok ?u" by (simp add: totp_ok_def new_user_def zero_user_def)
    ultimately show ?thesis
      using api_inv_write [OF inv _ _ _ _ loadUsers_Inr(2) [OF stored(1) wf] stored(3) subset_refl] by simp
  qed
qed

text \<open>Writing back a record whose identity is in the population.\<close>

lemma api_inv_rewrite:
  assumes inv: "api_inv env n s" and u: "u \<in> population (apiRoot env) s"
    and w: "UID w = UID u" "ID w = ID u" "Email w = Email u" "totp_ok w"
    and rest: "\<And>p. fs_lookup fs1 p = fs_lookup (files s) p" "writeUser (apiRoot env) w fs1 = (r, fs')"
      "set xs \<subseteq> set (inflight s)"
  shows "api_inv env (Suc n) (s\<lparr>files := fs', inflight := xs\<rparr>)"
proof (rule api_inv_write [OF inv _ _ w(4) _ rest])
  show "user_ok w" "UID w \<le> int (Suc n)" using api_invD(2) [OF inv u] w by (auto simp: user_ok_def)
  show "agree w v" if "v \<in> population (apiRoot env) s" for v
    using api_invD(4) [OF inv u that] agree_same [of w u v] w by simp
qed

lemma api_inv_edit:
  assumes inv: "api_inv env n s"
    and h: "ProfileEditHandler (apiRoot env) issuer schema now doc (files s) = (resp, fs')"
  shows "api_inv env (Suc n) (s\<lparr>files := fs'\<rparr>)"
  using h
proof (cases rule: ProfileEditHandler_cases)
  case refused
  then show ?thesis using api_inv_reads [OF inv, of "files s"] by simp
next
  case (called req updates r)
  from called(3) show ?thesis
  proof (cases rule: updateProfile_cases)
    case unchanged
    then show ?thesis using api_inv_reads [OF inv] by blast
  next
    case (stored target fs1)
    have t: "target \<in> population (apiRoot env) s"
      using stored(1) abs_users_view [OF store_invD(2) [OF api_invD(1) [OF inv]]] by (auto simp: population_def)
    have "totp_ok (merged target updates)" using api_invD(2) [OF inv t] by (simp add: totp_ok_def merged_def)
    then show ?thesis
      using api_inv_rewrite [OF inv t _ _ _ _ stored(4,5) subset_refl] by (simp add: merged_def)
  qed
qed

lemma api_inv_totp_read:
  assumes inv: "api_inv env n s" and h: "totp_read (apiRoot env) checkHash call (files s) = (p, fs')"
  shows "api_inv env (Suc n) (s\<lparr>files := fs', inflight := add_pending p (inflight s)\<rparr>)"
proof -
  let ?R = "apiRoot env"
  have look: "fs_lookup fs' q = fs_lookup (files s) q" for q using totp_read_lookup [of ?R checkHash call "files s" q] h by simp
  note reads = api_inv_reads [OF inv look]
  show ?thesis
  proof (cases p)
    case (Respond r)
    with reads show ?thesis by (simp add: add_pending_def)
  next
    case (Store u' r)
    note wf = store_invD(2) [OF api_invD(1) [OF inv]]
    obtain u where u: "u \<in> abs_users ?R (files s)" and st: "totp_step call u u'"
      using totp_read_Store [OF wf] h Store by blast
    have pu: "u \<in> population ?R s" using u by (simp add: population_def)
    note ident = totp_step_identity [OF st]
    have ok: "user_ok u'" "UID u' \<le> int (Suc n)" "totp_ok u'"
      using api_invD(2) [OF inv pu] ident totp_ok_step [OF st] by (auto simp: user_ok_def)
    have agr: "agree u' v \<longleftrightarrow> agree u v" for v by (rule agree_same) (simp_all add: ident)
    have "user_view ?R fs' (Itoa (UID u')) = Some u"
      using u abs_users_at [OF api_invD(1) [OF inv]] user_view_cong [OF look] ident by simp
    then have "has_file ?R fs' u'" by (intro has_file_view) simp
    moreover have pop: "population ?R (s\<lparr>files := fs', inflight := (u', r) # inflight s\<rparr>) = insert u' (population ?R (s\<lparr>files := fs'\<rparr>))"
      by (auto simp: population_def)
    moreover have "population ?R (s\<lparr>files := fs'\<rparr>) = population ?R s"
      using user_view_cong [OF look] by (simp add: population_def abs_users_def)
    ultimately show ?thesis
      using reads ok agr api_invD(4) [OF inv pu] agree_sym [of _ u'] agree_refl [of u']
      by (simp add: Store add_pending_def api_inv_def)
  qed
qed

section \<open>Every interleaving keeps the invariant\<close>

lemma LoginHandler_lookup:
  "LoginHandler rootDir checkHash issuer now doc fs = (resp, fs') \<Longrightarrow> fs_lookup fs' p = fs_lookup fs p"
  using verifyPassword_lookup [of rootDir checkHash _ _ fs p]
  by (auto simp: LoginHandler_def login_verifyPassword split: option.splits if_splits prod.splits) (metis snd_conv)+

lemma TotpLoginHandler_lookup:
  "TotpLoginHandler rootDir validate issuer now doc fs = (resp, fs') \<Longrightarrow> fs_lookup fs' p = fs_lookup fs p"
  using loadUsers_lookup [of rootDir fs p]
  by (auto simp: TotpLoginHandler_def split: option.splits if_splits prod.splits sum.splits)

lemma ProfileViewHandler_lookup:
  "ProfileViewHandler rootDir issuer schema now doc fs = (resp, fs') \<Longrightarrow> fs_lookup fs' p = fs_lookup fs p"
  using readUser_lookup [of rootDir _ fs p]
  by (auto simp: ProfileViewHandler_def Let_def split: option.splits if_splits prod.splits sum.splits) (metis snd_conv)+

lemma api_inv_step:
  assumes "api_inv env n s" "n < 2 ^ 63 - 1" "api_step env s s'"
  shows "api_inv env (Suc n) s'"
  using assms(3)
proof cases
  case (Faults fp)
  then show ?thesis using api_inv_reads [OF assms(1), of "(files s)\<lparr>faults := fp\<rparr>"] by simp
next
  case (Register parseAddress hashPassword now doc resp fs')
  then show ?thesis using api_inv_register [OF assms(1,2)] by blast
next
  case (Login checkHash now doc resp fs')
  then show ?thesis using api_inv_reads [OF assms(1)] LoginHandler_lookup by blast
next
  case (TotpLogin validate now doc resp fs')
  then show ?thesis using api_inv_reads [OF assms(1)] TotpLoginHandler_lookup by blast
next
  case (ProfileEdit now doc resp fs')
  then show ?thesis using api_inv_edit [OF assms(1)] by blast
next
  case (ProfileView now doc resp fs')
  then show ?thesis using api_inv_reads [OF assms(1)] ProfileViewHandler_lookup by blast
next
  case (TotpRead checkHash call p fs')
  then show ?thesis using api_inv_totp_read [OF assms(1)] by blast
next
  case (TotpCommit xs u ok ys resp fs')
  have "u \<in> population (apiRoot env) s" using TotpCommit(2) by (force simp: population_def)
  moreover obtain r where "writeUser (apiRoot env) u (files s) = (r, fs')"
    using TotpCommit(3) by (auto simp: commit_def split: prod.splits sum.splits)
  moreover have "set (xs @ ys) \<subseteq> set (inflight s)" using TotpCommit(2) by auto
  ultimately show ?thesis
    using api_inv_rewrite [OF assms(1), of u u "files s"] api_invD(2) [OF assms(1)] TotpCommit(1) by blast
qed

lemma api_inv_init: "api_init env s \<Longrightarrow> api_inv env 0 s"
proof -
  assume i: "api_init env s"
  then have t: "files s = \<lparr>tree = [], faults = faults (files s)\<rparr>" by (simp add: api_init_def)
  have "store_inv (apiRoot env) (files s)" using i store_inv_empty t by (metis api_init_def)
  moreover have "population (apiRoot env) s = {}"
    using i by (simp add: population_def api_init_def abs_users_def user_view_def fs_lookup_def)
  ultimately show ?thesis using i by (simp add: api_inv_def api_init_def)
qed

interpretation api: counted_invariant "api_init env" "api_step env" "api_inv env" "2 ^ 63 - 1" for env
  by unfold_locales (rule api_inv_init, assumption, rule api_inv_step)

end
