(* ===== verification/MailFlags.thy ===== *)
theory MailFlags
  imports GoStrings
begin

text \<open>
  Message flags, \<^verbatim>\<open>mail/flags.go\<close>. Flags are compared up to letter case. The
  locale \<open>flag_set\<close> states what a list of flags means, the set of the names it
  contains, for any equivalence on names; it is interpreted with
  \<^verbatim>\<open>strings.EqualFold\<close>, and the theorem shows that the three flag operations are
  the set operations they stand for.
\<close>

section \<open>Operations\<close>

definition FlagSeen :: string where "FlagSeen = CHR 0x5C # ''Seen''"
definition FlagAnswered :: string where "FlagAnswered = CHR 0x5C # ''Answered''"
definition FlagFlagged :: string where "FlagFlagged = CHR 0x5C # ''Flagged''"
definition FlagDeleted :: string where "FlagDeleted = CHR 0x5C # ''Deleted''"
definition FlagDraft :: string where "FlagDraft = CHR 0x5C # ''Draft''"

definition FlagRecent :: string where "FlagRecent = CHR 0x5C # ''Recent''"

datatype FlagOp = FlagsSet | FlagsAdd | FlagsRemove | FlagsOther

definition hasFlag :: "string list \<Rightarrow> string \<Rightarrow> bool" where
  "hasFlag flags want = list_ex (\<lambda>flag. EqualFold flag want) flags"

definition normaliseFlags :: "string list \<Rightarrow> string list" where
  "normaliseFlags flags =
    foldl (\<lambda>out flag.
      if flag = [] \<or> EqualFold flag FlagRecent then out
      else if \<not> hasFlag out flag then out @ [flag]
      else out) [] flags"

definition applyFlags :: "string list \<Rightarrow> string list \<Rightarrow> FlagOp \<Rightarrow> string list" where
  "applyFlags current flags op =
    (case op of
       FlagsSet \<Rightarrow> normaliseFlags flags
     | FlagsAdd \<Rightarrow> normaliseFlags (current @ flags)
     | FlagsRemove \<Rightarrow> filter (\<lambda>flag. \<not> hasFlag flags flag) current
     | FlagsOther \<Rightarrow> current)"

section \<open>Lists of names up to an equivalence\<close>

locale flag_set =
  fixes eqv :: "'a \<Rightarrow> 'a \<Rightarrow> bool"
  assumes eqv_refl: "eqv x x"
    and eqv_sym: "eqv x y \<Longrightarrow> eqv y x"
    and eqv_trans: "eqv x y \<Longrightarrow> eqv y z \<Longrightarrow> eqv x z"
begin

lemma names_cong: "eqv x y \<Longrightarrow> list_ex (\<lambda>f. eqv f x) fs \<longleftrightarrow> list_ex (\<lambda>f. eqv f y) fs"
  unfolding list_ex_iff by (blast intro: eqv_sym eqv_trans)

text \<open>Appending names that are not there yet, for a predicate that respects the equivalence.\<close>

lemma collect_names:
  assumes "\<And>x y. eqv x y \<Longrightarrow> P x \<Longrightarrow> P y"
  shows "list_ex (\<lambda>f. eqv f w)
      (foldl (\<lambda>out f. if \<not> P f then out else if \<not> list_ex (\<lambda>g. eqv g f) out then out @ [f] else out) out fs)
    \<longleftrightarrow> list_ex (\<lambda>f. eqv f w) out \<or> list_ex (\<lambda>f. eqv f w) fs \<and> P w"
proof (induction fs arbitrary: out)
  case (Cons f fs)
  have "eqv f w \<Longrightarrow> P f \<longleftrightarrow> P w" using assms eqv_sym by blast
  moreover have "eqv f w \<Longrightarrow> list_ex (\<lambda>g. eqv g f) out \<longleftrightarrow> list_ex (\<lambda>g. eqv g w) out" by (rule names_cong)
  ultimately show ?case using Cons.IH by auto
qed simp

definition apart :: "'a list \<Rightarrow> bool" where
  "apart fs \<longleftrightarrow> sorted_wrt (\<lambda>x y. \<not> eqv x y) fs"

lemma collect_apart:
  "apart out \<Longrightarrow> apart
    (foldl (\<lambda>out f. if \<not> P f then out else if \<not> list_ex (\<lambda>g. eqv g f) out then out @ [f] else out) out fs)"
  by (induction fs arbitrary: out) (auto simp: apart_def sorted_wrt_append list_ex_iff)

lemma collect_id:
  "apart (out @ fs) \<Longrightarrow> list_all P fs \<Longrightarrow>
   foldl (\<lambda>out f. if \<not> P f then out else if \<not> list_ex (\<lambda>g. eqv g f) out then out @ [f] else out) out fs = out @ fs"
  by (induction fs arbitrary: out) (auto simp: apart_def sorted_wrt_append list_ex_iff)

end

interpretation fold_flags: flag_set EqualFold
  by unfold_locales (auto simp: EqualFold_sym intro: EqualFold_trans)

section \<open>What the operations mean\<close>

definition kept_flag :: "string \<Rightarrow> bool" where
  "kept_flag f \<longleftrightarrow> f \<noteq> [] \<and> \<not> EqualFold f FlagRecent"

definition flag_names :: "string list \<Rightarrow> string set" where
  "flag_names flags = {w. hasFlag flags w}"

lemma normaliseFlags_collect:
  "normaliseFlags flags = foldl (\<lambda>out f. if \<not> kept_flag f then out
     else if \<not> list_ex (\<lambda>g. EqualFold g f) out then out @ [f] else out) [] flags"
  by (simp add: normaliseFlags_def kept_flag_def hasFlag_def cong: if_cong)

lemma chunks_Nil_iff: "chunks s = [] \<longleftrightarrow> s = []"
  by (subst chunks.simps) (simp split: prod.splits)

lemma kept_flag_cong: "EqualFold x y \<Longrightarrow> kept_flag x \<Longrightarrow> kept_flag y"
proof -
  assume "EqualFold x y" "kept_flag x"
  moreover have "EqualFold x [] \<longleftrightarrow> x = []" by (simp add: EqualFold_def runes_def chunks_Nil_iff)
  ultimately show ?thesis using EqualFold_trans [of x y FlagRecent] by (auto simp: kept_flag_def)
qed

lemma hasFlag_normalise: "hasFlag (normaliseFlags flags) w \<longleftrightarrow> hasFlag flags w \<and> kept_flag w"
  using fold_flags.collect_names [of kept_flag w "[]" flags] kept_flag_cong
  by (simp add: normaliseFlags_collect hasFlag_def)

lemma normaliseFlags_apart: "fold_flags.apart (normaliseFlags flags)"
  unfolding normaliseFlags_collect by (rule fold_flags.collect_apart) (simp add: fold_flags.apart_def)

lemma foldl_kept:
  "list_all kept_flag out \<Longrightarrow> list_all kept_flag (foldl (\<lambda>out f. if \<not> kept_flag f then out
     else if \<not> list_ex (\<lambda>g. EqualFold g f) out then out @ [f] else out) out flags)"
  by (induction flags arbitrary: out) auto

lemma normaliseFlags_kept: "list_all kept_flag (normaliseFlags flags)"
  unfolding normaliseFlags_collect by (rule foldl_kept) simp

lemma normaliseFlags_id:
  "sorted_wrt (\<lambda>x y. \<not> EqualFold x y) flags \<Longrightarrow> list_all kept_flag flags \<Longrightarrow> normaliseFlags flags = flags"
  using fold_flags.collect_id [of "[]" flags kept_flag]
  by (simp add: normaliseFlags_collect fold_flags.apart_def)

text \<open>
  The flag operations are set operations on names up to letter case: setting replaces the
  names by the given ones, adding is union, removing is difference, where setting and adding
  drop the empty name and \<^verbatim>\<open>\Recent\<close>; the result of setting or adding never lists a name
  twice, and normalising it again changes nothing.
\<close>

lemma applyFlags_sets:
  "flag_names (applyFlags current flags op) =
     (case op of
        FlagsSet \<Rightarrow> flag_names flags \<inter> {w. kept_flag w}
      | FlagsAdd \<Rightarrow> (flag_names current \<union> flag_names flags) \<inter> {w. kept_flag w}
      | FlagsRemove \<Rightarrow> flag_names current - flag_names flags
      | FlagsOther \<Rightarrow> flag_names current)
   \<and> (op \<in> {FlagsSet, FlagsAdd} \<longrightarrow>
        sorted_wrt (\<lambda>x y. \<not> EqualFold x y) (applyFlags current flags op)
        \<and> normaliseFlags (applyFlags current flags op) = applyFlags current flags op)"
proof -
  have norm: "normaliseFlags (normaliseFlags fs) = normaliseFlags fs" for fs
    using normaliseFlags_apart normaliseFlags_kept by (intro normaliseFlags_id) (simp_all add: fold_flags.apart_def)
  have rem: "hasFlag (filter (\<lambda>f. \<not> hasFlag flags f) current) w \<longleftrightarrow> hasFlag current w \<and> \<not> hasFlag flags w" for w
    using fold_flags.names_cong [of _ w flags] unfolding hasFlag_def list_ex_iff set_filter by blast
  have app: "hasFlag (current @ flags) w \<longleftrightarrow> hasFlag current w \<or> hasFlag flags w" for w
    by (simp add: hasFlag_def)
  have apart: "sorted_wrt (\<lambda>x y. \<not> EqualFold x y) (normaliseFlags fs)" for fs
    using normaliseFlags_apart by (simp add: fold_flags.apart_def)
  show ?thesis
    by (cases op) (auto simp: applyFlags_def flag_names_def hasFlag_normalise norm rem app apart)
qed

end
