(* ===== verification/MailStore.thy ===== *)
theory MailStore
  imports MailFlags UserStore
begin

text \<open>
  The mail store, \<^verbatim>\<open>mail/store.go\<close>: mailbox names and their directory names, the
  index document of a mailbox, and every operation on mailboxes and messages,
  on the same file system as the user store. UIDs, sizes and the validity value
  are 32-bit words, so their arithmetic wraps. \<^verbatim>\<open>userDir\<close> is the method of the
  interface \<^verbatim>\<open>Accounts\<close> the store calls. The clock is an argument in nanoseconds.
  Each operation holds the store's mutex and is one transition, except \<^verbatim>\<open>Copy\<close>,
  which is the sequence of its locked parts, and \<^verbatim>\<open>Body\<close>, a single read.
\<close>

section \<open>Data\<close>

definition Inbox :: string where "Inbox = ''INBOX''"
definition Delimiter :: string where "Delimiter = ''/''"

datatype mailerr = ErrNoSuchMailbox | ErrMailboxExists | ErrMailboxForbidden | MailOS oserr | MailJSON

record Message =
  msgUID :: u32
  msgFile :: string
  msgSize :: u32
  msgDate :: time
  msgFlags :: "string list"

record mailboxIndex =
  UIDValidity :: u32
  UIDNext :: u32
  Subscribed :: bool
  Messages :: "Message list"

record Snapshot =
  snapName :: string
  snapUIDValidity :: u32
  snapUIDNext :: u32
  snapSubscribed :: bool
  snapMessages :: "Message list"

text \<open>The zero \<^verbatim>\<open>time.Time\<close>, midnight of January 1 of year 1, in nanoseconds since 1970.\<close>

definition zeroTime :: time where
  "zeroTime = - 62135596800000000000"

section \<open>Names\<close>

definition CanonicalMailbox :: "string \<Rightarrow> string" where
  "CanonicalMailbox name0 =
    (let name = Trim name0 Delimiter in if EqualFold name Inbox then Inbox else name)"

definition safe_rune :: "rune \<Rightarrow> bool" where
  "safe_rune r \<longleftrightarrow> 65 \<le> r \<and> r \<le> 90 \<or> 97 \<le> r \<and> r \<le> 122 \<or> 48 \<le> r \<and> r \<le> 57 \<or> r = 46 \<or> r = 45 \<or> r = 95"

definition encode_name_rune :: "rune \<Rightarrow> string" where
  "encode_name_rune r = (if safe_rune r then encode_rune r else CHR ''%'' # pad0 2 (hex_str r))"

definition encodeMailboxName :: "string \<Rightarrow> string" where
  "encodeMailboxName name = concat (map encode_name_rune (runes name))"

text \<open>
  \<^verbatim>\<open>fmt.Sscanf\<close> of a two-byte string with \<^verbatim>\<open>%02X\<close> into a rune: leading white space (not a
  newline) is skipped, then a sign may follow, then at least one hexadecimal digit; what
  comes after the digits is ignored.
\<close>

definition hex_val :: "char \<Rightarrow> nat option" where
  "hex_val c =
    (if is_digit c then Some (byte_of c - 48)
     else if (65::nat) \<le> byte_of c \<and> byte_of c \<le> (70::nat) then Some (byte_of c - 55)
     else if (97::nat) \<le> byte_of c \<and> byte_of c \<le> (102::nat) then Some (byte_of c - 87)
     else None)"

definition scan_hex2 :: "char \<Rightarrow> char \<Rightarrow> int option" where
  "scan_hex2 a b =
    (case hex_val a of
       Some x \<Rightarrow> (case hex_val b of Some y \<Rightarrow> Some (int (16 * x + y)) | None \<Rightarrow> Some (int x))
     | None \<Rightarrow>
         if a = CHR ''+'' \<or> a \<in> {CHR '' '', CHR 0x09, CHR 0x0B, CHR 0x0C, CHR 0x0D}
         then map_option int (hex_val b)
         else if a = CHR ''-'' then map_option (\<lambda>y. - int y) (hex_val b)
         else None)"

text \<open>\<^verbatim>\<open>strings.Builder.WriteRune\<close> of a possibly negative rune.\<close>

definition write_rune :: "int \<Rightarrow> string" where
  "write_rune r = encode_rune (if r < 0 then RuneError else nat r)"

fun decodeMailboxName :: "string \<Rightarrow> string" where
  "decodeMailboxName (c # a # b # rest) =
    (if c = CHR ''%'' then
       (case scan_hex2 a b of
          Some r \<Rightarrow> write_rune r @ decodeMailboxName rest
        | None \<Rightarrow> c # decodeMailboxName (a # b # rest))
     else c # decodeMailboxName (a # b # rest))"
| "decodeMailboxName (c # cs) = c # decodeMailboxName cs"
| "decodeMailboxName [] = []"

definition mailRoot :: "(int \<Rightarrow> path) \<Rightarrow> int \<Rightarrow> path" where
  "mailRoot userDir uid = path_join (userDir uid) ''mail''"

definition mailboxDir :: "(int \<Rightarrow> path) \<Rightarrow> int \<Rightarrow> string \<Rightarrow> path" where
  "mailboxDir userDir uid name = path_join (mailRoot userDir uid) (encodeMailboxName (CanonicalMailbox name))"

definition indexPath :: "(int \<Rightarrow> path) \<Rightarrow> int \<Rightarrow> string \<Rightarrow> path" where
  "indexPath userDir uid name = path_join (mailboxDir userDir uid name) ''index.json''"

section \<open>The index document\<close>

definition marshal_message :: "Message \<Rightarrow> json" where
  "marshal_message m = JObj
    [(''uid'', JInt (uint (msgUID m))), (''file'', JStr (json_str (msgFile m))),
     (''size'', JInt (uint (msgSize m))), (''date'', JTime (msgDate m)),
     (''flags'', JArr (map (JStr \<circ> json_str) (msgFlags m)))]"

definition marshal_index :: "mailboxIndex \<Rightarrow> json" where
  "marshal_index ix = JObj
    [(''uidvalidity'', JInt (uint (UIDValidity ix))), (''uidnext'', JInt (uint (UIDNext ix))),
     (''subscribed'', JBool (Subscribed ix)), (''messages'', JArr (map marshal_message (Messages ix)))]"

definition message_field :: "string \<Rightarrow> json \<Rightarrow> Message \<Rightarrow> Message option" where
  "message_field k j m =
    (if field_is ''uid'' k then map_option (\<lambda>n. m\<lparr>msgUID := n\<rparr>) (dec_u32 j (msgUID m))
     else if field_is ''file'' k then map_option (\<lambda>s. m\<lparr>msgFile := s\<rparr>) (dec_string j (msgFile m))
     else if field_is ''size'' k then map_option (\<lambda>n. m\<lparr>msgSize := n\<rparr>) (dec_u32 j (msgSize m))
     else if field_is ''date'' k then map_option (\<lambda>t. m\<lparr>msgDate := t\<rparr>) (dec_time j (msgDate m))
     else if field_is ''flags'' k then map_option (\<lambda>fs. m\<lparr>msgFlags := fs\<rparr>) (dec_strings j (msgFlags m))
     else Some m)"

definition zero_message :: Message where
  "zero_message = \<lparr>msgUID = 0, msgFile = [], msgSize = 0, msgDate = zeroTime, msgFlags = []\<rparr>"

text \<open>A \<^verbatim>\<open>null\<close> among the messages, which the store never writes and on which the code would
  dereference a nil pointer, does not decode.\<close>

definition dec_messages :: "json \<Rightarrow> Message list \<Rightarrow> Message list option" where
  "dec_messages j old =
    (case j of
       JArr js \<Rightarrow> those (map (\<lambda>x. if x = JNull then None else dec_object message_field zero_message x) js)
     | JNull \<Rightarrow> Some []
     | _ \<Rightarrow> None)"

definition index_field :: "string \<Rightarrow> json \<Rightarrow> mailboxIndex \<Rightarrow> mailboxIndex option" where
  "index_field k j ix =
    (if field_is ''uidvalidity'' k then map_option (\<lambda>n. ix\<lparr>UIDValidity := n\<rparr>) (dec_u32 j (UIDValidity ix))
     else if field_is ''uidnext'' k then map_option (\<lambda>n. ix\<lparr>UIDNext := n\<rparr>) (dec_u32 j (UIDNext ix))
     else if field_is ''subscribed'' k then map_option (\<lambda>b. ix\<lparr>Subscribed := b\<rparr>) (dec_bool j (Subscribed ix))
     else if field_is ''messages'' k then map_option (\<lambda>ms. ix\<lparr>Messages := ms\<rparr>) (dec_messages j (Messages ix))
     else Some ix)"

definition unmarshal_index :: "json \<Rightarrow> mailboxIndex option" where
  "unmarshal_index j =
    dec_object index_field \<lparr>UIDValidity = 0, UIDNext = 0, Subscribed = False, Messages = []\<rparr> j"

definition decode_index :: "content \<Rightarrow> mailboxIndex option" where
  "decode_index c = (case c of Json j \<Rightarrow> unmarshal_index j | Bytes _ \<Rightarrow> None)"

section \<open>Reading and writing an index\<close>

definition uidValidity :: "time \<Rightarrow> u32" where
  "uidValidity now = word_of_int (now div 10 ^ 9)"

definition newMailboxIndex :: "time \<Rightarrow> mailboxIndex" where
  "newMailboxIndex now = \<lparr>UIDValidity = uidValidity now, UIDNext = 1, Subscribed = True, Messages = []\<rparr>"

definition fill_index :: "time \<Rightarrow> mailboxIndex \<Rightarrow> mailboxIndex" where
  "fill_index now ix =
    (let ix1 = (if UIDValidity ix = 0 then ix\<lparr>UIDValidity := uidValidity now\<rparr> else ix)
     in if UIDNext ix1 = 0 then ix1\<lparr>UIDNext := 1\<rparr> else ix1)"

definition readIndex :: "(int \<Rightarrow> path) \<Rightarrow> time \<Rightarrow> int \<Rightarrow> string \<Rightarrow> fsys \<Rightarrow> (mailerr + mailboxIndex) \<times> fsys" where
  "readIndex userDir now uid name0 fs =
    (let name = CanonicalMailbox name0
     in case ReadFile (indexPath userDir uid name) fs of
          (Inl NotExist, fs') \<Rightarrow>
            if name \<noteq> Inbox then (Inl ErrNoSuchMailbox, fs') else (Inr (newMailboxIndex now), fs')
        | (Inl e, fs') \<Rightarrow> (Inl (MailOS e), fs')
        | (Inr c, fs') \<Rightarrow>
            (case decode_index c of
               None \<Rightarrow> (Inl MailJSON, fs')
             | Some ix \<Rightarrow> (Inr (fill_index now ix), fs')))"

definition lift_os :: "(oserr + 'a) \<times> fsys \<Rightarrow> (mailerr + 'a) \<times> fsys" where
  "lift_os p = (case p of (Inl e, fs) \<Rightarrow> (Inl (MailOS e), fs) | (Inr x, fs) \<Rightarrow> (Inr x, fs))"

definition writeIndex :: "(int \<Rightarrow> path) \<Rightarrow> int \<Rightarrow> string \<Rightarrow> mailboxIndex \<Rightarrow> fsys \<Rightarrow> (mailerr + unit) \<times> fsys" where
  "writeIndex userDir uid name ix fs =
    (let dir = mailboxDir userDir uid name
     in case MkdirAll dir fs of
          (Inl e, fs') \<Rightarrow> (Inl (MailOS e), fs')
        | (Inr _, fs') \<Rightarrow> lift_os (WriteFile (path_join dir ''index.json'') (Json (marshal_index ix)) fs'))"

section \<open>Mailboxes\<close>

definition ListMailboxes :: "(int \<Rightarrow> path) \<Rightarrow> int \<Rightarrow> fsys \<Rightarrow> (mailerr + string list) \<times> fsys" where
  "ListMailboxes userDir uid fs =
    (case ReadDir (mailRoot userDir uid) fs of
       (Inl IOErr, fs') \<Rightarrow> (Inl (MailOS IOErr), fs')
     | (r, fs') \<Rightarrow>
         let entries = (case r of Inl _ \<Rightarrow> [] | Inr es \<Rightarrow> es);
             names = filter (\<lambda>name. CanonicalMailbox name \<noteq> Inbox)
                       (map (decodeMailboxName \<circ> fst) (filter snd entries))
         in (Inr (Inbox # sort names), fs'))"

definition CreateMailbox :: "(int \<Rightarrow> path) \<Rightarrow> time \<Rightarrow> int \<Rightarrow> string \<Rightarrow> fsys \<Rightarrow> (mailerr + unit) \<times> fsys" where
  "CreateMailbox userDir now uid name0 fs =
    (let name = CanonicalMailbox name0
     in if name = [] then (Inl ErrNoSuchMailbox, fs)
        else (case Stat (indexPath userDir uid name) fs of
            (Inr _, fs') \<Rightarrow> (Inl ErrMailboxExists, fs')
          | (Inl _, fs') \<Rightarrow>
              if name = Inbox then (Inl ErrMailboxExists, fs')
              else writeIndex userDir uid name (newMailboxIndex now) fs'))"

definition DeleteMailbox :: "(int \<Rightarrow> path) \<Rightarrow> int \<Rightarrow> string \<Rightarrow> fsys \<Rightarrow> (mailerr + unit) \<times> fsys" where
  "DeleteMailbox userDir uid name0 fs =
    (let name = CanonicalMailbox name0
     in if name = Inbox then (Inl ErrMailboxForbidden, fs)
        else (case Stat (indexPath userDir uid name) fs of
            (Inl _, fs') \<Rightarrow> (Inl ErrNoSuchMailbox, fs')
          | (Inr _, fs') \<Rightarrow> lift_os (RemoveAll (mailboxDir userDir uid name) fs')))"

definition RenameMailbox :: "(int \<Rightarrow> path) \<Rightarrow> int \<Rightarrow> string \<Rightarrow> string \<Rightarrow> fsys \<Rightarrow> (mailerr + unit) \<times> fsys" where
  "RenameMailbox userDir uid from0 to0 fs =
    (let from = CanonicalMailbox from0; to = CanonicalMailbox to0
     in if from = Inbox \<or> to = Inbox then (Inl ErrMailboxForbidden, fs)
        else (case Stat (indexPath userDir uid from) fs of
            (Inl _, fs1) \<Rightarrow> (Inl ErrNoSuchMailbox, fs1)
          | (Inr _, fs1) \<Rightarrow>
              (case Stat (indexPath userDir uid to) fs1 of
                 (Inr _, fs2) \<Rightarrow> (Inl ErrMailboxExists, fs2)
               | (Inl _, fs2) \<Rightarrow>
                   (case MkdirAll (butlast (mailboxDir userDir uid to)) fs2 of
                      (Inl e, fs3) \<Rightarrow> (Inl (MailOS e), fs3)
                    | (Inr _, fs3) \<Rightarrow>
                        lift_os (Rename (mailboxDir userDir uid from) (mailboxDir userDir uid to) fs3)))))"

definition SetSubscribed :: "(int \<Rightarrow> path) \<Rightarrow> time \<Rightarrow> int \<Rightarrow> string \<Rightarrow> bool \<Rightarrow> fsys \<Rightarrow> (mailerr + unit) \<times> fsys" where
  "SetSubscribed userDir now uid name subscribed fs =
    (case readIndex userDir now uid name fs of
       (Inl e, fs') \<Rightarrow> (Inl e, fs')
     | (Inr ix, fs') \<Rightarrow> writeIndex userDir uid name (ix\<lparr>Subscribed := subscribed\<rparr>) fs')"

section \<open>Messages\<close>

definition take_snapshot :: "(int \<Rightarrow> path) \<Rightarrow> time \<Rightarrow> int \<Rightarrow> string \<Rightarrow> fsys \<Rightarrow> (mailerr + Snapshot) \<times> fsys" where
  "take_snapshot userDir now uid name fs =
    (case readIndex userDir now uid name fs of
       (Inl e, fs') \<Rightarrow> (Inl e, fs')
     | (Inr ix, fs') \<Rightarrow>
         (Inr \<lparr>snapName = CanonicalMailbox name, snapUIDValidity = UIDValidity ix, snapUIDNext = UIDNext ix,
               snapSubscribed = Subscribed ix, snapMessages = Messages ix\<rparr>, fs'))"

definition eml_file :: "u32 \<Rightarrow> string" where
  "eml_file uid = pad0 8 (nat_str (unat uid)) @ ''.eml''"

definition Append :: "(int \<Rightarrow> path) \<Rightarrow> time \<Rightarrow> int \<Rightarrow> string \<Rightarrow> string list \<Rightarrow> time \<Rightarrow> string \<Rightarrow> fsys
    \<Rightarrow> (mailerr + u32) \<times> fsys" where
  "Append userDir now uid name0 flags date0 body fs =
    (let name = CanonicalMailbox name0;
         with_index = (\<lambda>ix fs1.
           let date = (if date0 = zeroTime then now else date0);
               muid = UIDNext ix;
               file = eml_file muid;
               dir = mailboxDir userDir uid name
           in case MkdirAll dir fs1 of
                (Inl e, fs2) \<Rightarrow> (Inl (MailOS e), fs2)
              | (Inr _, fs2) \<Rightarrow>
                  (case WriteFile (path_join dir file) (Bytes body) fs2 of
                     (Inl e, fs3) \<Rightarrow> (Inl (MailOS e), fs3)
                   | (Inr _, fs3) \<Rightarrow>
                       let msg = \<lparr>msgUID = muid, msgFile = file, msgSize = word_of_nat (length body),
                                  msgDate = date, msgFlags = normaliseFlags flags\<rparr>
                       in (case writeIndex userDir uid name
                                  (ix\<lparr>Messages := Messages ix @ [msg], UIDNext := muid + 1\<rparr>) fs3 of
                             (Inl e, fs4) \<Rightarrow> (Inl e, fs4)
                           | (Inr _, fs4) \<Rightarrow> (Inr muid, fs4))))
     in case readIndex userDir now uid name fs of
          (Inl ErrNoSuchMailbox, fs1) \<Rightarrow> with_index (newMailboxIndex now) fs1
        | (Inl e, fs1) \<Rightarrow> (Inl e, fs1)
        | (Inr ix, fs1) \<Rightarrow> with_index ix fs1)"

text \<open>The text of a document is not modelled: reading one as a message body is an error here.
  The store only names message files.\<close>

definition Body :: "(int \<Rightarrow> path) \<Rightarrow> int \<Rightarrow> string \<Rightarrow> Message \<Rightarrow> fsys \<Rightarrow> (mailerr + string) \<times> fsys" where
  "Body userDir uid mailbox msg fs =
    (case ReadFile (path_join (mailboxDir userDir uid mailbox) (msgFile msg)) fs of
       (Inl e, fs') \<Rightarrow> (Inl (MailOS e), fs')
     | (Inr (Bytes b), fs') \<Rightarrow> (Inr b, fs')
     | (Inr (Json _), fs') \<Rightarrow> (Inl MailJSON, fs'))"

definition SetFlags :: "(int \<Rightarrow> path) \<Rightarrow> time \<Rightarrow> int \<Rightarrow> string \<Rightarrow> u32 list \<Rightarrow> string list \<Rightarrow> FlagOp \<Rightarrow> fsys
    \<Rightarrow> (mailerr + unit) \<times> fsys" where
  "SetFlags userDir now uid name uids flags op fs =
    (case readIndex userDir now uid name fs of
       (Inl e, fs') \<Rightarrow> (Inl e, fs')
     | (Inr ix, fs') \<Rightarrow>
         writeIndex userDir uid name
           (ix\<lparr>Messages := map (\<lambda>msg. if msgUID msg \<in> set uids
              then msg\<lparr>msgFlags := applyFlags (msgFlags msg) flags op\<rparr> else msg) (Messages ix)\<rparr>) fs')"

fun copy_messages :: "(int \<Rightarrow> path) \<Rightarrow> time \<Rightarrow> int \<Rightarrow> string \<Rightarrow> string \<Rightarrow> u32 list \<Rightarrow> Message list \<Rightarrow> fsys
    \<Rightarrow> (mailerr + unit) \<times> fsys" where
  "copy_messages userDir now uid from to uids [] fs = (Inr (), fs)"
| "copy_messages userDir now uid from to uids (msg # msgs) fs =
    (if msgUID msg \<notin> set uids then copy_messages userDir now uid from to uids msgs fs
     else (case Body userDir uid from msg fs of
         (Inl e, fs1) \<Rightarrow> (Inl e, fs1)
       | (Inr body, fs1) \<Rightarrow>
           (case Append userDir now uid to (msgFlags msg) (msgDate msg) body fs1 of
              (Inl e, fs2) \<Rightarrow> (Inl e, fs2)
            | (Inr _, fs2) \<Rightarrow> copy_messages userDir now uid from to uids msgs fs2)))"

definition Copy :: "(int \<Rightarrow> path) \<Rightarrow> time \<Rightarrow> int \<Rightarrow> string \<Rightarrow> string \<Rightarrow> u32 list \<Rightarrow> fsys
    \<Rightarrow> (mailerr + unit) \<times> fsys" where
  "Copy userDir now uid from to uids fs =
    (case take_snapshot userDir now uid from fs of
       (Inl e, fs1) \<Rightarrow> (Inl e, fs1)
     | (Inr source, fs1) \<Rightarrow>
         (case readIndex userDir now uid to fs1 of
            (Inl e, fs2) \<Rightarrow> (Inl e, fs2)
          | (Inr _, fs2) \<Rightarrow> copy_messages userDir now uid from to uids (snapMessages source) fs2))"

text \<open>The loop of \<^verbatim>\<open>Remove\<close>: the kept messages, or the first error that is not a missing file.\<close>

fun remove_messages :: "(int \<Rightarrow> path) \<Rightarrow> int \<Rightarrow> string \<Rightarrow> u32 list \<Rightarrow> Message list \<Rightarrow> fsys
    \<Rightarrow> (mailerr + Message list) \<times> fsys" where
  "remove_messages userDir uid name doomed [] fs = (Inr [], fs)"
| "remove_messages userDir uid name doomed (msg # msgs) fs =
    (if msgUID msg \<notin> set doomed then
       (case remove_messages userDir uid name doomed msgs fs of
          (Inl e, fs') \<Rightarrow> (Inl e, fs') | (Inr kept, fs') \<Rightarrow> (Inr (msg # kept), fs'))
     else (case Remove_file (path_join (mailboxDir userDir uid name) (msgFile msg)) fs of
         (Inl IOErr, fs') \<Rightarrow> (Inl (MailOS IOErr), fs')
       | (_, fs') \<Rightarrow> remove_messages userDir uid name doomed msgs fs'))"

definition Remove :: "(int \<Rightarrow> path) \<Rightarrow> time \<Rightarrow> int \<Rightarrow> string \<Rightarrow> u32 list \<Rightarrow> fsys \<Rightarrow> (mailerr + unit) \<times> fsys" where
  "Remove userDir now uid name uids fs =
    (case readIndex userDir now uid name fs of
       (Inl e, fs1) \<Rightarrow> (Inl e, fs1)
     | (Inr ix, fs1) \<Rightarrow>
         (case remove_messages userDir uid name uids (Messages ix) fs1 of
            (Inl e, fs2) \<Rightarrow> (Inl e, fs2)
          | (Inr kept, fs2) \<Rightarrow> writeIndex userDir uid name (ix\<lparr>Messages := kept\<rparr>) fs2))"

section \<open>Snapshots\<close>

definition Deleted :: "Snapshot \<Rightarrow> u32 list" where
  "Deleted snap = map msgUID (filter (\<lambda>m. hasFlag (msgFlags m) FlagDeleted) (snapMessages snap))"

definition Unseen :: "Snapshot \<Rightarrow> u32" where
  "Unseen snap = foldl (\<lambda>count m. if \<not> hasFlag (msgFlags m) FlagSeen then count + 1 else count) 0 (snapMessages snap)"

definition TotalSize :: "Snapshot \<Rightarrow> u64" where
  "TotalSize snap = foldl (\<lambda>total m. total + ucast (msgSize m)) 0 (snapMessages snap)"

end
