(* ===== verification/MailboxNames.thy ===== *)
theory MailboxNames
  imports MailStore
begin

text \<open>
  Mailbox names on disk: what \<^verbatim>\<open>encodeMailboxName\<close> and \<^verbatim>\<open>decodeMailboxName\<close> of
  \<^verbatim>\<open>mail/store.go\<close> do to a name. Names whose runes fit in one byte survive the
  round trip and stay apart; above that the variable-width escape is ambiguous.
  An encoded name never contains a slash, but the names consisting of one and two
  dots are passed through and leave the mail directory.
\<close>

section \<open>Hexadecimal escapes\<close>

lemma hex_val_digit: "d < 16 \<Longrightarrow> hex_val (hex_digit True d) = Some d"
  by (auto simp: hex_val_def hex_digit_def is_digit_def)

lemma hex_str_2: "r < 256 \<Longrightarrow> pad0 2 (hex_str r) = [hex_digit True (r div 16), hex_digit True (r mod 16)]"
proof (cases "r < 16")
  case True
  then show ?thesis by (simp add: hex_str.simps [of r] pad0_def hex_digit_def)
      (simp add: char_of_eq_byte eq_commute [of "CHR ''0''"])
next
  case False
  assume "r < 256"
  then have "r div 16 < 16" by (simp add: less_mult_imp_div_less)
  with False show ?thesis by (simp add: hex_str.simps [of r] hex_str.simps [of "r div 16"] pad0_def)
qed

lemma scan_hex2_digits: "x < 16 \<Longrightarrow> y < 16 \<Longrightarrow> scan_hex2 (hex_digit True x) (hex_digit True y) = Some (int (16 * x + y))"
  by (simp add: scan_hex2_def hex_val_digit)

lemma decode_plain_char: "c \<noteq> CHR ''%'' \<Longrightarrow> decodeMailboxName (c # cs) = c # decodeMailboxName cs"
  by (cases cs; cases "tl cs") auto

lemma decode_escape: "r < 256 \<Longrightarrow> decodeMailboxName (CHR ''%'' # pad0 2 (hex_str r) @ rest) = encode_rune r @ decodeMailboxName rest"
proof -
  assume r: "r < 256"
  then have d: "r div 16 < 16" "r mod 16 < 16" by (simp_all add: less_mult_imp_div_less)
  have "scan_hex2 (hex_digit True (r div 16)) (hex_digit True (r mod 16)) = Some (int r)"
    using scan_hex2_digits [OF d] by simp
  then show ?thesis by (simp add: hex_str_2 [OF r] write_rune_def)
qed

lemma safe_rune_char: "safe_rune r \<Longrightarrow> \<exists>c. encode_rune r = [c] \<and> byte_of c = r \<and> c \<noteq> CHR ''%'' \<and> c \<noteq> CHR ''/''"
proof -
  assume s: "safe_rune r"
  then have r: "r < 128" by (auto simp: safe_rune_def)
  let ?c = "char_of r :: char"
  have b: "byte_of ?c = r" using r by simp
  have "encode_rune r = [?c]" using encode_rune_ascii [of ?c] b r by simp
  moreover have "?c \<noteq> CHR ''%''" "?c \<noteq> CHR ''/''" using s by (auto simp: safe_rune_def char_of_eq_byte)
  ultimately show ?thesis using b by blast
qed

lemma decode_name_rune:
  "r < 256 \<Longrightarrow> decodeMailboxName (encode_name_rune r @ rest) = encode_rune r @ decodeMailboxName rest"
proof (cases "safe_rune r")
  case True
  then show ?thesis using safe_rune_char [OF True] by (auto simp: encode_name_rune_def decode_plain_char)
next
  case False
  assume "r < 256"
  with False show ?thesis by (simp add: encode_name_rune_def decode_escape)
qed

lemma decode_name_runes:
  "\<forall>r\<in>set rs. r < 256 \<Longrightarrow> decodeMailboxName (concat (map encode_name_rune rs)) = concat (map encode_rune rs)"
  by (induction rs) (auto simp: decode_name_rune)

lemma decode_encode_name: "\<forall>r\<in>set (runes name). r < 256 \<Longrightarrow> decodeMailboxName (encodeMailboxName name) = json_str name"
  by (simp add: encodeMailboxName_def json_str_def decode_name_runes)

section \<open>Directory names\<close>

lemma Trim_id: "set s \<inter> set cutset = {} \<Longrightarrow> Trim s cutset = s"
proof -
  assume "set s \<inter> set cutset = {}"
  then have "dropWhile (\<lambda>c. c \<in> set cutset) s = s" "dropWhile (\<lambda>c. c \<in> set cutset) (rev s) = rev s"
    using hd_in_set [of s] hd_in_set [of "rev s"] by (cases s; cases "rev s"; auto)+
  then show ?thesis by (simp add: Trim_def TrimRight_def)
qed

lemma hex_digit_alnum_upper: "d < 16 \<Longrightarrow> hex_digit True d \<noteq> CHR ''/'' \<and> hex_digit True d \<noteq> CHR ''.''"
  by (auto simp: hex_digit_def char_of_eq_byte)

lemma hex_str_chars: "c \<in> set (hex_str n) \<Longrightarrow> \<exists>d<16. c = hex_digit True d"
proof (induction n rule: hex_str.induct)
  case (1 n)
  show ?case
  proof (cases "n < 16")
    case True
    with "1.prems" show ?thesis by (auto simp: hex_str.simps [of n])
  next
    case False
    with "1.prems" have "c \<in> set (hex_str (n div 16)) \<or> c = hex_digit True (n mod 16)"
      by (auto simp: hex_str.simps [of n])
    moreover have "n mod 16 < 16" by simp
    ultimately show ?thesis using "1.IH" [OF False] by blast
  qed
qed

lemma encode_name_no_slash: "CHR ''/'' \<notin> set (encodeMailboxName name)"
proof -
  have "CHR ''/'' \<notin> set (encode_name_rune r)" for r
  proof (cases "safe_rune r")
    case True
    then show ?thesis using safe_rune_char [OF True] by (auto simp: encode_name_rune_def)
  next
    case False
    have "CHR ''/'' \<notin> set (hex_str r)" using hex_str_chars [of "CHR ''/''" r] hex_digit_alnum_upper by metis
    with False show ?thesis by (auto simp: encode_name_rune_def pad0_def split: if_splits)
  qed
  then show ?thesis by (auto simp: encodeMailboxName_def)
qed

text \<open>A mailbox name that stays inside the mail directory.\<close>

definition inside :: "string \<Rightarrow> bool" where
  "inside name \<longleftrightarrow> encodeMailboxName (CanonicalMailbox name) \<notin> {[], ''.'', ''..''}"

lemma encode_name_safe:
  assumes "\<forall>c\<in>set s. safe_rune (byte_of c)"
  shows "encodeMailboxName s = s"
proof -
  have small: "safe_rune r \<Longrightarrow> r < 128" for r by (auto simp: safe_rune_def)
  then have "ascii s" using assms by (auto simp: ascii_def)
  moreover have "concat (map encode_name_rune (map byte_of t)) = t" if "\<forall>c\<in>set t. safe_rune (byte_of c)" for t
    using that by (induction t) (auto simp: encode_name_rune_def encode_rune_ascii small)
  ultimately show ?thesis using assms by (simp add: encodeMailboxName_def runes_ascii)
qed

lemma Inbox_canonical [simp]: "CanonicalMailbox Inbox = Inbox"
  by (simp add: CanonicalMailbox_def Inbox_def Trim_def TrimRight_def Delimiter_def EqualFold_def)

lemma inside_Inbox [simp]: "inside Inbox"
proof -
  have "encodeMailboxName Inbox = Inbox" by (rule encode_name_safe) (simp add: Inbox_def safe_rune_def)
  then show ?thesis by (simp add: inside_def) (simp add: Inbox_def)
qed

lemma inside_plain: "inside name \<Longrightarrow> plain_name (encodeMailboxName (CanonicalMailbox name))"
  using encode_name_no_slash by (auto simp: inside_def plain_name_def)

text \<open>
  C14. Round trip of mailbox names. If every rune of a name fits in one byte, decoding the
  directory name gives the name back (with invalid UTF-8 replaced), so two such names that are
  valid UTF-8 share a directory only if they are equal; no directory name contains a slash.
\<close>

theorem mailbox_name_roundtrip:
  assumes "\<forall>r\<in>set (runes a). r < 256" "\<forall>r\<in>set (runes b). r < 256" "json_str a = a" "json_str b = b"
  shows "decodeMailboxName (encodeMailboxName a) = a \<and> (encodeMailboxName a = encodeMailboxName b \<longleftrightarrow> a = b)
    \<and> CHR ''/'' \<notin> set (encodeMailboxName a)"
  using assms decode_encode_name [of a] decode_encode_name [of b] encode_name_no_slash [of a] by metis

theorem mailbox_name_roundtrip_witness:
  "decodeMailboxName (encodeMailboxName ''Sent items/2024'') = ''Sent items/2024''"
proof -
  have a: "ascii ''Sent items/2024''" by (simp add: ascii_def)
  then have "\<forall>r\<in>set (runes ''Sent items/2024''). r < 256" by (simp add: runes_ascii)
  with mailbox_name_roundtrip [of "''Sent items/2024''" "''Sent items/2024''"] a show ?thesis by simp
qed

text \<open>
  Above one byte the escape is ambiguous: the name of one rune, the euro sign, and the
  name made of a space and the letters AC have the same directory name, so the two mailboxes
  are one on disk, and listing the mailboxes shows the second name for the first.
\<close>

lemma mailbox_name_collision:
  "encodeMailboxName (encode_rune 0x20AC) = encodeMailboxName '' AC''
   \<and> encode_rune 0x20AC \<noteq> '' AC'' \<and> CanonicalMailbox (encode_rune 0x20AC) \<noteq> CanonicalMailbox '' AC''
   \<and> decodeMailboxName (encodeMailboxName (encode_rune 0x20AC)) = '' AC''"
proof -
  have v: "valid_rune 0x20AC" by (simp add: valid_rune_def)
  have runes1: "runes (encode_rune 0x20AC) = [0x20AC]" using runes_encode [OF v, of "[]"] by simp
  have runes2: "runes '' AC'' = [32, 65, 67]" by simp
  have "encode_name_rune 0x20AC = concat (map encode_name_rune [32, 65, 67])"
    by (simp add: encode_name_rune_def safe_rune_def hex_str.simps pad0_def hex_digit_def encode_rune_def
        encode_bytes_def valid_rune_def)
  then have enc: "encodeMailboxName (encode_rune 0x20AC) = encodeMailboxName '' AC''"
    by (simp only: encodeMailboxName_def runes1 runes2 list.map concat.simps append_Nil2)
  have diff: "encode_rune 0x20AC \<noteq> '' AC''"
  proof
    assume "encode_rune 0x20AC = '' AC''"
    from runes1 [unfolded this runes2] show False by simp
  qed
  have dec: "decodeMailboxName (encodeMailboxName '' AC'') = '' AC''"
    using decode_encode_name [of "'' AC''"] by (simp add: json_str_ascii ascii_def)
  have slash: "CHR ''/'' \<notin> set (encode_rune 0x20AC)"
    by (simp add: encode_rune_def encode_bytes_def valid_rune_def char_of_eq_byte eq_commute [of "CHR ''/''"])
  then have "Trim (encode_rune 0x20AC) Delimiter = encode_rune 0x20AC" by (simp add: Trim_id Delimiter_def)
  moreover have "Trim '' AC'' Delimiter = '' AC''" by (simp add: Trim_def TrimRight_def Delimiter_def)
  moreover have "\<not> EqualFold (encode_rune 0x20AC) Inbox" by (simp add: EqualFold_def runes1 Inbox_def)
  moreover have "\<not> EqualFold '' AC'' Inbox" by (simp add: EqualFold_def Inbox_def)
  ultimately show ?thesis using enc diff dec by (simp add: CanonicalMailbox_def)
qed

end
