(* ===== verification/Mailboxes.thy ===== *)
theory Mailboxes
  imports MailboxNames
begin

text \<open>
  What the mail store of \<^verbatim>\<open>mail/store.go\<close> promises. The abstract mailbox is a list of
  messages, each with its UID, flags, date and body, and the next UID. The
  theorems show that appending, flagging, removing and copying implement the
  operations on that list, for every fault plan: on success the abstract mailbox
  changes as specified, on failure it is unchanged or its index is unreadable,
  other mailboxes and the user records are untouched, and UIDs are never reused
  before the 32-bit counter is exhausted.
\<close>

section \<open>The index document\<close>

definition norm_message :: "Message \<Rightarrow> Message" where
  "norm_message m = m\<lparr>msgFile := json_str (msgFile m), msgFlags := map json_str (msgFlags m)\<rparr>"

definition norm_index :: "mailboxIndex \<Rightarrow> mailboxIndex" where
  "norm_index ix = ix\<lparr>Messages := map norm_message (Messages ix)\<rparr>"

lemma message_field_eqs:
  "message_field ''uid'' j m = map_option (\<lambda>n. m\<lparr>msgUID := n\<rparr>) (dec_u32 j (msgUID m))"
  "message_field ''file'' j m = map_option (\<lambda>s. m\<lparr>msgFile := s\<rparr>) (dec_string j (msgFile m))"
  "message_field ''size'' j m = map_option (\<lambda>n. m\<lparr>msgSize := n\<rparr>) (dec_u32 j (msgSize m))"
  "message_field ''date'' j m = map_option (\<lambda>t. m\<lparr>msgDate := t\<rparr>) (dec_time j (msgDate m))"
  "message_field ''flags'' j m = map_option (\<lambda>fs. m\<lparr>msgFlags := fs\<rparr>) (dec_strings j (msgFlags m))"
  by (simp_all add: message_field_def field_is_def EqualFold_def fold_rune_def)

lemma index_field_eqs:
  "index_field ''uidvalidity'' j ix = map_option (\<lambda>n. ix\<lparr>UIDValidity := n\<rparr>) (dec_u32 j (UIDValidity ix))"
  "index_field ''uidnext'' j ix = map_option (\<lambda>n. ix\<lparr>UIDNext := n\<rparr>) (dec_u32 j (UIDNext ix))"
  "index_field ''subscribed'' j ix = map_option (\<lambda>b. ix\<lparr>Subscribed := b\<rparr>) (dec_bool j (Subscribed ix))"
  "index_field ''messages'' j ix = map_option (\<lambda>ms. ix\<lparr>Messages := ms\<rparr>) (dec_messages j (Messages ix))"
  by (simp_all add: index_field_def field_is_def EqualFold_def fold_rune_def)

lemma dec_message: "dec_object message_field zero_message (marshal_message m) = Some (norm_message m)"
  by (cases m) (simp add: marshal_message_def dec_object_def message_field_eqs norm_message_def zero_message_def)

lemma marshal_message_not_null: "marshal_message m \<noteq> JNull"
  by (simp add: marshal_message_def)

lemma dec_messages_map: "dec_messages (JArr (map marshal_message ms)) old = Some (map norm_message ms)"
proof -
  have "(\<lambda>x. if x = JNull then None else dec_object message_field zero_message x) \<circ> marshal_message = Some \<circ> norm_message"
    by (rule ext) (simp add: dec_message marshal_message_not_null)
  then show ?thesis by (simp add: dec_messages_def comp_def)
qed

lemma unmarshal_marshal_index: "unmarshal_index (marshal_index ix) = Some (norm_index ix)"
  by (cases ix) (simp add: unmarshal_index_def marshal_index_def dec_object_def index_field_eqs dec_messages_map norm_index_def)

lemma norm_index_idem: "norm_index (norm_index ix) = norm_index ix"
  by (simp add: norm_index_def norm_message_def comp_def)

interpretation index_codec: json_codec marshal_index unmarshal_index norm_index "\<lambda>_. True"
  by unfold_locales (simp_all add: unmarshal_marshal_index norm_index_idem)

section \<open>Paths\<close>

lemma plain_mail [simp]: "plain_name ''mail''" "plain_name ''index.json''"
  by (simp_all add: plain_name_def)

lemma mailRoot_eq: "mailRoot userDir uid = userDir uid @ [''mail'']"
  by (simp add: mailRoot_def plain_name_join)

lemma indexPath_eq: "indexPath userDir uid name = mailboxDir userDir uid name @ [''index.json'']"
  by (simp add: indexPath_def plain_name_join)

lemma mailboxDir_eq:
  "inside name \<Longrightarrow> mailboxDir userDir uid name = userDir uid @ [''mail'', encodeMailboxName (CanonicalMailbox name)]"
  by (simp add: mailboxDir_def mailRoot_eq plain_name_join inside_plain)

lemma writeIndex_put:
  "writeIndex userDir uid name ix fs = lift_os (put_file (indexPath userDir uid name) (Json (marshal_index ix)) fs)"
  by (auto simp: writeIndex_def put_file_def lift_os_def indexPath_eq plain_name_join Let_def split: prod.splits sum.splits)

text \<open>File names of messages determine the UID.\<close>

lemma digits_val_zeros: "digits_val 0 (replicate k (CHR ''0'') @ s) = digits_val 0 s"
  by (induction k) (simp_all add: is_digit_def)

lemma eml_file_inj: "eml_file u = eml_file v \<longleftrightarrow> u = v"
proof
  assume "eml_file u = eml_file v"
  then have "digits_val 0 (pad0 8 (nat_str (unat u))) = digits_val 0 (pad0 8 (nat_str (unat v)))" by (simp add: eml_file_def)
  then have "unat u = unat v" by (simp add: pad0_def digits_val_zeros digits_val_nat_str)
  then show "u = v" by (simp add: word_unat_eq_iff)
qed simp

lemma eml_file_chars: "c \<in> set (eml_file u) \<Longrightarrow> is_digit c \<or> c \<in> set ''.eml''"
  by (auto simp: eml_file_def pad0_def is_digit_def [of "CHR ''0''"] split: if_splits dest: nat_str_digits)

lemma eml_file_plain [simp]: "plain_name (eml_file u)"
proof -
  have "CHR ''/'' \<notin> set (eml_file u)" using eml_file_chars [of "CHR ''/''" u] by (auto simp: is_digit_def)
  moreover have "length (eml_file u) \<ge> 4" by (simp add: eml_file_def)
  ultimately show ?thesis by (auto simp: plain_name_def)
qed

lemma eml_file_not_index [simp]: "eml_file u \<noteq> ''index.json''" "''index.json'' \<noteq> eml_file u"
proof -
  have l: "last (eml_file u) = CHR ''l''" by (simp add: eml_file_def)
  show "eml_file u \<noteq> ''index.json''"
  proof
    assume "eml_file u = ''index.json''"
    from l [unfolded this] show False by simp
  qed
  then show "''index.json'' \<noteq> eml_file u" by (rule not_sym)
qed

lemma json_str_eml [simp]: "json_str (eml_file u) = eml_file u"
proof (rule json_str_ascii)
  show "ascii (eml_file u)"
    using eml_file_chars [of _ u] by (fastforce simp: ascii_def is_digit_def)
qed

section \<open>The abstract mailbox\<close>

definition box_index :: "(int \<Rightarrow> path) \<Rightarrow> fsys \<Rightarrow> int \<Rightarrow> string \<Rightarrow> mailboxIndex option" where
  "box_index userDir fs uid name =
    (case file_at fs (indexPath userDir uid name) of None \<Rightarrow> None | Some c \<Rightarrow> decode_index c)"

definition body_of :: "(int \<Rightarrow> path) \<Rightarrow> fsys \<Rightarrow> int \<Rightarrow> string \<Rightarrow> u32 \<Rightarrow> string option" where
  "body_of userDir fs uid name u =
    (case file_at fs (mailboxDir userDir uid name @ [eml_file u]) of Some (Bytes b) \<Rightarrow> Some b | _ \<Rightarrow> None)"

lemma body_of_cong:
  "file_at fs' (mailboxDir userDir uid name @ [eml_file u]) = file_at fs (mailboxDir userDir uid name @ [eml_file u]) \<Longrightarrow>
   body_of userDir fs' uid name u = body_of userDir fs uid name u"
  by (simp add: body_of_def)

text \<open>The index every operation works on: the stored one, or a fresh one when there is none.\<close>

definition cur_index :: "(int \<Rightarrow> path) \<Rightarrow> time \<Rightarrow> fsys \<Rightarrow> int \<Rightarrow> string \<Rightarrow> mailboxIndex" where
  "cur_index userDir now fs uid name =
    (case box_index userDir fs uid name of None \<Rightarrow> newMailboxIndex now | Some ix \<Rightarrow> fill_index now ix)"

text \<open>A message of the abstract mailbox: UID, flags, date, body.\<close>

type_synonym mail = "u32 \<times> string list \<times> time \<times> string"

definition box_mails :: "(int \<Rightarrow> path) \<Rightarrow> fsys \<Rightarrow> int \<Rightarrow> string \<Rightarrow> mail list" where
  "box_mails userDir fs uid name =
    (case box_index userDir fs uid name of
       None \<Rightarrow> []
     | Some ix \<Rightarrow> map (\<lambda>m. (msgUID m, msgFlags m, msgDate m, the (body_of userDir fs uid name (msgUID m)))) (Messages ix))"

definition index_ok :: "mailboxIndex \<Rightarrow> bool" where
  "index_ok ix \<longleftrightarrow> 0 < UIDNext ix \<and> sorted_wrt (<) (map msgUID (Messages ix))
    \<and> (\<forall>m\<in>set (Messages ix). 0 < msgUID m \<and> msgUID m < UIDNext ix \<and> msgFile m = eml_file (msgUID m)
         \<and> map json_str (msgFlags m) = msgFlags m)"

definition box_ok :: "(int \<Rightarrow> path) \<Rightarrow> fsys \<Rightarrow> int \<Rightarrow> string \<Rightarrow> bool" where
  "box_ok userDir fs uid name \<longleftrightarrow>
    (case box_index userDir fs uid name of
       None \<Rightarrow> True
     | Some ix \<Rightarrow> index_ok ix \<and> (\<forall>m\<in>set (Messages ix). \<exists>b.
         body_of userDir fs uid name (msgUID m) = Some b \<and> msgSize m = word_of_nat (length b)))"

section \<open>Reading and writing the index\<close>

lemma Trim_idem: "Trim (Trim s cutset) cutset = Trim s cutset"
proof -
  let ?P = "\<lambda>c. c \<in> set cutset"
  have drop: "dropWhile ?P (dropWhile ?P xs) = dropWhile ?P xs" for xs by (rule dropWhile_idem)
  define t where "t = dropWhile ?P s"
  define u where "u = rev (dropWhile ?P (rev t))"
  have t: "t = [] \<or> \<not> ?P (hd t)" unfolding t_def using hd_dropWhile [of ?P s] by auto
  have "u = [] \<or> \<not> ?P (hd u)"
  proof (cases "u = []")
    case False
    have "\<exists>v. t = u @ v" unfolding u_def by (metis dropWhile_eq_drop rev_drop rev_rev_ident append_take_drop_id)
    with False t show ?thesis by auto
  qed simp
  then have "dropWhile ?P u = u" by (rule dropWhile_id)
  moreover have "rev (dropWhile ?P (rev u)) = u" by (simp add: u_def drop)
  moreover have "Trim s cutset = u" by (simp add: Trim_def TrimRight_def u_def t_def)
  ultimately show ?thesis by (simp add: Trim_def TrimRight_def)
qed

lemma CanonicalMailbox_idem [simp]: "CanonicalMailbox (CanonicalMailbox name) = CanonicalMailbox name"
proof -
  have "Trim Inbox Delimiter = Inbox" by (simp add: Trim_def TrimRight_def Inbox_def Delimiter_def)
  then show ?thesis by (simp add: CanonicalMailbox_def Let_def Trim_idem)
qed

lemma mailboxDir_canonical [simp]: "mailboxDir userDir uid (CanonicalMailbox name) = mailboxDir userDir uid name"
  "indexPath userDir uid (CanonicalMailbox name) = indexPath userDir uid name"
  by (simp_all add: mailboxDir_def indexPath_def)

lemma box_canonical [simp]:
  "box_index userDir fs uid (CanonicalMailbox name) = box_index userDir fs uid name"
  "body_of userDir fs uid (CanonicalMailbox name) = body_of userDir fs uid name"
  by (simp_all add: box_index_def body_of_def fun_eq_iff)

lemma readIndex_files: "file_at (snd (readIndex userDir now uid name fs)) = file_at fs"
  using file_at_reads(1) [of "indexPath userDir uid name" fs]
  by (auto simp: readIndex_def Let_def split: prod.splits sum.splits oserr.splits option.splits)

lemma readIndex_Inr: "readIndex userDir now uid name fs = (Inr ix, fs') \<Longrightarrow> ix = cur_index userDir now fs uid name"
  by (auto simp: readIndex_def cur_index_def box_index_def file_at_def Let_def dest!: ReadFile_Inr ReadFile_NotExist
      split: prod.splits sum.splits oserr.splits option.splits if_splits)

lemma readIndex_missing:
  "readIndex userDir now uid name fs = (Inl ErrNoSuchMailbox, fs') \<Longrightarrow>
   box_index userDir fs uid name = None \<and> CanonicalMailbox name \<noteq> Inbox"
  by (auto simp: readIndex_def box_index_def file_at_def Let_def dest!: ReadFile_NotExist
      split: prod.splits sum.splits oserr.splits option.splits if_splits)

lemma lift_os_eq [simp]:
  "lift_os p = (Inr u, fs) \<longleftrightarrow> p = (Inr u, fs)" "lift_os p = (Inl e, fs) \<longleftrightarrow> (\<exists>e'. e = MailOS e' \<and> p = (Inl e', fs))"
  by (auto simp: lift_os_def split: prod.splits sum.splits)

lemma writeIndex_Inr:
  "writeIndex userDir uid name ix fs = (Inr u, fs') \<Longrightarrow>
   file_at fs' = (file_at fs)(indexPath userDir uid name \<mapsto> Json (marshal_index ix))"
  unfolding writeIndex_put by (auto dest: put_file_Inr)

lemma writeIndex_Inl:
  "writeIndex userDir uid name ix fs = (Inl e, fs') \<Longrightarrow>
   file_at fs' = file_at fs \<or> file_at fs' = (file_at fs)(indexPath userDir uid name \<mapsto> Bytes [])"
  unfolding writeIndex_put by (auto dest!: put_file_Inl simp: torn_def)

text \<open>A mailbox that can be read and written when no call fails.\<close>

definition box_ready :: "(int \<Rightarrow> path) \<Rightarrow> fsys \<Rightarrow> int \<Rightarrow> string \<Rightarrow> bool" where
  "box_ready userDir fs uid name \<longleftrightarrow> faults fs = [] \<and> \<not> file_above fs (mailboxDir userDir uid name)
    \<and> (\<forall>u. fs_lookup fs (mailboxDir userDir uid name @ [eml_file u]) \<noteq> Some Dir)
    \<and> fs_lookup fs (indexPath userDir uid name) \<noteq> Some Dir
    \<and> (\<forall>c. fs_lookup fs (indexPath userDir uid name) = Some (File c) \<longrightarrow> decode_index c \<noteq> None)"

lemma ready_writable:
  assumes "box_ready userDir fs uid name"
  shows "writable (indexPath userDir uid name) fs" "writable (mailboxDir userDir uid name @ [eml_file u]) fs"
  using assms by (simp_all add: box_ready_def writable_def indexPath_eq)

lemma ready_read:
  assumes "box_ready userDir fs uid name"
  shows "readIndex userDir now uid name fs =
    (if box_index userDir fs uid name = None \<and> CanonicalMailbox name \<noteq> Inbox then Inl ErrNoSuchMailbox
     else Inr (cur_index userDir now fs uid name), fs)"
proof -
  have "\<not> file_above fs (indexPath userDir uid name)" if "fs_lookup fs (indexPath userDir uid name) = None"
    using assms that unfolding box_ready_def no_file_above indexPath_eq by (metis node.distinct(1) option.distinct(1) prefix_snoc)
  then show ?thesis
    using assms unfolding readIndex_def Let_def mailboxDir_canonical
    by (auto simp: box_ready_def ReadFile_ok box_index_def cur_index_def file_at_def missing_def
        split: option.splits node.splits)
qed

lemma ready_put:
  assumes "box_ready userDir fs uid name"
  shows "box_ready userDir (fs_put (mailboxDir userDir uid name @ [eml_file u]) (File c) (mkdirs (mailboxDir userDir uid name) fs)) uid name"
    "decode_index c \<noteq> None \<Longrightarrow>
      box_ready userDir (fs_put (indexPath userDir uid name) (File c) (mkdirs (mailboxDir userDir uid name) fs)) uid name"
  using assms unfolding box_ready_def no_file_above by (auto simp: indexPath_eq)

lemma ready_writeIndex:
  assumes "box_ready userDir fs uid name"
  shows "writeIndex userDir uid name ix fs =
      (Inr (), fs_put (indexPath userDir uid name) (File (Json (marshal_index ix))) (mkdirs (mailboxDir userDir uid name) fs))"
    "box_ready userDir (snd (writeIndex userDir uid name ix fs)) uid name"
proof -
  show eq: "writeIndex userDir uid name ix fs =
      (Inr (), fs_put (indexPath userDir uid name) (File (Json (marshal_index ix))) (mkdirs (mailboxDir userDir uid name) fs))"
    using put_file_total [OF ready_writable(1) [OF assms]] by (simp add: writeIndex_put lift_os_def indexPath_eq)
  show "box_ready userDir (snd (writeIndex userDir uid name ix fs)) uid name"
    using ready_put(2) [OF assms, of "Json (marshal_index ix)"] by (simp add: eq decode_index_def unmarshal_marshal_index)
qed

section \<open>Appending a message\<close>

definition new_message :: "mailboxIndex \<Rightarrow> time \<Rightarrow> string list \<Rightarrow> time \<Rightarrow> string \<Rightarrow> Message" where
  "new_message ix now flags date body =
    \<lparr>msgUID = UIDNext ix, msgFile = eml_file (UIDNext ix), msgSize = word_of_nat (length body),
      msgDate = (if date = zeroTime then now else date), msgFlags = normaliseFlags flags\<rparr>"

definition appended :: "mailboxIndex \<Rightarrow> Message \<Rightarrow> mailboxIndex" where
  "appended ix m = ix\<lparr>Messages := Messages ix @ [m], UIDNext := UIDNext ix + 1\<rparr>"

lemma Append_eq:
  "Append userDir now uid name flags date body fs =
    (let run = (\<lambda>ix fs1.
       case put_file (mailboxDir userDir uid name @ [eml_file (UIDNext ix)]) (Bytes body) fs1 of
         (Inl e, fs3) \<Rightarrow> (Inl (MailOS e), fs3)
       | (Inr _, fs3) \<Rightarrow>
           (case writeIndex userDir uid name (appended ix (new_message ix now flags date body)) fs3 of
              (Inl e, fs4) \<Rightarrow> (Inl e, fs4) | (Inr _, fs4) \<Rightarrow> (Inr (UIDNext ix), fs4)))
     in case readIndex userDir now uid name fs of
          (Inl ErrNoSuchMailbox, fs1) \<Rightarrow> run (newMailboxIndex now) fs1
        | (Inl e, fs1) \<Rightarrow> (Inl e, fs1)
        | (Inr ix, fs1) \<Rightarrow> run ix fs1)"
proof -
  have rd: "readIndex userDir now uid (CanonicalMailbox name) fs = readIndex userDir now uid name fs"
    by (simp add: readIndex_def)
  have wr: "writeIndex userDir uid (CanonicalMailbox name) ix fs = writeIndex userDir uid name ix fs" for ix fs
    by (simp add: writeIndex_def)
  show ?thesis
    unfolding Append_def rd wr Let_def
    by (auto simp: put_file_def plain_name_join appended_def new_message_def split: prod.splits sum.splits mailerr.splits)
qed

lemma Append_cases:
  assumes "Append userDir now uid name flags date body fs = (r, fs')"
  defines "ix \<equiv> cur_index userDir now fs uid name"
  defines "bp \<equiv> mailboxDir userDir uid name @ [eml_file (UIDNext ix)]"
  defines "new \<equiv> appended ix (new_message ix now flags date body)"
  obtains (same) e where "r = Inl e" "file_at fs' = file_at fs"
    | (body) e b where "r = Inl e" "file_at fs' = (file_at fs)(bp \<mapsto> Bytes b)"
    | (index) e where "r = Inl e" "file_at fs' = (file_at fs)(bp \<mapsto> Bytes body, indexPath userDir uid name \<mapsto> Bytes [])"
    | (stored) "r = Inr (UIDNext ix)"
        "file_at fs' = (file_at fs)(bp \<mapsto> Bytes body, indexPath userDir uid name \<mapsto> Json (marshal_index new))"
proof -
  obtain x fs1 where rd: "readIndex userDir now uid name fs = (x, fs1)" by fastforce
  have f1: "file_at fs1 = file_at fs" using readIndex_files [of userDir now uid name fs] rd by simp
  define run where "run = (\<lambda>ix fs1.
     case put_file (mailboxDir userDir uid name @ [eml_file (UIDNext ix)]) (Bytes body) fs1 of
       (Inl e, fs3) \<Rightarrow> (Inl (MailOS e), fs3)
     | (Inr _, fs3) \<Rightarrow>
         (case writeIndex userDir uid name (appended ix (new_message ix now flags date body)) fs3 of
            (Inl e, fs4) \<Rightarrow> (Inl e, fs4) | (Inr _, fs4) \<Rightarrow> (Inr (UIDNext ix), fs4)))"
  have app: "(case x of Inl ErrNoSuchMailbox \<Rightarrow> run (newMailboxIndex now) fs1
      | Inl e \<Rightarrow> (Inl e, fs1) | Inr i \<Rightarrow> run i fs1) = (r, fs')"
    using assms(1) rd unfolding Append_eq Let_def run_def by (auto split: sum.splits mailerr.splits)
  show ?thesis
  proof (cases "(\<exists>i. x = Inr i) \<or> x = Inl ErrNoSuchMailbox")
    case False
    then have "\<exists>e. r = Inl e" "fs' = fs1" using app by (auto split: sum.splits mailerr.splits)
    with f1 same show ?thesis by blast
  next
    case True
    have "run ix fs1 = (r, fs')"
    proof (cases x)
      case (Inl e)
      with True have e: "e = ErrNoSuchMailbox" by simp
      have "ix = newMailboxIndex now"
        using readIndex_missing [OF rd [unfolded Inl e]] by (simp add: ix_def cur_index_def)
      with app Inl e show ?thesis by simp
    next
      case (Inr i)
      then have "ix = i" using readIndex_Inr [OF rd [unfolded Inr]] by (simp add: ix_def)
      with app Inr show ?thesis by simp
    qed
    then have run: "(case put_file bp (Bytes body) fs1 of
       (Inl e, fs3) \<Rightarrow> (Inl (MailOS e), fs3)
     | (Inr _, fs3) \<Rightarrow>
         (case writeIndex userDir uid name new fs3 of
            (Inl e, fs4) \<Rightarrow> (Inl e, fs4) | (Inr _, fs4) \<Rightarrow> (Inr (UIDNext ix), fs4))) = (r, fs')"
      by (simp only: run_def bp_def new_def)
    obtain y fs2 where pf: "put_file bp (Bytes body) fs1 = (y, fs2)" by fastforce
    show ?thesis
    proof (cases y)
      case (Inl e)
      with run pf have "r = Inl (MailOS e)" "fs' = fs2" by auto
      then show ?thesis using put_file_Inl [OF pf [unfolded Inl]] f1 same body by (auto simp: torn_def)
    next
      case (Inr u)
      note f2 = put_file_Inr [OF pf [unfolded Inr]]
      obtain z fs3 where wi: "writeIndex userDir uid name new fs2 = (z, fs3)" by fastforce
      show ?thesis
      proof (cases z)
        case (Inl e)
        with run pf Inr wi have "r = Inl e" "fs' = fs3" by auto
        then show ?thesis using writeIndex_Inl [OF wi [unfolded Inl]] f1 f2 body index by auto
      next
        case zInr: (Inr v)
        with run pf Inr wi have "r = Inr (UIDNext ix)" "fs' = fs3" by auto
        then show ?thesis using writeIndex_Inr [OF wi [unfolded zInr]] f1 f2 stored by auto
      qed
    qed
  qed
qed

text \<open>Without faults an append to a mailbox that is ready succeeds and leaves it ready.\<close>

lemma Append_total:
  assumes "box_ready userDir fs uid name"
  shows "\<exists>fs'. Append userDir now uid name flags date body fs = (Inr (UIDNext (cur_index userDir now fs uid name)), fs')
    \<and> box_ready userDir fs' uid name"
proof -
  let ?ix = "cur_index userDir now fs uid name"
  let ?p = "mailboxDir userDir uid name @ [eml_file (UIDNext ?ix)]"
  let ?fs1 = "fs_put ?p (File (Bytes body)) (mkdirs (mailboxDir userDir uid name) fs)"
  have pf: "put_file ?p (Bytes body) fs = (Inr (), ?fs1)"
    using put_file_total [OF ready_writable(2) [OF assms]] by simp
  have r1: "box_ready userDir ?fs1 uid name" by (rule ready_put(1) [OF assms])
  note wr = ready_writeIndex [OF r1, of "appended ?ix (new_message ?ix now flags date body)"]
  have new: "box_index userDir fs uid name = None \<Longrightarrow> ?ix = newMailboxIndex now" by (simp add: cur_index_def)
  show ?thesis
    using wr(2) by (auto simp: Append_eq ready_read [OF assms] Let_def pf wr(1) new [symmetric])
qed

lemma word_inc:
  fixes n :: u32
  assumes "n + 1 \<noteq> 0"
  shows "n < n + 1" "x < n \<Longrightarrow> x < n + 1" "0 < n + 1"
proof -
  have "unat (n + 1) = Suc (unat n)" using assms unatSuc [of n] by (simp add: add.commute)
  then show "n < n + 1" "x < n \<Longrightarrow> x < n + 1" "0 < n + 1" by (simp_all add: word_less_nat_alt)
qed

lemma index_ok_new: "index_ok (newMailboxIndex now)"
  by (simp add: index_ok_def newMailboxIndex_def)

lemma fill_index_ok: "index_ok ix \<Longrightarrow> Messages (fill_index now ix) = Messages ix \<and> UIDNext (fill_index now ix) = UIDNext ix"
  by (auto simp: fill_index_def index_ok_def Let_def)

lemma cur_index_ok:
  assumes "box_ok userDir fs uid name"
  shows "index_ok (cur_index userDir now fs uid name)"
    "box_mails userDir fs uid name = map (\<lambda>m. (msgUID m, msgFlags m, msgDate m,
       the (body_of userDir fs uid name (msgUID m)))) (Messages (cur_index userDir now fs uid name))"
    "m \<in> set (Messages (cur_index userDir now fs uid name)) \<Longrightarrow>
       \<exists>b. body_of userDir fs uid name (msgUID m) = Some b \<and> msgSize m = word_of_nat (length b)"
  using assms fill_index_ok [of _ now] index_ok_new
  by (auto simp: cur_index_def box_ok_def box_mails_def index_ok_def newMailboxIndex_def split: option.splits)

lemma norm_ok_messages: "index_ok ix \<Longrightarrow> map norm_message (Messages ix) = Messages ix"
  by (rule map_idI) (simp add: norm_message_def index_ok_def)

lemma index_ok_appended:
  assumes "index_ok ix" "UIDNext ix + 1 \<noteq> 0"
  shows "index_ok (norm_index (appended ix (new_message ix now flags date body)))"
    "Messages (norm_index (appended ix (new_message ix now flags date body))) =
       Messages ix @ [norm_message (new_message ix now flags date body)]"
proof -
  show m: "Messages (norm_index (appended ix (new_message ix now flags date body))) =
       Messages ix @ [norm_message (new_message ix now flags date body)]"
    using norm_ok_messages [OF assms(1)] by (simp add: norm_index_def appended_def)
  show "index_ok (norm_index (appended ix (new_message ix now flags date body)))"
    using assms word_inc [OF assms(2)] unfolding index_ok_def m
    by (auto simp: norm_index_def appended_def norm_message_def new_message_def sorted_wrt_append)
qed

lemma mail_paths_apart [simp]:
  "mailboxDir userDir uid name @ [eml_file u] \<noteq> indexPath userDir uid name"
  "indexPath userDir uid name \<noteq> mailboxDir userDir uid name @ [eml_file u]"
  by (simp_all add: indexPath_eq)

text \<open>A mailbox whose index and message bodies are untouched is the same mailbox.\<close>

lemma box_cong:
  assumes "box_ok userDir fs uid name"
    and "box_index userDir fs' uid name = box_index userDir fs uid name"
    and "\<And>m. m \<in> set (Messages (cur_index userDir now fs uid name)) \<Longrightarrow>
           body_of userDir fs' uid name (msgUID m) = body_of userDir fs uid name (msgUID m)"
  shows "box_ok userDir fs' uid name \<and> box_mails userDir fs' uid name = box_mails userDir fs uid name"
proof (cases "box_index userDir fs uid name")
  case None
  with assms(2) show ?thesis by (simp add: box_ok_def box_mails_def)
next
  case (Some ix)
  then have "Messages (cur_index userDir now fs uid name) = Messages ix" "index_ok ix"
    using assms(1) fill_index_ok [of ix now] by (auto simp: cur_index_def box_ok_def)
  with Some assms show ?thesis by (simp add: box_ok_def box_mails_def)
qed

lemma Append_effect:
  assumes ok: "box_ok userDir fs uid name" and room: "UIDNext (cur_index userDir now fs uid name) + 1 \<noteq> 0"
    and app: "Append userDir now uid name flags date body fs = (r, fs')"
  shows "box_ok userDir fs' uid name \<and>
    (case r of
       Inr u \<Rightarrow>
         u = UIDNext (cur_index userDir now fs uid name)
         \<and> (\<forall>m\<in>set (box_mails userDir fs uid name). fst m < u)
         \<and> box_mails userDir fs' uid name = box_mails userDir fs uid name @
             [(u, map json_str (normaliseFlags flags), if date = zeroTime then now else date, body)]
         \<and> UIDNext (cur_index userDir now' fs' uid name) = u + 1
     | Inl e \<Rightarrow>
         box_mails userDir fs' uid name = box_mails userDir fs uid name \<or> box_index userDir fs' uid name = None)"
proof -
  let ?ix = "cur_index userDir now fs uid name"
  let ?bp = "mailboxDir userDir uid name @ [eml_file (UIDNext ?ix)]"
  let ?new = "appended ?ix (new_message ?ix now flags date body)"
  note ix = cur_index_ok(1) [OF ok, of now] and mails = cur_index_ok(2) [OF ok, of now]
  have lt: "m \<in> set (Messages ?ix) \<Longrightarrow> msgUID m < UIDNext ?ix" for m using ix by (simp add: index_ok_def)
  have keep: "body_of userDir fs' uid name (msgUID m) = body_of userDir fs uid name (msgUID m)"
    if "m \<in> set (Messages ?ix)" "\<And>p. p \<noteq> ?bp \<Longrightarrow> p \<noteq> indexPath userDir uid name \<Longrightarrow> file_at fs' p = file_at fs p" for m
    using that(2) lt [OF that(1)] by (auto simp: body_of_def eml_file_inj)
  have old: "box_ok userDir fs' uid name \<and> box_mails userDir fs' uid name = box_mails userDir fs uid name"
    if f: "\<And>p. p \<noteq> ?bp \<Longrightarrow> file_at fs' p = file_at fs p"
    using f keep by (intro box_cong [OF ok, where now = now]) (simp_all add: box_index_def)
  from app show ?thesis
  proof (cases rule: Append_cases)
    case (same e)
    with old show ?thesis by simp
  next
    case (body e b)
    with old show ?thesis by simp
  next
    case (index e)
    then have "box_index userDir fs' uid name = None" by (simp add: box_index_def decode_index_def)
    with index show ?thesis by (simp add: box_ok_def)
  next
    case stored
    have bi: "box_index userDir fs' uid name = Some (norm_index ?new)"
      by (simp add: box_index_def stored decode_index_def unmarshal_marshal_index)
    have nb: "body_of userDir fs' uid name (UIDNext ?ix) = Some body" by (simp add: body_of_def stored)
    have kb: "m \<in> set (Messages ?ix) \<Longrightarrow> body_of userDir fs' uid name (msgUID m) = body_of userDir fs uid name (msgUID m)" for m
      using keep stored by simp
    note norm = index_ok_appended [OF ix room, of now flags date body]
    have "box_ok userDir fs' uid name"
      using norm kb nb cur_index_ok(3) [OF ok, of _ now] by (auto simp: box_ok_def bi norm_message_def new_message_def)
    moreover have "box_mails userDir fs' uid name = box_mails userDir fs uid name @
        [(UIDNext ?ix, map json_str (normaliseFlags flags), if date = zeroTime then now else date, body)]"
    proof -
      have "box_mails userDir fs' uid name = map (\<lambda>m. (msgUID m, msgFlags m, msgDate m,
          the (body_of userDir fs' uid name (msgUID m)))) (Messages ?ix @ [norm_message (new_message ?ix now flags date body)])"
        by (simp only: box_mails_def bi option.case norm(2))
      then show ?thesis using kb nb by (simp add: mails norm_message_def new_message_def)
    qed
    moreover have "UIDNext (cur_index userDir now' fs' uid name) = UIDNext ?ix + 1"
      using fill_index_ok [OF norm(1)] by (simp add: cur_index_def bi norm_index_def appended_def)
    ultimately show ?thesis using stored(1) lt by (auto simp: mails)
  qed
qed

section \<open>Flags and removal\<close>

definition flagged :: "u32 list \<Rightarrow> string list \<Rightarrow> FlagOp \<Rightarrow> mailboxIndex \<Rightarrow> mailboxIndex" where
  "flagged uids flags op ix = ix\<lparr>Messages := map (\<lambda>msg. if msgUID msg \<in> set uids
     then msg\<lparr>msgFlags := applyFlags (msgFlags msg) flags op\<rparr> else msg) (Messages ix)\<rparr>"

lemma norm_flagged:
  "Messages (norm_index (flagged uids flags op ix)) = map (\<lambda>m. norm_message (if msgUID m \<in> set uids
     then m\<lparr>msgFlags := applyFlags (msgFlags m) flags op\<rparr> else m)) (Messages ix)"
  by (simp add: norm_index_def flagged_def comp_def)

lemma index_ok_flagged:
  assumes "index_ok ix"
  shows "index_ok (norm_index (flagged uids flags op ix))" "UIDNext (norm_index (flagged uids flags op ix)) = UIDNext ix"
proof -
  show nxt: "UIDNext (norm_index (flagged uids flags op ix)) = UIDNext ix" by (simp add: norm_index_def flagged_def)
  have "msgUID (norm_message (if P then m\<lparr>msgFlags := fl\<rparr> else m)) = msgUID m" for P m fl by (simp add: norm_message_def)
  then show "index_ok (norm_index (flagged uids flags op ix))"
    using assms unfolding index_ok_def norm_flagged nxt by (simp add: comp_def) (simp add: norm_message_def)
qed

lemma SetFlags_cases:
  assumes "SetFlags userDir now uid name uids flags op fs = (r, fs')"
  defines "ix \<equiv> cur_index userDir now fs uid name"
  defines "new \<equiv> flagged uids flags op ix"
  shows "r = Inr () \<and> file_at fs' = (file_at fs)(indexPath userDir uid name \<mapsto> Json (marshal_index new))
    \<or> (\<exists>e. r = Inl e) \<and> (file_at fs' = file_at fs \<or> file_at fs' = (file_at fs)(indexPath userDir uid name \<mapsto> Bytes []))"
proof -
  obtain x fs1 where rd: "readIndex userDir now uid name fs = (x, fs1)" by fastforce
  have f1: "file_at fs1 = file_at fs" using readIndex_files [of userDir now uid name fs] rd by simp
  show ?thesis
  proof (cases x)
    case (Inl e)
    then show ?thesis using assms(1) rd f1 by (auto simp: SetFlags_def)
  next
    case (Inr i)
    then have "i = ix" using readIndex_Inr [OF rd [unfolded Inr]] by (simp add: ix_def)
    then have wr: "writeIndex userDir uid name new fs1 = (r, fs')" using assms(1) rd Inr by (simp add: SetFlags_def new_def flagged_def)
    show ?thesis
      using writeIndex_Inr [of userDir uid name new fs1 _ fs'] writeIndex_Inl [of userDir uid name new fs1 _ fs'] wr f1
      by (cases r) auto
  qed
qed

definition flag_mails :: "u32 list \<Rightarrow> string list \<Rightarrow> FlagOp \<Rightarrow> mail list \<Rightarrow> mail list" where
  "flag_mails uids flags op =
    map (\<lambda>(u, fl, d, b). (u, if u \<in> set uids then map json_str (applyFlags fl flags op) else fl, d, b))"

lemma SetFlags_effect:
  assumes ok: "box_ok userDir fs uid name" and set: "SetFlags userDir now uid name uids flags op fs = (r, fs')"
  shows "box_ok userDir fs' uid name \<and>
    (case r of
       Inr _ \<Rightarrow> box_mails userDir fs' uid name = flag_mails uids flags op (box_mails userDir fs uid name)
     | Inl e \<Rightarrow> box_mails userDir fs' uid name = box_mails userDir fs uid name \<or> box_index userDir fs' uid name = None)"
proof -
  let ?ix = "cur_index userDir now fs uid name"
  let ?f = "\<lambda>msg. if msgUID msg \<in> set uids then msg\<lparr>msgFlags := applyFlags (msgFlags msg) flags op\<rparr> else msg"
  let ?new = "flagged uids flags op ?ix"
  note ix = cur_index_ok(1) [OF ok, of now]
  have bodies: "(\<And>p. p \<noteq> indexPath userDir uid name \<Longrightarrow> file_at fs' p = file_at fs p) \<Longrightarrow>
      body_of userDir fs' uid name u = body_of userDir fs uid name u" for u
    by (simp add: body_of_def)
  from SetFlags_cases [OF set] show ?thesis
  proof (elim disjE exE conjE)
    fix e assume "r = Inl e" "file_at fs' = file_at fs"
    then show ?thesis using box_cong [OF ok, of fs' now] bodies by (simp add: box_index_def)
  next
    fix e assume e: "r = Inl e" "file_at fs' = (file_at fs)(indexPath userDir uid name \<mapsto> Bytes [])"
    then have "box_index userDir fs' uid name = None" by (simp add: box_index_def decode_index_def)
    with e(1) show ?thesis by (simp add: box_ok_def)
  next
    assume r: "r = Inr ()" and f: "file_at fs' = (file_at fs)(indexPath userDir uid name \<mapsto> Json (marshal_index ?new))"
    have bi: "box_index userDir fs' uid name = Some (norm_index ?new)"
      by (simp add: box_index_def f decode_index_def unmarshal_marshal_index)
    have b: "body_of userDir fs' uid name u = body_of userDir fs uid name u" for u using bodies f by simp
    have uid: "msgUID (norm_message (?f m)) = msgUID m" "msgFile (norm_message (?f m)) = json_str (msgFile m)"
      "msgSize (norm_message (?f m)) = msgSize m" "msgDate (norm_message (?f m)) = msgDate m" for m
      by (simp_all add: norm_message_def)
    note ms = norm_flagged [of uids flags op ?ix]
    have "index_ok (norm_index ?new)" by (rule index_ok_flagged [OF ix])
    then have "box_ok userDir fs' uid name"
      using cur_index_ok(3) [OF ok, of _ now] by (auto simp: box_ok_def bi ms uid b)
    moreover have "box_mails userDir fs' uid name = flag_mails uids flags op (box_mails userDir fs uid name)"
    proof -
      have "msgFlags (norm_message (?f m)) = (if msgUID m \<in> set uids then map json_str (applyFlags (msgFlags m) flags op) else msgFlags m)"
        if "m \<in> set (Messages ?ix)" for m using that ix by (simp add: norm_message_def index_ok_def)
      then show ?thesis by (simp add: box_mails_def [of userDir fs'] bi ms b uid cur_index_ok(2) [OF ok, of now] flag_mails_def)
    qed
    ultimately show ?thesis using r by simp
  qed
qed

lemma index_ok_filter: "index_ok ix \<Longrightarrow> index_ok (ix\<lparr>Messages := filter P (Messages ix)\<rparr>)"
  unfolding index_ok_def by (auto simp: sorted_wrt_map sorted_wrt_filter)

lemma Remove_file_files: "Remove_file p fs = (r, fs') \<Longrightarrow> q \<noteq> p \<Longrightarrow> file_at fs' q = file_at fs q"
  using Remove_file_frame [of q p fs] by (simp add: file_at_def)

lemma remove_messages_effect:
  "remove_messages userDir uid name doomed ms fs = (r, fs') \<Longrightarrow>
   (\<forall>kept. r = Inr kept \<longrightarrow> kept = filter (\<lambda>m. msgUID m \<notin> set doomed) ms)
   \<and> (\<forall>q. (\<forall>m\<in>set ms. msgUID m \<in> set doomed \<longrightarrow> q \<noteq> path_join (mailboxDir userDir uid name) (msgFile m)) \<longrightarrow>
        file_at fs' q = file_at fs q)"
proof (induction userDir uid name doomed ms fs arbitrary: r fs' rule: remove_messages.induct)
  case (2 userDir uid name doomed msg msgs fs)
  let ?p = "path_join (mailboxDir userDir uid name) (msgFile msg)"
  show ?case
  proof (cases "msgUID msg \<in> set doomed")
    case False
    obtain r1 fs1 where rm: "remove_messages userDir uid name doomed msgs fs = (r1, fs1)" by fastforce
    have "fs' = fs1" "r = (case r1 of Inl e \<Rightarrow> Inl e | Inr kept \<Rightarrow> Inr (msg # kept))"
      using "2.prems" False rm by (auto split: sum.splits)
    with "2.IH"(1) [OF False rm] False show ?thesis by (auto split: sum.splits)
  next
    case True
    obtain r1 fs1 where rf: "Remove_file ?p fs = (r1, fs1)" by fastforce
    note frame = Remove_file_files [OF rf]
    show ?thesis
    proof (cases "r1 = Inl IOErr")
      case err: True
      with "2.prems" True rf have "fs' = fs1" "r = Inl (MailOS IOErr)" by auto
      with frame True show ?thesis by auto
    next
      case no: False
      have rm: "remove_messages userDir uid name doomed msgs fs1 = (r, fs')"
        using "2.prems" True rf no by (cases r1; cases "projl r1"; auto)
      have "(\<forall>kept. r = Inr kept \<longrightarrow> kept = filter (\<lambda>m. msgUID m \<notin> set doomed) msgs)
          \<and> (\<forall>q. (\<forall>m\<in>set msgs. msgUID m \<in> set doomed \<longrightarrow> q \<noteq> path_join (mailboxDir userDir uid name) (msgFile m)) \<longrightarrow>
            file_at fs' q = file_at fs1 q)"
        using "2.IH"(2,3) [OF _ rf [symmetric]] True rm no by (cases r1; cases "projl r1"; fastforce)
      with frame True show ?thesis by auto
    qed
  qed
qed simp

lemma Remove_cases:
  assumes ok: "index_ok (cur_index userDir now fs uid name)" and rem: "Remove userDir now uid name uids fs = (r, fs')"
  defines "ix \<equiv> cur_index userDir now fs uid name"
  shows "(\<forall>q. q \<noteq> indexPath userDir uid name \<and> (\<forall>u\<in>set uids. q \<noteq> mailboxDir userDir uid name @ [eml_file u]) \<longrightarrow>
      file_at fs' q = file_at fs q)
    \<and> (case r of
         Inr _ \<Rightarrow> file_at fs' (indexPath userDir uid name) =
           Some (Json (marshal_index (ix\<lparr>Messages := filter (\<lambda>m. msgUID m \<notin> set uids) (Messages ix)\<rparr>)))
       | Inl _ \<Rightarrow> file_at fs' (indexPath userDir uid name) \<in> {file_at fs (indexPath userDir uid name), Some (Bytes [])})"
proof -
  obtain x fs1 where rd: "readIndex userDir now uid name fs = (x, fs1)" by fastforce
  have f1: "file_at fs1 = file_at fs" using readIndex_files [of userDir now uid name fs] rd by simp
  show ?thesis
  proof (cases x)
    case (Inl e)
    then show ?thesis using rem rd f1 by (auto simp: Remove_def)
  next
    case (Inr i)
    then have i: "i = ix" using readIndex_Inr [OF rd [unfolded Inr]] by (simp add: ix_def)
    obtain y fs2 where rm: "remove_messages userDir uid name uids (Messages ix) fs1 = (y, fs2)" by fastforce
    have "msgFile m = eml_file (msgUID m)" if "m \<in> set (Messages ix)" for m using that ok by (simp add: index_ok_def ix_def)
    then have f2: "file_at fs2 q = file_at fs q" if "\<forall>u\<in>set uids. q \<noteq> mailboxDir userDir uid name @ [eml_file u]" for q
      using remove_messages_effect [OF rm] that f1 by (auto simp: plain_name_join)
    then have i2: "file_at fs2 (indexPath userDir uid name) = file_at fs (indexPath userDir uid name)" by simp
    show ?thesis
    proof (cases y)
      case (Inl e)
      then show ?thesis using rem rd Inr i rm f2 i2 by (auto simp: Remove_def)
    next
      case yk: (Inr kept)
      then have "kept = filter (\<lambda>m. msgUID m \<notin> set uids) (Messages ix)" using remove_messages_effect [OF rm] by simp
      then have wr: "writeIndex userDir uid name (ix\<lparr>Messages := filter (\<lambda>m. msgUID m \<notin> set uids) (Messages ix)\<rparr>) fs2 = (r, fs')"
        using rem rd Inr i rm yk by (simp add: Remove_def)
      show ?thesis
      proof (cases r)
        case (Inl e)
        with writeIndex_Inl [OF wr [unfolded Inl]] f2 i2 show ?thesis by auto
      next
        case (Inr u)
        with writeIndex_Inr [OF wr [unfolded Inr]] f2 show ?thesis by simp
      qed
    qed
  qed
qed

lemma Remove_effect:
  assumes ok: "box_ok userDir fs uid name" and rem: "Remove userDir now uid name uids fs = (r, fs')"
  shows "(case r of
       Inr _ \<Rightarrow> box_ok userDir fs' uid name
         \<and> box_mails userDir fs' uid name = filter (\<lambda>m. fst m \<notin> set uids) (box_mails userDir fs uid name)
     | Inl e \<Rightarrow> box_index userDir fs' uid name = box_index userDir fs uid name \<or> box_index userDir fs' uid name = None)
    \<and> (\<forall>u. u \<notin> set uids \<longrightarrow> body_of userDir fs' uid name u = body_of userDir fs uid name u)"
proof -
  let ?ix = "cur_index userDir now fs uid name"
  let ?new = "?ix\<lparr>Messages := filter (\<lambda>m. msgUID m \<notin> set uids) (Messages ?ix)\<rparr>"
  note ix = cur_index_ok(1) [OF ok, of now]
  note cases = Remove_cases [OF ix rem]
  have b: "body_of userDir fs' uid name u = body_of userDir fs uid name u" if "u \<notin> set uids" for u
  proof (rule body_of_cong)
    have "\<forall>v\<in>set uids. mailboxDir userDir uid name @ [eml_file u] \<noteq> mailboxDir userDir uid name @ [eml_file v]"
      using that by (auto simp: eml_file_inj)
    then show "file_at fs' (mailboxDir userDir uid name @ [eml_file u]) = file_at fs (mailboxDir userDir uid name @ [eml_file u])"
      using cases mail_paths_apart(1) by blast
  qed
  show ?thesis
  proof (cases r)
    case (Inl e)
    with cases b show ?thesis by (auto simp: box_index_def decode_index_def)
  next
    case (Inr u)
    have new: "index_ok ?new" using ix by (rule index_ok_filter)
    then have bi: "box_index userDir fs' uid name = Some ?new"
      using cases Inr norm_ok_messages [OF new]
      by (simp add: box_index_def decode_index_def unmarshal_marshal_index norm_index_def)
    have "box_ok userDir fs' uid name" using new cur_index_ok(3) [OF ok, of _ now] b by (auto simp: box_ok_def bi)
    moreover have "box_mails userDir fs' uid name = filter (\<lambda>m. fst m \<notin> set uids) (box_mails userDir fs uid name)"
      using b by (simp add: box_mails_def [of userDir fs'] bi cur_index_ok(2) [OF ok, of now] filter_map comp_def)
    ultimately show ?thesis using Inr b by simp
  qed
qed

lemma SetFlags_total:
  assumes "box_ready userDir fs uid name" "box_index userDir fs uid name \<noteq> None \<or> CanonicalMailbox name = Inbox"
  shows "\<exists>fs'. SetFlags userDir now uid name uids flags op fs = (Inr (), fs') \<and> box_ready userDir fs' uid name"
  using assms(2) ready_writeIndex [OF assms(1)] by (auto simp: SetFlags_def ready_read [OF assms(1)])

lemma has_children_file: "wf_fs fs \<Longrightarrow> fs_lookup fs p = Some (File c) \<Longrightarrow> \<not> has_children fs p"
  using wf_fs_no_children [of fs p] by (auto simp: has_children_lookup strict_prefix_def prefix_def)

lemma remove_messages_total:
  assumes "box_ready userDir fs uid name" "wf_fs fs" "\<forall>m\<in>set ms. msgFile m = eml_file (msgUID m)"
  shows "\<exists>fs'. remove_messages userDir uid name doomed ms fs = (Inr (filter (\<lambda>m. msgUID m \<notin> set doomed) ms), fs')
    \<and> box_ready userDir fs' uid name \<and> wf_fs fs'"
  using assms
proof (induction ms arbitrary: fs)
  case (Cons m ms)
  let ?p = "mailboxDir userDir uid name @ [eml_file (msgUID m)]"
  have rf: "Remove_file ?p fs = (if fs_lookup fs ?p = None then Inl (missing fs ?p) else Inr (),
      if fs_lookup fs ?p = None then fs else fs_delete (\<lambda>q. q = ?p) fs)"
    using Cons.prems(1,2) has_children_file [OF Cons.prems(2), of ?p]
    by (auto simp: Remove_file_def box_ready_def split: option.splits) (metis node.exhaust)
  have "missing fs ?p = NotExist" if "fs_lookup fs ?p = None"
    using Cons.prems(1) that unfolding box_ready_def missing_def no_file_above
    by (metis no_file_above option.distinct(1) prefix_snoc)
  moreover have "box_ready userDir (fs_delete (\<lambda>q. q = ?p) fs) uid name"
    using Cons.prems(1) unfolding box_ready_def no_file_above by auto
  moreover have "wf_fs (fs_delete (\<lambda>q. q = ?p) fs)" if "fs_lookup fs ?p \<noteq> None"
    using Cons.prems(1,2) wf_fs_delete_file [of fs ?p] that by (auto simp: box_ready_def)
  ultimately show ?case
    using Cons.IH [of "if fs_lookup fs ?p = None then fs else fs_delete (\<lambda>q. q = ?p) fs"] Cons.prems Cons.IH [of fs]
    by (auto simp: plain_name_join rf)
qed simp

end
