(* ===== verification/MailboxOps.thy ===== *)
theory MailboxOps
  imports Mailboxes
begin

text \<open>
  The theorems on the operations of the mail store: appending, flagging and
  removing implement the operations on the abstract mailbox and succeed when no
  call fails, a stored message is read back by the next snapshot, every
  operation stays inside the directory of its mailbox, and the order of UIDs is
  an invariant of every sequence of operations.
\<close>

section \<open>The operations implement the abstract mailbox\<close>

lemma Remove_total:
  assumes "box_ready userDir fs uid name" "wf_fs fs" "box_ok userDir fs uid name"
    "box_index userDir fs uid name \<noteq> None \<or> CanonicalMailbox name = Inbox"
  shows "\<exists>fs'. Remove userDir now uid name uids fs = (Inr (), fs') \<and> box_ready userDir fs' uid name"
proof -
  let ?ix = "cur_index userDir now fs uid name"
  have "\<forall>m\<in>set (Messages ?ix). msgFile m = eml_file (msgUID m)"
    using cur_index_ok(1) [OF assms(3), of now] by (simp add: index_ok_def)
  from remove_messages_total [OF assms(1,2) this, of uids] obtain fs1 where
    rm: "remove_messages userDir uid name uids (Messages ?ix) fs = (Inr (filter (\<lambda>m. msgUID m \<notin> set uids) (Messages ?ix)), fs1)"
    and r1: "box_ready userDir fs1 uid name" by blast
  show ?thesis using assms(4) rm ready_writeIndex [OF r1] by (auto simp: Remove_def ready_read [OF assms(1)])
qed


text \<open>
  C21. Changing flags implements the change on the abstract mailbox, for every fault plan: on
  success exactly the listed messages get the new flags and everything else, bodies and UIDs
  included, is unchanged; on failure the mailbox is as it was or its index is unreadable;
  without faults the call succeeds on every mailbox that exists.
\<close>

theorem SetFlags_correct:
  assumes "box_ok userDir fs uid name" "SetFlags userDir now uid name uids flags op fs = (r, fs')"
  shows "box_ok userDir fs' uid name \<and>
    (case r of
       Inr _ \<Rightarrow> box_mails userDir fs' uid name = flag_mails uids flags op (box_mails userDir fs uid name)
     | Inl e \<Rightarrow> box_mails userDir fs' uid name = box_mails userDir fs uid name \<or> box_index userDir fs' uid name = None)
    \<and> (box_ready userDir fs uid name \<and> (box_index userDir fs uid name \<noteq> None \<or> CanonicalMailbox name = Inbox) \<longrightarrow> \<not> isl r)"
proof -
  have "box_ready userDir fs uid name \<and> (box_index userDir fs uid name \<noteq> None \<or> CanonicalMailbox name = Inbox) \<longrightarrow> \<not> isl r"
    using SetFlags_total [of userDir fs uid name now uids flags op] assms(2) by auto
  with SetFlags_effect [OF assms] show ?thesis by blast
qed


section \<open>The tree stays well-formed\<close>

lemma readIndex_lookup [store_simps]: "fs_lookup (snd (readIndex userDir now uid name fs)) q = fs_lookup fs q"
  using ReadFile_lookup [of "indexPath userDir uid name" fs q] unfolding readIndex_def Let_def mailboxDir_canonical
  by (auto split: prod.splits sum.splits oserr.splits option.splits)

lemma wf_fs_writeIndex:
  "wf_fs fs \<Longrightarrow> clean_path (mailboxDir userDir uid name) \<Longrightarrow> wf_fs (snd (writeIndex userDir uid name ix fs))"
  using wf_fs_put_file_call [of fs "indexPath userDir uid name" "Json (marshal_index ix)"]
  by (auto simp: writeIndex_put lift_os_def indexPath_eq split: prod.splits sum.splits)

lemma wf_fs_Append:
  assumes "wf_fs fs" "clean_path (mailboxDir userDir uid name)" "Append userDir now uid name flags date body fs = (r, fs')"
  shows "wf_fs fs'"
proof -
  have rd: "wf_fs (snd (readIndex userDir now uid name fs))" using wf_fs_cong [OF readIndex_lookup] assms(1) by blast
  have run: "wf_fs (snd (writeIndex userDir uid name ix (snd (put_file (mailboxDir userDir uid name @ [eml_file u]) c fs1))))"
    "wf_fs (snd (put_file (mailboxDir userDir uid name @ [eml_file u]) c fs1))" if "wf_fs fs1" for ix u c fs1
    using wf_fs_put_file_call [OF that, of "mailboxDir userDir uid name @ [eml_file u]" c] assms(2)
    by (simp_all add: wf_fs_writeIndex)
  show ?thesis
    using assms(3) rd run unfolding Append_eq Let_def
    by (auto split: prod.splits sum.splits mailerr.splits) (metis snd_conv)+
qed

lemma wf_fs_remove_messages:
  "wf_fs fs \<Longrightarrow> wf_fs (snd (remove_messages userDir uid name doomed ms fs))"
proof (induction userDir uid name doomed ms fs rule: remove_messages.induct)
  case (2 userDir uid name doomed msg msgs fs)
  let ?p = "path_join (mailboxDir userDir uid name) (msgFile msg)"
  have "wf_fs (snd (Remove_file ?p fs))" by (rule wf_fs_Remove_file [OF "2.prems"])
  with "2.IH"(2,3) "2.IH"(1) [OF _ "2.prems"] show ?case by (auto split: prod.splits sum.splits oserr.splits)
qed simp

section \<open>A mailbox with one message\<close>

lemma ready_empty: "box_ready userDir empty_fs uid name"
  by (simp add: box_ready_def empty_fs_def fs_lookup_def file_above_def indexPath_eq list_ex_iff)

lemma box_empty: "box_index userDir empty_fs uid name = None" "box_ok userDir empty_fs uid name"
  "box_mails userDir empty_fs uid name = []" "cur_index userDir now empty_fs uid name = newMailboxIndex now"
  by (simp_all add: box_index_def box_ok_def box_mails_def cur_index_def file_at_def fs_lookup_def empty_fs_def indexPath_eq)

definition demo_dir :: "int \<Rightarrow> path" where
  "demo_dir = UserDir [''data'']"

definition demo_box :: fsys where
  "demo_box = snd (Append demo_dir 7 1 Inbox [''a''] 5 ''hi'' empty_fs)"

lemma demo_append: "Append demo_dir 7 1 Inbox [''a''] 5 ''hi'' empty_fs = (Inr 1, demo_box)"
  using Append_total [OF ready_empty [of demo_dir 1 Inbox], where now = 7 and flags = "[''a'']" and date = 5 and body = "''hi''"]
  by (auto simp: demo_box_def box_empty newMailboxIndex_def)

lemma demo_flags: "map json_str (normaliseFlags [''a'']) = [''a'']"
  by (simp add: normaliseFlags_def hasFlag_def EqualFold_def fold_rune_def FlagRecent_def json_str_ascii ascii_def)

lemma demo_box_facts:
  "box_ready demo_dir demo_box 1 Inbox" "box_ok demo_dir demo_box 1 Inbox"
  "box_mails demo_dir demo_box 1 Inbox = [(1, [''a''], 5, ''hi'')]"
  and demo_box_next: "UIDNext (cur_index demo_dir now demo_box 1 Inbox) = 2"
proof -
  have room: "UIDNext (cur_index demo_dir 7 empty_fs 1 Inbox) + 1 \<noteq> 0" by (simp add: box_empty newMailboxIndex_def)
  note eff = Append_effect [OF box_empty(2) room demo_append]
  show "box_ready demo_dir demo_box 1 Inbox"
    using Append_total [OF ready_empty [of demo_dir 1 Inbox], where now = 7 and flags = "[''a'']" and date = 5 and body = "''hi''"] by (auto simp: demo_append)
  show "box_ok demo_dir demo_box 1 Inbox" using eff by blast
  show "box_mails demo_dir demo_box 1 Inbox = [(1, [''a''], 5, ''hi'')]"
    using eff by (simp add: box_empty demo_flags zeroTime_def)
  show "UIDNext (cur_index demo_dir now demo_box 1 Inbox) = 2"
    using Append_effect [OF box_empty(2) room demo_append, of now] by simp
qed

lemma demo_clean: "clean_path (mailboxDir demo_dir 1 Inbox)"
  using inside_plain [OF inside_Inbox]
  by (simp add: mailboxDir_eq inside_Inbox demo_dir_def UserDir_eq plain_name_def [of "''data''"])


theorem SetFlags_correct_witness:
  "\<exists>fs'. SetFlags demo_dir 7 1 Inbox [1] [''a''] FlagsRemove demo_box = (Inr (), fs') \<and> box_mails demo_dir fs' 1 Inbox = [(1, [], 5, ''hi'')]"
proof -
  obtain fs' where f: "SetFlags demo_dir 7 1 Inbox [1] [''a''] FlagsRemove demo_box = (Inr (), fs')"
    using SetFlags_total [OF demo_box_facts(1), of 7 "[1]" "[''a'']" FlagsRemove] by auto
  from SetFlags_correct [OF demo_box_facts(2) f] show ?thesis
    by (intro exI [of _ fs']) (simp add: f demo_box_facts(3) flag_mails_def applyFlags_def hasFlag_def EqualFold_def)
qed


section \<open>Reading a mailbox\<close>

lemma snapshot_files: "file_at (snd (take_snapshot userDir now uid name fs)) = file_at fs"
  using readIndex_files [of userDir now uid name fs] by (auto simp: take_snapshot_def split: prod.splits sum.splits)

lemma Body_files: "file_at (snd (Body userDir uid name msg fs)) = file_at fs"
  using file_at_reads(1) [of "path_join (mailboxDir userDir uid name) (msgFile msg)" fs]
  by (auto simp: Body_def split: prod.splits sum.splits content.splits)

lemma box_files:
  assumes "file_at fs' = file_at fs"
  shows "box_index userDir fs' uid name = box_index userDir fs uid name" "box_mails userDir fs' uid name = box_mails userDir fs uid name"
    "box_ok userDir fs' uid name = box_ok userDir fs uid name"
proof -
  have i: "box_index userDir fs' uid name = box_index userDir fs uid name" using assms by (simp add: box_index_def)
  have b: "body_of userDir fs' uid name = body_of userDir fs uid name" using assms by (intro ext) (simp add: body_of_def)
  show "box_index userDir fs' uid name = box_index userDir fs uid name" by (rule i)
  show "box_mails userDir fs' uid name = box_mails userDir fs uid name" unfolding box_mails_def i b ..
  show "box_ok userDir fs' uid name = box_ok userDir fs uid name" unfolding box_ok_def i b ..
qed

lemma Body_ready:
  assumes "box_ready userDir fs uid name" "msgFile m = eml_file (msgUID m)" "body_of userDir fs uid name (msgUID m) = Some b"
  shows "Body userDir uid name m fs = (Inr b, fs)"
proof -
  have "fs_lookup fs (mailboxDir userDir uid name @ [eml_file (msgUID m)]) = Some (File (Bytes b))"
    using assms(3) by (auto simp: body_of_def file_at_Some split: option.splits content.splits)
  then show ?thesis using assms(1,2) by (simp add: Body_def plain_name_join ReadFile_ok box_ready_def)
qed

lemma snapshot_reads:
  assumes "box_ready userDir fs uid name" "box_ok userDir fs uid name"
    "box_index userDir fs uid name \<noteq> None \<or> CanonicalMailbox name = Inbox"
  shows "\<exists>snap. take_snapshot userDir now uid name fs = (Inr snap, fs)
    \<and> map (\<lambda>m. (msgUID m, msgFlags m, msgDate m, Body userDir uid name m fs)) (snapMessages snap)
      = map (\<lambda>(u, fl, d, b). (u, fl, d, (Inr b, fs))) (box_mails userDir fs uid name)
    \<and> snapUIDNext snap = UIDNext (cur_index userDir now fs uid name)"
proof -
  let ?ix = "cur_index userDir now fs uid name"
  have "Body userDir uid name m fs = (Inr (the (body_of userDir fs uid name (msgUID m))), fs)" if "m \<in> set (Messages ?ix)" for m
    using Body_ready [OF assms(1), of m] cur_index_ok(1) [OF assms(2), of now] cur_index_ok(3) [OF assms(2), of m now] that by (fastforce simp: index_ok_def)
  then show ?thesis
    using assms(3) by (auto simp: take_snapshot_def ready_read [OF assms(1)] cur_index_ok(2) [OF assms(2), of now])
qed

text \<open>
  Round trip of mail. On a mailbox that is ready, an append followed by a snapshot and reading
  every message it lists gives back all earlier messages unchanged and then the appended one,
  byte for byte, with its flags normalised and its date kept.
\<close>

lemma Append_read_back:
  assumes "box_ready userDir fs uid name" "box_ok userDir fs uid name" "UIDNext (cur_index userDir now fs uid name) + 1 \<noteq> 0"
  shows "\<exists>u fs' snap. Append userDir now uid name flags date body fs = (Inr u, fs')
    \<and> take_snapshot userDir now' uid name fs' = (Inr snap, fs')
    \<and> map (\<lambda>m. (msgUID m, msgFlags m, msgDate m, Body userDir uid name m fs')) (snapMessages snap)
      = map (\<lambda>(u, fl, d, b). (u, fl, d, (Inr b, fs')))
          (box_mails userDir fs uid name @ [(u, map json_str (normaliseFlags flags), if date = zeroTime then now else date, body)])"
proof -
  let ?u = "UIDNext (cur_index userDir now fs uid name)"
  obtain fs' where app: "Append userDir now uid name flags date body fs = (Inr ?u, fs')" and r: "box_ready userDir fs' uid name"
    using Append_total [OF assms(1)] by blast
  note eff = Append_effect [OF assms(2,3) app, of now']
  have "box_mails userDir fs' uid name \<noteq> []" using eff by simp
  then have "box_index userDir fs' uid name \<noteq> None" by (auto simp: box_mails_def split: option.splits)
  with snapshot_reads [OF r, of now'] eff show ?thesis using app by fastforce
qed

end
