(* ===== verification/MailMachine.thy ===== *)
theory MailMachine
  imports MailboxOps
begin

text \<open>
  Sequences of operations on the mail store. Every operation that holds the
  store's mutex is one step, on any mailbox of any account and under any faults;
  \<^verbatim>\<open>Copy\<close> is a sequence of such steps. Operations stay inside the directory of
  their mailbox, so the theorems give the separation of accounts and mailboxes
  and an invariant of all mailboxes at once. Names that leave the mail directory
  (\<^verbatim>\<open>.\<close> and \<^verbatim>\<open>..\<close> pass the name encoding) are excluded from the steps; what they
  do is stated separately.
\<close>

section \<open>Operations and where they act\<close>

datatype mail_op =
  OpAppend "string list" time string
| OpSetFlags "u32 list" "string list" FlagOp
| OpRemove "u32 list"
| OpSubscribe bool
| OpCreate
| OpDelete
| OpRename string

definition run_op :: "(int \<Rightarrow> path) \<Rightarrow> time \<Rightarrow> int \<Rightarrow> string \<Rightarrow> mail_op \<Rightarrow> fsys \<Rightarrow> fsys" where
  "run_op userDir now uid name op fs =
    (case op of
       OpAppend flags date body \<Rightarrow> snd (Append userDir now uid name flags date body fs)
     | OpSetFlags uids flags fop \<Rightarrow> snd (SetFlags userDir now uid name uids flags fop fs)
     | OpRemove uids \<Rightarrow> snd (Remove userDir now uid name uids fs)
     | OpSubscribe b \<Rightarrow> snd (SetSubscribed userDir now uid name b fs)
     | OpCreate \<Rightarrow> snd (CreateMailbox userDir now uid name fs)
     | OpDelete \<Rightarrow> snd (DeleteMailbox userDir uid name fs)
     | OpRename to \<Rightarrow> snd (RenameMailbox userDir uid name to fs))"

text \<open>The mailboxes an operation works on.\<close>

definition op_names :: "string \<Rightarrow> mail_op \<Rightarrow> string list" where
  "op_names name op = (case op of OpRename to \<Rightarrow> [name, to] | _ \<Rightarrow> [name])"

lemma writeIndex_files:
  assumes "writeIndex userDir uid name ix fs = (r, fs')" "p \<noteq> indexPath userDir uid name"
  shows "file_at fs' p = file_at fs p"
  using assms(2) writeIndex_Inr [of userDir uid name ix fs _ fs'] writeIndex_Inl [of userDir uid name ix fs _ fs'] assms(1)
  by (cases r) auto

lemma SetSubscribed_cases:
  assumes "SetSubscribed userDir now uid name b fs = (r, fs')"
  shows "file_at fs' = file_at fs
    \<or> file_at fs' = (file_at fs)(indexPath userDir uid name \<mapsto> Bytes [])
    \<or> file_at fs' = (file_at fs)(indexPath userDir uid name \<mapsto>
        Json (marshal_index (cur_index userDir now fs uid name\<lparr>Subscribed := b\<rparr>)))"
proof -
  obtain x fs1 where rd: "readIndex userDir now uid name fs = (x, fs1)" by fastforce
  have f1: "file_at fs1 = file_at fs" using readIndex_files [of userDir now uid name fs] rd by simp
  show ?thesis
  proof (cases x)
    case (Inl e)
    then show ?thesis using assms rd f1 by (simp add: SetSubscribed_def)
  next
    case (Inr ix)
    note ix = readIndex_Inr [OF rd [unfolded Inr]]
    have "writeIndex userDir uid name (ix\<lparr>Subscribed := b\<rparr>) fs1 = (r, fs')" using assms rd Inr by (simp add: SetSubscribed_def)
    then show ?thesis
      using writeIndex_Inr [of userDir uid name _ fs1 _ fs'] writeIndex_Inl [of userDir uid name _ fs1 _ fs'] f1 ix by (cases r) auto
  qed
qed

lemma CreateMailbox_cases:
  assumes "CreateMailbox userDir now uid name fs = (r, fs')"
  shows "file_at fs' = file_at fs
    \<or> file_at fs' = (file_at fs)(indexPath userDir uid name \<mapsto> Bytes [])
    \<or> file_at fs' = (file_at fs)(indexPath userDir uid name \<mapsto> Json (marshal_index (newMailboxIndex now)))"
proof -
  obtain x fs1 where st: "Stat (indexPath userDir uid name) fs = (x, fs1)" by fastforce
  have f1: "file_at fs1 = file_at fs" using file_at_reads(3) [of "indexPath userDir uid name" fs] st by simp
  have w: "writeIndex userDir uid (CanonicalMailbox name) ix fs1 = writeIndex userDir uid name ix fs1" for ix
    by (simp add: writeIndex_def)
  have "fs' = fs \<or> fs' = fs1 \<or> writeIndex userDir uid name (newMailboxIndex now) fs1 = (r, fs')"
    using assms st unfolding CreateMailbox_def Let_def mailboxDir_canonical by (auto simp: w split: if_splits sum.splits)
  then show ?thesis
    using writeIndex_Inr [of userDir uid name _ fs1 _ fs'] writeIndex_Inl [of userDir uid name _ fs1 _ fs'] f1 by (cases r) auto
qed

lemma DeleteMailbox_cases:
  assumes "DeleteMailbox userDir uid name fs = (r, fs')"
  shows "(\<forall>q. fs_lookup fs' q = fs_lookup fs q)
    \<or> (\<forall>q. fs_lookup fs' q = (if q \<noteq> [] \<and> prefix (mailboxDir userDir uid name) q then None else fs_lookup fs q))"
proof -
  obtain x fs1 where st: "Stat (indexPath userDir uid name) fs = (x, fs1)" by fastforce
  have f1: "fs_lookup fs1 q = fs_lookup fs q" for q using Stat_lookup [of "indexPath userDir uid name" fs q] st by simp
  obtain y fs2 where ra: "RemoveAll (mailboxDir userDir uid name) fs1 = (y, fs2)" by fastforce
  have "fs' = fs \<or> fs' = fs1 \<or> fs' = fs2"
    using assms st ra unfolding DeleteMailbox_def Let_def mailboxDir_canonical
    by (auto simp: lift_os_def split: if_splits sum.splits)
  then show ?thesis using RemoveAll_Inr [of _ fs1 _ fs2] RemoveAll_Inl [of _ fs1 _ fs2] ra f1 by (cases y) auto
qed

lemma RenameMailbox_cases:
  assumes "RenameMailbox userDir uid name to fs = (r, fs')"
  defines "p \<equiv> mailboxDir userDir uid name" and "q \<equiv> mailboxDir userDir uid to"
  shows "file_at fs' = file_at fs
    \<or> p \<noteq> q \<and> (\<forall>s. file_at fs' s =
        (if prefix q s then file_at fs (p @ drop (length q) s) else if prefix p s then None else file_at fs s))"
proof -
  obtain x fs1 where s1: "Stat (indexPath userDir uid name) fs = (x, fs1)" by fastforce
  obtain y fs2 where s2: "Stat (indexPath userDir uid to) fs1 = (y, fs2)" by fastforce
  obtain z fs3 where mk: "MkdirAll (butlast q) fs2 = (z, fs3)" by fastforce
  obtain v fs4 where rn: "Rename p q fs3 = (v, fs4)" by fastforce
  have f2: "file_at fs1 = file_at fs" "file_at fs2 = file_at fs"
    using file_at_reads(3) [of "indexPath userDir uid name" fs] file_at_reads(3) [of "indexPath userDir uid to" fs1] s1 s2 by simp_all
  have f3: "file_at fs3 = file_at fs" using file_at_MkdirAll [OF mk] f2 by simp
  have "fs' \<in> {fs, fs1, fs2, fs3, fs4}"
    using assms(1) s1 s2 mk rn unfolding RenameMailbox_def Let_def mailboxDir_canonical p_def q_def
    by (auto simp: lift_os_def split: if_splits sum.splits)
  moreover have "file_at fs4 = file_at fs
    \<or> p \<noteq> q \<and> (\<forall>s. file_at fs4 s =
        (if prefix q s then file_at fs (p @ drop (length q) s) else if prefix p s then None else file_at fs s))"
  proof (cases "p = q \<or> isl v")
    case True
    then have "fs_lookup fs4 s = fs_lookup fs3 s" for s
      using rn Rename_same [of p fs3 v fs4 s] Rename_Inl [of p q fs3 _ fs4 s] by (cases v) auto
    then show ?thesis using file_at_cong [of fs4 fs3] f3 by simp
  next
    case False
    then obtain w where v: "v = Inr w" by (cases v) auto
    have "file_at fs4 s = (if prefix q s then file_at fs3 (p @ drop (length q) s) else if prefix p s then None else file_at fs3 s)" for s
      using Rename_Inr(8) [OF rn [unfolded v], of s] False by (simp add: file_at_def)
    then show ?thesis using False f3 by simp
  qed
  ultimately show ?thesis using f2 f3 by auto
qed

text \<open>An operation touches only files in the directories of its mailboxes.\<close>

lemma prefix_own [simp]: "prefix (mailboxDir userDir uid name) (indexPath userDir uid name)"
  by (simp add: indexPath_eq)

lemma run_op_files:
  assumes "\<forall>n\<in>set (op_names name op). \<not> prefix (mailboxDir userDir uid n) p" "index_ok (cur_index userDir now fs uid name)"
  shows "file_at (run_op userDir now uid name op fs) p = file_at fs p"
proof -
  let ?d = "mailboxDir userDir uid name"
  have d: "\<not> prefix ?d p" using assms(1) by (cases op) (auto simp: op_names_def)
  then have ne: "p \<noteq> indexPath userDir uid name" "p \<noteq> ?d @ [eml_file u]" for u by (auto simp: indexPath_eq)
  show ?thesis
  proof (cases op)
    case (OpAppend flags date body)
    obtain r fs' where h: "Append userDir now uid name flags date body fs = (r, fs')" by fastforce
    from h show ?thesis using ne by (cases rule: Append_cases) (simp_all add: run_op_def OpAppend h)
  next
    case (OpSetFlags uids flags fop)
    obtain r fs' where h: "SetFlags userDir now uid name uids flags fop fs = (r, fs')" by fastforce
    from SetFlags_cases [OF h] show ?thesis using ne by (auto simp: run_op_def OpSetFlags h)
  next
    case (OpRemove uids)
    obtain r fs' where h: "Remove userDir now uid name uids fs = (r, fs')" by fastforce
    from Remove_cases [OF assms(2) h] show ?thesis using ne by (auto simp: run_op_def OpRemove h)
  next
    case (OpSubscribe b)
    obtain r fs' where h: "SetSubscribed userDir now uid name b fs = (r, fs')" by fastforce
    from SetSubscribed_cases [OF h] show ?thesis using ne by (auto simp: run_op_def OpSubscribe h)
  next
    case OpCreate
    obtain r fs' where h: "CreateMailbox userDir now uid name fs = (r, fs')" by fastforce
    from CreateMailbox_cases [OF h] show ?thesis using ne by (auto simp: run_op_def OpCreate h)
  next
    case OpDelete
    obtain r fs' where h: "DeleteMailbox userDir uid name fs = (r, fs')" by fastforce
    from DeleteMailbox_cases [OF h] show ?thesis using d by (auto simp: run_op_def OpDelete h file_at_def)
  next
    case (OpRename to)
    obtain r fs' where h: "RenameMailbox userDir uid name to fs = (r, fs')" by fastforce
    have "\<not> prefix (mailboxDir userDir uid to) p" using assms(1) OpRename by (simp add: op_names_def)
    with RenameMailbox_cases [OF h] d show ?thesis by (auto simp: run_op_def OpRename h)
  qed
qed

section \<open>The indexes stay sound\<close>

definition box_sound :: "(int \<Rightarrow> path) \<Rightarrow> nat \<Rightarrow> fsys \<Rightarrow> int \<Rightarrow> string \<Rightarrow> bool" where
  "box_sound userDir n fs uid name \<longleftrightarrow>
    (case box_index userDir fs uid name of None \<Rightarrow> True | Some ix \<Rightarrow> index_ok ix \<and> unat (UIDNext ix) \<le> Suc n)"

lemma sound_cur:
  assumes "box_sound userDir n fs uid name"
  shows "index_ok (cur_index userDir now fs uid name)" "unat (UIDNext (cur_index userDir now fs uid name)) \<le> Suc n"
  using assms fill_index_ok [of _ now] index_ok_new [of now]
  by (auto simp: box_sound_def cur_index_def newMailboxIndex_def index_ok_def split: option.splits)

lemma sound_dir:
  "mailboxDir userDir uid name = mailboxDir userDir uid' name' \<Longrightarrow>
   box_sound userDir n fs uid name = box_sound userDir n fs uid' name'"
  by (simp add: box_sound_def box_index_def indexPath_eq)

lemma sound_same:
  "box_sound userDir n fs uid name \<Longrightarrow> file_at fs' (indexPath userDir uid name) = file_at fs (indexPath userDir uid name) \<Longrightarrow>
   box_sound userDir (Suc n) fs' uid name"
  by (auto simp: box_sound_def box_index_def split: option.splits)

lemma sound_lost:
  "file_at fs' (indexPath userDir uid name) \<in> {None, Some (Bytes b)} \<Longrightarrow> box_sound userDir n fs' uid name"
  by (auto simp: box_sound_def box_index_def decode_index_def split: option.splits)

lemma sound_written:
  assumes "file_at fs' (indexPath userDir uid name) = Some (Json (marshal_index ix))" "index_ok (norm_index ix)" "unat (UIDNext ix) \<le> Suc n"
  shows "box_sound userDir n fs' uid name"
  using assms by (simp add: box_sound_def box_index_def decode_index_def unmarshal_marshal_index) (simp add: norm_index_def)

lemma norm_index_ok: "index_ok ix \<Longrightarrow> norm_index ix = ix"
  using norm_ok_messages [of ix] by (simp add: norm_index_def)

lemma sound_own:
  assumes s: "box_sound userDir n fs uid name" and n: "Suc (Suc n) < 2 ^ 32" and op: "op_names name op = [name]"
  shows "box_sound userDir (Suc n) (run_op userDir now uid name op fs) uid name"
proof -
  let ?ix = "cur_index userDir now fs uid name" and ?I = "indexPath userDir uid name"
  note ix = sound_cur [OF s, of now]
  note same = sound_same [OF s] and lost = sound_lost [of _ userDir uid name]
  show ?thesis
  proof (cases op)
    case (OpAppend flags date body)
    have inc: "unat (UIDNext ?ix + 1) = Suc (unat (UIDNext ?ix))"
      using n ix(2) by (simp add: unat_word_ariths)
    then have room: "UIDNext ?ix + 1 \<noteq> 0" by auto
    obtain r fs' where h: "Append userDir now uid name flags date body fs = (r, fs')" by fastforce
    from h show ?thesis
    proof (cases rule: Append_cases)
      case stored
      have "box_sound userDir (Suc n) fs' uid name"
        by (rule sound_written [OF _ index_ok_appended(1) [OF ix(1) room]]) (use stored inc ix(2) in \<open>simp_all add: appended_def\<close>)
      then show ?thesis by (simp add: run_op_def OpAppend h)
    qed (simp_all add: run_op_def OpAppend h same lost)
  next
    case (OpSetFlags uids flags fop)
    obtain r fs' where h: "SetFlags userDir now uid name uids flags fop fs = (r, fs')" by fastforce
    note w = sound_written [OF _ index_ok_flagged(1) [OF ix(1)], of fs' userDir uid name uids flags fop "Suc n"]
    show ?thesis using SetFlags_cases [OF h] w ix(2) by (auto simp: run_op_def OpSetFlags h flagged_def intro: same lost)
  next
    case (OpRemove uids)
    obtain r fs' where h: "Remove userDir now uid name uids fs = (r, fs')" by fastforce
    have i: "index_ok (norm_index (?ix\<lparr>Messages := filter (\<lambda>m. msgUID m \<notin> set uids) (Messages ?ix)\<rparr>))"
      using index_ok_filter [OF ix(1)] norm_index_ok by simp
    show ?thesis
      using Remove_cases [OF ix(1) h] sound_written [OF _ i, of fs' userDir uid name "Suc n"] ix(2)
      by (auto simp: run_op_def OpRemove h intro: same lost split: sum.splits)
  next
    case (OpSubscribe b)
    obtain r fs' where h: "SetSubscribed userDir now uid name b fs = (r, fs')" by fastforce
    have "index_ok (?ix\<lparr>Subscribed := b\<rparr>)" using ix(1) by (simp add: index_ok_def)
    then have i: "index_ok (norm_index (?ix\<lparr>Subscribed := b\<rparr>))" using norm_index_ok by simp
    show ?thesis
      using SetSubscribed_cases [OF h] sound_written [OF _ i, of fs' userDir uid name "Suc n"] ix(2)
      by (auto simp: run_op_def OpSubscribe h intro: same lost)
  next
    case OpCreate
    obtain r fs' where h: "CreateMailbox userDir now uid name fs = (r, fs')" by fastforce
    have i: "index_ok (norm_index (newMailboxIndex now))" using index_ok_new norm_index_ok by simp
    show ?thesis
      using CreateMailbox_cases [OF h] sound_written [OF _ i, of fs' userDir uid name "Suc n"]
      by (auto simp: run_op_def OpCreate h newMailboxIndex_def intro: same lost)
  next
    case OpDelete
    obtain r fs' where h: "DeleteMailbox userDir uid name fs = (r, fs')" by fastforce
    show ?thesis
      using DeleteMailbox_cases [OF h] by (auto simp: run_op_def OpDelete h file_at_def indexPath_eq intro: same lost)
  next
    case (OpRename to)
    with op show ?thesis by (simp add: op_names_def)
  qed
qed

section \<open>All mailboxes\<close>

definition mail_inv :: "(int \<Rightarrow> path) \<Rightarrow> nat \<Rightarrow> fsys \<Rightarrow> bool" where
  "mail_inv userDir n fs \<longleftrightarrow> (\<forall>uid name. inside name \<longrightarrow> box_sound userDir n fs uid name)"

inductive mail_step :: "(int \<Rightarrow> path) \<Rightarrow> fsys \<Rightarrow> fsys \<Rightarrow> bool" for userDir where
  MailFaults: "mail_step userDir fs (fs\<lparr>faults := fp\<rparr>)"
| MailOp: "\<forall>n\<in>set (op_names name op). inside n \<Longrightarrow> mail_step userDir fs (run_op userDir now uid name op fs)"

context user_dirs
begin

lemma boxes_apart:
  assumes "inside n" "inside n'" "mailboxDir userDir uid n \<noteq> mailboxDir userDir uid' n'"
  shows "\<not> prefix (mailboxDir userDir uid n) (mailboxDir userDir uid' n' @ rest)"
proof (cases "uid = uid'")
  case True
  then show ?thesis using assms by (auto simp: mailboxDir_eq)
next
  case False
  from dirs_apart [OF False] show ?thesis
    using assms(1,2) by (metis append_assoc append_prefixD mailboxDir_eq)
qed

lemma sound_other:
  assumes "box_sound userDir n fs uid' name'" "inside name'" "\<forall>m\<in>set (op_names name op). inside m"
    "\<forall>m\<in>set (op_names name op). mailboxDir userDir uid m \<noteq> mailboxDir userDir uid' name'"
    "index_ok (cur_index userDir now fs uid name)"
  shows "box_sound userDir (Suc n) (run_op userDir now uid name op fs) uid' name'"
proof (rule sound_same [OF assms(1)])
  have "\<forall>m\<in>set (op_names name op). \<not> prefix (mailboxDir userDir uid m) (indexPath userDir uid' name')"
    using boxes_apart [of _ name' uid uid' "[''index.json'']"] assms(2-4) by (simp add: indexPath_eq)
  then show "file_at (run_op userDir now uid name op fs) (indexPath userDir uid' name') = file_at fs (indexPath userDir uid' name')"
    by (rule run_op_files [OF _ assms(5)])
qed

lemma sound_rename:
  assumes inv: "mail_inv userDir n fs" and ins: "inside name" "inside to" and h: "RenameMailbox userDir uid name to fs = (r, fs')"
    and own: "mailboxDir userDir uid' name' \<in> {mailboxDir userDir uid name, mailboxDir userDir uid to}" "inside name'"
  shows "box_sound userDir (Suc n) fs' uid' name'"
  using RenameMailbox_cases [OF h]
proof
  assume "file_at fs' = file_at fs"
  then show ?thesis using sound_same [of userDir n fs uid' name' fs'] inv own(2) by (simp add: mail_inv_def)
next
  let ?p = "mailboxDir userDir uid name" and ?q = "mailboxDir userDir uid to"
  assume *: "?p \<noteq> ?q \<and> (\<forall>s. file_at fs' s =
      (if prefix ?q s then file_at fs (?p @ drop (length ?q) s) else if prefix ?p s then None else file_at fs s))"
  show ?thesis
  proof (cases "mailboxDir userDir uid' name' = ?q")
    case True
    then have "file_at fs' (indexPath userDir uid' name') = file_at fs (indexPath userDir uid name)"
      using * by (simp add: indexPath_eq)
    moreover have "box_sound userDir n fs uid name" using inv ins by (simp add: mail_inv_def)
    ultimately show ?thesis by (auto simp: box_sound_def box_index_def split: option.splits)
  next
    case False
    then have p: "mailboxDir userDir uid' name' = ?p" using own by simp
    have "?q \<noteq> ?p" using * by (metis (no_types))
    from boxes_apart [OF ins(2,1) this] have "\<not> prefix ?q (indexPath userDir uid' name')" by (simp only: indexPath_eq p not_False_eq_True)
    then have "file_at fs' (indexPath userDir uid' name') = None" using * p by (simp add: indexPath_eq)
    then show ?thesis by (intro sound_lost) simp
  qed
qed

lemma mail_inv_step:
  assumes inv: "mail_inv userDir n fs" and n: "n < 2 ^ 32 - 2" and st: "mail_step userDir fs fs'"
  shows "mail_inv userDir (Suc n) fs'"
  using st
proof cases
  case (MailFaults fp)
  have "file_at fs' = file_at fs" by (rule file_at_cong) (simp add: MailFaults)
  then show ?thesis using inv sound_same [of userDir n fs _ _ fs'] by (simp add: mail_inv_def)
next
  case (MailOp name op now uid)
  have name: "inside name" using MailOp(2) by (cases op) (auto simp: op_names_def)
  then have own: "box_sound userDir n fs uid name" using inv by (simp add: mail_inv_def)
  show ?thesis unfolding mail_inv_def
  proof (intro allI impI)
    fix uid' name' assume ins: "inside name'"
    then have s: "box_sound userDir n fs uid' name'" using inv by (simp add: mail_inv_def)
    show "box_sound userDir (Suc n) fs' uid' name'"
    proof (cases "\<exists>m\<in>set (op_names name op). mailboxDir userDir uid m = mailboxDir userDir uid' name'")
      case False
      then show ?thesis using sound_other [OF s ins MailOp(2) _ sound_cur(1) [OF own]] MailOp(1) by blast
    next
      case dir: True
      show ?thesis
      proof (cases "\<exists>to. op = OpRename to")
        case False
        then have nm: "op_names name op = [name]" by (cases op) (auto simp: op_names_def)
        show ?thesis using sound_own [OF own _ nm, of now] n dir MailOp(1) sound_dir [of userDir uid name uid' name'] by (simp add: nm)
      next
        case True
        then obtain to where to: "op = OpRename to" by blast
        obtain r fs1 where h: "RenameMailbox userDir uid name to fs = (r, fs1)" by fastforce
        have "mailboxDir userDir uid' name' \<in> {mailboxDir userDir uid name, mailboxDir userDir uid to}"
          using dir by (auto simp: to op_names_def)
        then show ?thesis
          using sound_rename [OF inv name _ h _ ins] MailOp(1,2) by (simp add: to op_names_def run_op_def h)
      qed
    qed
  qed
qed

end

definition mail_init :: "fsys \<Rightarrow> bool" where
  "mail_init fs \<longleftrightarrow> tree fs = []"

lemma mail_inv_init: "mail_init fs \<Longrightarrow> mail_inv userDir 0 fs"
  by (simp add: mail_init_def mail_inv_def box_sound_def box_index_def file_at_def fs_lookup_def indexPath_eq)

interpretation mail_machine: counted_invariant mail_init "mail_step (UserDir rootDir)" "mail_inv (UserDir rootDir)" "2 ^ 32 - 2" for rootDir
  by unfold_locales (rule mail_inv_init, assumption, rule user_accounts.mail_inv_step)

text \<open>
  Invariant of the mail store. From an empty store, after any sequence of fewer than two to
  the 32nd operations of any accounts on any mailboxes that stay inside the mail directory, under
  any faults, every readable index is well-formed: UIDs are positive, strictly increasing and
  below the next UID, every message names the file of its UID, and the next UID is at most one
  more than the number of operations.
\<close>

lemma mail_safe:
  assumes "reach mail_init (mail_step (UserDir rootDir)) n fs" "n \<le> 2 ^ 32 - 2" "inside name"
    "box_index (UserDir rootDir) fs uid name = Some ix"
  shows "sorted_wrt (<) (map msgUID (Messages ix))
    \<and> (\<forall>m\<in>set (Messages ix). 0 < msgUID m \<and> msgUID m < UIDNext ix \<and> msgFile m = eml_file (msgUID m))
    \<and> unat (UIDNext ix) \<le> Suc n"
proof -
  have "mail_inv (UserDir rootDir) n fs" by (rule mail_machine.reach_inv [OF assms(1,2)])
  then have "box_sound (UserDir rootDir) n fs uid name" using assms(3) by (simp add: mail_inv_def)
  then show ?thesis using assms(4) by (simp add: box_sound_def index_ok_def)
qed

section \<open>Accounts are separated\<close>

lemma clean_mailboxDir: "clean_path rootDir \<Longrightarrow> inside name \<Longrightarrow> clean_path (mailboxDir (UserDir rootDir) uid name)"
  by (simp add: mailboxDir_eq UserDir_eq inside_plain)

lemma wf_fs_run_op:
  assumes "wf_fs fs" "\<forall>n\<in>set (op_names name op). clean_path (mailboxDir userDir uid n)"
  shows "wf_fs (run_op userDir now uid name op fs)"
proof -
  have d: "clean_path (mailboxDir userDir uid name)" using assms(2) by (cases op) (auto simp: op_names_def)
  have rd: "wf_fs (snd (readIndex userDir now uid name fs))" using wf_fs_cong [OF readIndex_lookup] assms(1) by blast
  have wr: "wf_fs fs1 \<Longrightarrow> wf_fs (snd (writeIndex userDir uid name ix fs1))" for ix fs1 using wf_fs_writeIndex d by blast
  have w: "writeIndex userDir uid (CanonicalMailbox name) ix fs1 = writeIndex userDir uid name ix fs1" for ix fs1
    by (simp add: writeIndex_def)
  have st: "wf_fs (snd (Stat p fs1)) = wf_fs fs1" for p fs1 by (rule wf_fs_reads(3))
  have lift: "snd (lift_os c) = snd c" for c :: "(oserr + unit) \<times> fsys" by (simp add: lift_os_def split: prod.splits sum.splits)
  show ?thesis
  proof (cases op)
    case (OpAppend flags date body)
    obtain r fs' where h: "Append userDir now uid name flags date body fs = (r, fs')" by fastforce
    then show ?thesis using wf_fs_Append [OF assms(1) d h] by (simp add: run_op_def OpAppend)
  next
    case (OpSetFlags uids flags fop)
    then show ?thesis unfolding run_op_def SetFlags_def using rd wr by (simp, intro call_cases [where P = wf_fs]) auto
  next
    case (OpRemove uids)
    then show ?thesis unfolding run_op_def Remove_def using rd wr wf_fs_remove_messages
      by (simp, intro call_cases [where P = wf_fs]) auto
  next
    case (OpSubscribe b)
    then show ?thesis unfolding run_op_def SetSubscribed_def using rd wr by (simp, intro call_cases [where P = wf_fs]) auto
  next
    case OpCreate
    have "wf_fs (snd (case Stat (indexPath userDir uid name) fs of (Inl e, fs1) \<Rightarrow>
        if CanonicalMailbox name = Inbox then (Inl ErrMailboxExists, fs1) else writeIndex userDir uid name (newMailboxIndex now) fs1
      | (Inr u, fs1) \<Rightarrow> (Inl ErrMailboxExists, fs1)))"
      using assms(1) st wr by (intro call_cases [where P = wf_fs]) auto
    then show ?thesis using assms(1) unfolding run_op_def CreateMailbox_def Let_def mailboxDir_canonical w by (simp add: OpCreate)
  next
    case OpDelete
    have "wf_fs (snd (case Stat (indexPath userDir uid name) fs of (Inl e, fs1) \<Rightarrow> (Inl ErrNoSuchMailbox, fs1)
      | (Inr u, fs1) \<Rightarrow> lift_os (RemoveAll (mailboxDir userDir uid name) fs1)))"
      using assms(1) st lift wf_fs_RemoveAll by (intro call_cases [where P = wf_fs]) auto
    then show ?thesis using assms(1) unfolding run_op_def DeleteMailbox_def Let_def mailboxDir_canonical by (simp add: OpDelete)
  next
    case (OpRename to)
    have q: "clean_path (mailboxDir userDir uid to)" "clean_path (butlast (mailboxDir userDir uid to))"
      using assms(2) OpRename clean_path_prefix [OF _ prefixeq_butlast] by (auto simp: op_names_def)
    have "wf_fs (snd (case Stat (indexPath userDir uid name) fs of (Inl e, fs1) \<Rightarrow> (Inl ErrNoSuchMailbox, fs1)
      | (Inr u, fs1) \<Rightarrow> (case Stat (indexPath userDir uid to) fs1 of
          (Inl e, fs2) \<Rightarrow> (case MkdirAll (butlast (mailboxDir userDir uid to)) fs2 of (Inl e, fs3) \<Rightarrow> (Inl (MailOS e), fs3)
            | (Inr v, fs3) \<Rightarrow> lift_os (Rename (mailboxDir userDir uid name) (mailboxDir userDir uid to) fs3))
        | (Inr v, fs2) \<Rightarrow> (Inl ErrMailboxExists, fs2))))"
      using assms(1) st lift wf_fs_MkdirAll [OF _ q(2)] wf_fs_Rename [OF _ q(1)]
      by (intro call_cases [where P = wf_fs]) auto
    then show ?thesis using assms(1) unfolding run_op_def RenameMailbox_def Let_def mailboxDir_canonical by (simp add: OpRename)
  qed
qed

lemma user_view_file: "user_view rootDir fs n = (case file_at fs (rootDir @ [n, ''user.json'']) of None \<Rightarrow> None | Some c \<Rightarrow> decode_user c)"
  by (simp add: user_view_def file_at_def split: option.splits node.splits)

lemma run_op_user_files:
  assumes "\<forall>m\<in>set (op_names name op). inside m" "index_ok (cur_index (UserDir rootDir) now fs uid name)"
  shows "file_at (run_op (UserDir rootDir) now uid name op fs) (rootDir @ [n, ''user.json'']) = file_at fs (rootDir @ [n, ''user.json''])"
  using assms(1) by (intro run_op_files [OF _ assms(2)]) (auto simp: mailboxDir_eq UserDir_eq)

lemma store_inv_run_op:
  assumes "store_inv rootDir fs" "\<forall>m\<in>set (op_names name op). inside m" "index_ok (cur_index (UserDir rootDir) now fs uid name)"
  shows "store_inv rootDir (run_op (UserDir rootDir) now uid name op fs)"
    "user_view rootDir (run_op (UserDir rootDir) now uid name op fs) = user_view rootDir fs"
proof -
  show v: "user_view rootDir (run_op (UserDir rootDir) now uid name op fs) = user_view rootDir fs"
    using run_op_user_files [OF assms(2,3)] by (intro ext) (simp add: user_view_file)
  have "wf_fs (run_op (UserDir rootDir) now uid name op fs)"
    using store_invD(1,2) [OF assms(1)] assms(2) clean_mailboxDir by (intro wf_fs_run_op) auto
  then show "store_inv rootDir (run_op (UserDir rootDir) now uid name op fs)"
    using assms(1) unfolding store_inv_def v by blast
qed


lemma demo_lookup: "fs_lookup demo_fs p =
  (if p = [''data'', ''1'', ''user.json''] then Some (File (Json (marshal_user demo_user)))
   else if prefix p [''data'', ''1''] then Some Dir else None)"
proof -
  have "writeUser [''data''] demo_user empty_fs =
      (Inr (), fs_put [''data'', ''1'', ''user.json''] (File (Json (marshal_user demo_user))) (mkdirs [''data'', ''1''] empty_fs))"
    using readable_above(1) [OF demo_readable, of "''1''"]
    by (simp add: writeUser_def userPath_eq demo_UID MkdirAll_ok WriteFile_ok empty_fs_def fs_lookup_def [of "\<lparr>tree = [], faults = []\<rparr>"])
  then show ?thesis by (simp add: demo_fs_def demo_store_def empty_fs_def fs_lookup_def [of "\<lparr>tree = [], faults = []\<rparr>"])
qed

lemma demo_files: "file_at demo_fs p = (if p = [''data'', ''1'', ''user.json''] then Some (Json (marshal_user demo_user)) else None)"
  by (simp add: file_at_def demo_lookup)


section \<open>Names that leave the mail directory\<close>

lemma mailboxDir_dotdot: "mailboxDir userDir uid ''..'' = userDir uid"
proof -
  have "encodeMailboxName ''..'' = ''..''" by (rule encode_name_safe) (simp add: safe_rune_def)
  moreover have "CanonicalMailbox ''..'' = ''..''"
    by (simp add: CanonicalMailbox_def Trim_def TrimRight_def Delimiter_def EqualFold_def Inbox_def)
  ultimately show ?thesis by (simp add: mailboxDir_def mailRoot_eq path_join_def clean_step_def)
qed

text \<open>
  C24. The name of two dots passes the name encoding and leaves the mail directory: when no call
  fails, creating the mailbox with that name and deleting it again both succeed, and everything
  in the user's directory is gone, the account record included.
\<close>

theorem dotdot_destroys_account:
  assumes "readable rootDir fs" "fs_lookup fs (UserDir rootDir uid @ [''index.json'']) = None"
  shows "\<exists>fs1 fs2. CreateMailbox (UserDir rootDir) now uid ''..'' fs = (Inr (), fs1)
    \<and> DeleteMailbox (UserDir rootDir) uid ''..'' fs1 = (Inr (), fs2)
    \<and> (\<forall>p. prefix (UserDir rootDir uid) p \<longrightarrow> fs_lookup fs2 p = None)
    \<and> user_view rootDir fs2 (Itoa uid) = None"
proof -
  let ?U = "UserDir rootDir" and ?i = "UserDir rootDir uid @ [''index.json'']"
  let ?fs1 = "fs_put ?i (File (Json (marshal_index (newMailboxIndex now)))) (mkdirs (UserDir rootDir uid) fs)"
  have dd: "CanonicalMailbox ''..'' = ''..''"
    by (simp add: CanonicalMailbox_def Trim_def TrimRight_def Delimiter_def EqualFold_def Inbox_def)
  have ip: "indexPath ?U uid ''..'' = ?i" by (simp add: indexPath_eq mailboxDir_dotdot)
  have nf: "faults fs = []" using assms(1) by (simp add: readable_def)
  have "writable ?i fs"
    using readable_above [OF assms(1), of "Itoa uid"] nf assms(2) by (simp add: writable_def UserDir_eq butlast_append)
  then have "writeIndex ?U uid ''..'' (newMailboxIndex now) fs = (Inr (), ?fs1)"
    using put_file_total [of ?i fs] by (simp add: writeIndex_put lift_os_def ip)
  then have cr: "CreateMailbox ?U now uid ''..'' fs = (Inr (), ?fs1)"
    using assms(2) nf by (simp add: CreateMailbox_def dd ip Stat_ok Inbox_def)
  have de: "DeleteMailbox ?U uid ''..'' ?fs1 = (Inr (), fs_delete (prefix (UserDir rootDir uid)) ?fs1)"
    using nf by (simp add: DeleteMailbox_def dd ip Stat_ok Inbox_def RemoveAll_def mailboxDir_dotdot lift_os_def)
  have "\<forall>p. prefix (UserDir rootDir uid) p \<longrightarrow> fs_lookup (fs_delete (prefix (UserDir rootDir uid)) ?fs1) p = None"
    by (auto simp: UserDir_eq)
  moreover have "user_view rootDir (fs_delete (prefix (UserDir rootDir uid)) ?fs1) (Itoa uid) = None"
    by (simp add: user_view_def UserDir_eq)
  ultimately show ?thesis using cr de by blast
qed

theorem dotdot_destroys_account_witness:
  "\<exists>fs1 fs2. CreateMailbox (UserDir [''data'']) 7 1 ''..'' demo_fs = (Inr (), fs1)
    \<and> DeleteMailbox (UserDir [''data'']) 1 ''..'' fs1 = (Inr (), fs2)
    \<and> abs_users [''data''] demo_fs = {demo_user} \<and> user_view [''data''] fs2 ''1'' = None"
proof -
  have r: "readable [''data''] demo_fs" by (rule demo_fs_facts(2))
  have f: "fs_lookup demo_fs (UserDir [''data''] 1 @ [''index.json'']) = None" by (simp add: demo_lookup UserDir_eq)
  from dotdot_destroys_account [OF r f, of 7] show ?thesis using demo_fs_facts(5) by (auto simp: demo_UID)
qed

end
