(* ===== verification/MailConfig.thy ===== *)
theory MailConfig
  imports UserStore
begin

text \<open>
  The configuration of the mail server, \<^verbatim>\<open>mail/config.go\<close>, and the address helpers
  of \<^verbatim>\<open>mail/address.go\<close>. The environment maps variable names to values; an error
  carries the value the message of the code quotes. Reading certificates and
  keys calls the TLS and X.509 libraries, which are parameters.
\<close>

section \<open>Constants and data\<close>

definition defaultMaxMessageBytes :: int where "defaultMaxMessageBytes = 25 * 1024 * 1024"

text \<open>Durations are in nanoseconds.\<close>

definition minute :: int where "minute = 60 * 10 ^ 9"
definition hour :: int where "hour = 60 * minute"

definition queueRetryInterval :: int where "queueRetryInterval = 5 * minute"
definition queueMaxAttempts :: int where "queueMaxAttempts = 12"
definition smtpReadTimeout :: int where "smtpReadTimeout = 5 * minute"
definition smtpWriteTimeout :: int where "smtpWriteTimeout = 5 * minute"
definition imapAutoLogout :: int where "imapAutoLogout = 30 * minute"

record Config =
  Domain :: string
  ExtraDomains :: "string list"
  Hostname :: string
  SMTPAddr :: string
  SubmissionAddr :: string
  SubmissionTLSAddr :: string
  POP3Addr :: string
  POP3TLSAddr :: string
  IMAPAddr :: string
  IMAPTLSAddr :: string
  TLSCertFile :: string
  TLSKeyFile :: string
  MaxMessageBytes :: int
  Relay :: bool
  SmarthostAddr :: string
  SmarthostUser :: string
  SmarthostPassword :: string
  DKIMDomain :: string
  DKIMSelector :: string
  DKIMKeyFile :: string
  QueueDir :: string

datatype config_error =
  BadDomain string
| BadExtraDomain string
| BadMaxBytes string
| BadRelay string
| TLSFilesApart
| DKIMFilesApart
| LoadCertificate
| ReadDKIMKey
| NotPEM
| ParseDKIMKey
| KeyType

section \<open>Reading the environment\<close>

type_synonym environ = "string \<Rightarrow> string option"

definition Getenv :: "environ \<Rightarrow> string \<Rightarrow> string" where
  "Getenv env k = (case env k of None \<Rightarrow> [] | Some v \<Rightarrow> v)"

text \<open>
  The regular expression: labels of letters, digits and hyphens that neither start nor end with
  a hyphen, at least two of them, separated by dots.
\<close>

definition label_ok :: "string \<Rightarrow> bool" where
  "label_ok l \<longleftrightarrow> l \<noteq> [] \<and> is_alnum (hd l) \<and> is_alnum (last l) \<and> list_all (\<lambda>c. is_alnum c \<or> c = CHR ''-'') l"

definition domainPattern :: "string \<Rightarrow> bool" where
  "domainPattern s \<longleftrightarrow> (let labels = Split s (CHR ''.'') in 2 \<le> length labels \<and> list_all label_ok labels)"

definition Enabled :: "Config \<Rightarrow> bool" where
  "Enabled c \<longleftrightarrow> Domain c \<noteq> []"

definition addrFromEnv :: "environ \<Rightarrow> string \<Rightarrow> string \<Rightarrow> string" where
  "addrFromEnv env key fallback =
    (case env key of
       None \<Rightarrow> fallback
     | Some raw0 \<Rightarrow>
         let raw = TrimSpace raw0
         in if ToLower raw \<in> {[], ''off'', ''disabled'', ''none''} then [] else raw)"

fun parse_extras :: "string list \<Rightarrow> config_error + string list" where
  "parse_extras [] = Inr []"
| "parse_extras (e # es) =
    (let extra = ToLower (TrimSpace e)
     in if extra = [] then parse_extras es
        else if \<not> domainPattern extra then Inl (BadExtraDomain extra)
        else (case parse_extras es of Inl err \<Rightarrow> Inl err | Inr rest \<Rightarrow> Inr (extra # rest)))"

definition parse_max_bytes :: "string \<Rightarrow> config_error + int" where
  "parse_max_bytes raw =
    (if raw = [] then Inr defaultMaxMessageBytes
     else (case ParseInt raw of
         None \<Rightarrow> Inl (BadMaxBytes raw)
       | Some n \<Rightarrow> if n \<le> 0 then Inl (BadMaxBytes raw) else Inr n))"

definition parse_relay :: "string option \<Rightarrow> config_error + bool" where
  "parse_relay v =
    (case v of
       None \<Rightarrow> Inr True
     | Some raw \<Rightarrow> (case ParseBool (TrimSpace raw) of None \<Rightarrow> Inl (BadRelay raw) | Some b \<Rightarrow> Inr b))"

definition env_config :: "environ \<Rightarrow> Config" where
  "env_config env =
    \<lparr>Domain = ToLower (TrimSpace (Getenv env ''MAIL_DOMAIN'')),
     ExtraDomains = [],
     Hostname = ToLower (TrimSpace (Getenv env ''MAIL_HOSTNAME'')),
     SMTPAddr = addrFromEnv env ''MAIL_SMTP_ADDR'' '':25'',
     SubmissionAddr = addrFromEnv env ''MAIL_SUBMISSION_ADDR'' '':587'',
     SubmissionTLSAddr = addrFromEnv env ''MAIL_SUBMISSION_TLS_ADDR'' '':465'',
     POP3Addr = addrFromEnv env ''MAIL_POP3_ADDR'' '':110'',
     POP3TLSAddr = addrFromEnv env ''MAIL_POP3_TLS_ADDR'' '':995'',
     IMAPAddr = addrFromEnv env ''MAIL_IMAP_ADDR'' '':143'',
     IMAPTLSAddr = addrFromEnv env ''MAIL_IMAP_TLS_ADDR'' '':993'',
     TLSCertFile = TrimSpace (Getenv env ''MAIL_TLS_CERT_FILE''),
     TLSKeyFile = TrimSpace (Getenv env ''MAIL_TLS_KEY_FILE''),
     MaxMessageBytes = defaultMaxMessageBytes,
     Relay = True,
     SmarthostAddr = TrimSpace (Getenv env ''MAIL_SMARTHOST_ADDR''),
     SmarthostUser = Getenv env ''MAIL_SMARTHOST_USER'',
     SmarthostPassword = Getenv env ''MAIL_SMARTHOST_PASSWORD'',
     DKIMDomain = ToLower (TrimSpace (Getenv env ''MAIL_DKIM_DOMAIN'')),
     DKIMSelector = TrimSpace (Getenv env ''MAIL_DKIM_SELECTOR''),
     DKIMKeyFile = TrimSpace (Getenv env ''MAIL_DKIM_KEY_FILE''),
     QueueDir = []\<rparr>"

definition ConfigFromEnv :: "environ \<Rightarrow> config_error + Config" where
  "ConfigFromEnv env =
    (let cfg = env_config env
     in if \<not> Enabled cfg then Inr cfg
        else if \<not> domainPattern (Domain cfg) then Inl (BadDomain (Domain cfg))
        else
          let cfg = (if Hostname cfg = [] then cfg\<lparr>Hostname := Domain cfg\<rparr> else cfg)
          in case parse_extras (Split (Getenv env ''MAIL_EXTRA_DOMAINS'') (CHR '','')) of
               Inl e \<Rightarrow> Inl e
             | Inr extras \<Rightarrow>
                 (case parse_max_bytes (TrimSpace (Getenv env ''MAIL_MAX_MESSAGE_BYTES'')) of
                    Inl e \<Rightarrow> Inl e
                  | Inr limit \<Rightarrow>
                      (case parse_relay (env ''MAIL_RELAY'') of
                         Inl e \<Rightarrow> Inl e
                       | Inr relay \<Rightarrow>
                           let cfg = cfg\<lparr>ExtraDomains := extras, MaxMessageBytes := limit, Relay := relay\<rparr>
                           in if (TLSCertFile cfg = []) \<noteq> (TLSKeyFile cfg = []) then Inl TLSFilesApart
                              else if DKIMSelector cfg \<noteq> [] \<or> DKIMKeyFile cfg \<noteq> [] then
                                if DKIMSelector cfg = [] \<or> DKIMKeyFile cfg = [] then Inl DKIMFilesApart
                                else Inr (if DKIMDomain cfg = [] then cfg\<lparr>DKIMDomain := Domain cfg\<rparr> else cfg)
                              else Inr cfg)))"

section \<open>Certificates and keys\<close>

record 'cert tls_config =
  tlsCertificate :: 'cert
  tlsServerName :: string

definition tlsConfig :: "(string \<Rightarrow> string \<Rightarrow> 'cert option) \<Rightarrow> Config \<Rightarrow> config_error + 'cert tls_config option" where
  "tlsConfig loadPair c =
    (if TLSCertFile c = [] then Inr None
     else (case loadPair (TLSCertFile c) (TLSKeyFile c) of
         None \<Rightarrow> Inl LoadCertificate
       | Some cert \<Rightarrow> Inr (Some \<lparr>tlsCertificate = cert, tlsServerName = Hostname c\<rparr>)))"

text \<open>The dynamic type of a parsed PKCS 8 key.\<close>

datatype 'key parsed_key = RSAKey 'key | Ed25519Key 'key | OtherKey

definition dkimSigner :: "(string \<Rightarrow> string option) \<Rightarrow> (string \<Rightarrow> string option) \<Rightarrow> (string \<Rightarrow> 'key option) \<Rightarrow>
    (string \<Rightarrow> 'key parsed_key option) \<Rightarrow> Config \<Rightarrow> config_error + 'key option" where
  "dkimSigner readKey pemDecode parsePKCS1 parsePKCS8 c =
    (if DKIMKeyFile c = [] then Inr None
     else (case readKey (DKIMKeyFile c) of
         None \<Rightarrow> Inl ReadDKIMKey
       | Some raw \<Rightarrow>
           (case pemDecode raw of
              None \<Rightarrow> Inl NotPEM
            | Some block \<Rightarrow>
                (case parsePKCS1 block of
                   Some key \<Rightarrow> Inr (Some key)
                 | None \<Rightarrow>
                     (case parsePKCS8 block of
                        None \<Rightarrow> Inl ParseDKIMKey
                      | Some (RSAKey key) \<Rightarrow> Inr (Some key)
                      | Some (Ed25519Key key) \<Rightarrow> Inr (Some key)
                      | Some OtherKey \<Rightarrow> Inl KeyType)))))"

section \<open>Addresses\<close>

definition SplitAddress :: "string \<Rightarrow> string \<times> string \<times> bool" where
  "SplitAddress addr0 =
    (let addr = TrimSuffix (TrimPrefix (TrimSpace addr0) ''<'') ''>'';
         i = LastIndex addr ''@''
     in if i \<le> 0 \<or> i = int (length addr) - 1 then ([], [], False)
        else
          let local = take (nat i) addr;
              domain = ToLower (drop (nat i + 1) addr)
          in if ContainsAny local [CHR '' '', CHR 0x09, CHR 0x0D, CHR 0x0A]
                \<or> ContainsAny domain [CHR '' '', CHR 0x09, CHR 0x0D, CHR 0x0A, CHR ''@'']
             then ([], [], False)
             else (local, domain, True))"

definition isLocalDomain :: "Config \<Rightarrow> string \<Rightarrow> bool" where
  "isLocalDomain cfg domain \<longleftrightarrow>
    EqualFold domain (Domain cfg) \<or> list_ex (\<lambda>extra. EqualFold domain extra) (ExtraDomains cfg)"

section \<open>The domain pattern\<close>

text \<open>The language of the regular expression in the source.\<close>

inductive label_re :: "string \<Rightarrow> bool" where
  single: "is_alnum a \<Longrightarrow> label_re [a]"
| longer: "is_alnum a \<Longrightarrow> list_all (\<lambda>c. is_alnum c \<or> c = CHR ''-'') m \<Longrightarrow> is_alnum b \<Longrightarrow> label_re (a # m @ [b])"

inductive labels_re :: "string \<Rightarrow> bool" where
  one: "label_re l \<Longrightarrow> labels_re (CHR ''.'' # l)"
| more: "label_re l \<Longrightarrow> labels_re s \<Longrightarrow> labels_re (CHR ''.'' # l @ s)"

definition domain_re :: "string \<Rightarrow> bool" where
  "domain_re s \<longleftrightarrow> (\<exists>l t. s = l @ t \<and> label_re l \<and> labels_re t)"

lemma label_re_ok: "label_re l \<longleftrightarrow> label_ok l"
proof
  assume "label_re l"
  then show "label_ok l" by cases (auto simp: label_ok_def)
next
  assume ok: "label_ok l"
  then obtain a r where l: "l = a # r" by (cases l) (auto simp: label_ok_def)
  show "label_re l"
  proof (cases r rule: rev_cases)
    case Nil
    then show ?thesis using ok l label_re.single by (simp add: label_ok_def)
  next
    case (snoc m b)
    then show ?thesis using ok l label_re.longer [of a m b] by (simp add: label_ok_def)
  qed
qed

lemma label_ok_no_dot: "label_ok l \<Longrightarrow> CHR ''.'' \<notin> set l"
  by (auto simp: label_ok_def list_all_iff is_alnum_def is_upper_def is_lower_def is_digit_def)

fun join_dots :: "string list \<Rightarrow> string" where
  "join_dots [] = []"
| "join_dots (l # ls) = CHR ''.'' # l @ join_dots ls"

lemma Split_dots: "CHR ''.'' \<notin> set l \<Longrightarrow> list_all (\<lambda>m. CHR ''.'' \<notin> set m) ls \<Longrightarrow> Split (l @ join_dots ls) (CHR ''.'') = l # ls"
proof (induction ls arbitrary: l)
  case Nil
  then show ?case by (induction l) auto
next
  case (Cons m ls)
  then have "Split (m @ join_dots ls) (CHR ''.'') = m # ls" by simp
  moreover have "CHR ''.'' \<notin> set k \<Longrightarrow> Split (k @ CHR ''.'' # s) (CHR ''.'') = k # Split s (CHR ''.'')" for k s by (induction k) auto
  ultimately show ?case using Cons.prems by simp
qed

lemma dots_Split: "\<exists>l ls. Split s (CHR ''.'') = l # ls \<and> s = l @ join_dots ls"
proof (induction s)
  case (Cons c s)
  then obtain l ls where "Split s (CHR ''.'') = l # ls" "s = l @ join_dots ls" by blast
  then show ?case by auto
qed simp

lemma labels_re_dots: "labels_re t \<longleftrightarrow> (\<exists>ls. ls \<noteq> [] \<and> list_all label_ok ls \<and> t = join_dots ls)"
proof
  assume "labels_re t"
  then show "\<exists>ls. ls \<noteq> [] \<and> list_all label_ok ls \<and> t = join_dots ls"
  proof induction
    case (one l)
    then show ?case by (intro exI [of _ "[l]"]) (simp add: label_re_ok)
  next
    case (more l s)
    then obtain ls where "list_all label_ok ls" "s = join_dots ls" by blast
    with more show ?case by (intro exI [of _ "l # ls"]) (simp add: label_re_ok)
  qed
next
  have "ls \<noteq> [] \<Longrightarrow> list_all label_ok ls \<Longrightarrow> labels_re (join_dots ls)" for ls
  proof (induction ls)
    case (Cons l ls)
    then show ?case using labels_re.one [of l] labels_re.more [of l "join_dots ls"] by (cases ls) (simp_all add: label_re_ok)
  qed simp
  then show "\<exists>ls. ls \<noteq> [] \<and> list_all label_ok ls \<and> t = join_dots ls \<Longrightarrow> labels_re t" by blast
qed

text \<open>
  C26. The decision on domain names by splitting at the dots is equivalent to the regular
  expression of the source, read as a language.
\<close>

theorem domainPattern_regex: "domainPattern s \<longleftrightarrow> domain_re s"
proof
  assume d: "domainPattern s"
  obtain l ls where s: "Split s (CHR ''.'') = l # ls" "s = l @ join_dots ls" using dots_Split by blast
  with d have "ls \<noteq> []" "label_ok l" "list_all label_ok ls" by (auto simp: domainPattern_def)
  with s(2) show "domain_re s" unfolding domain_re_def labels_re_dots label_re_ok by blast
next
  assume "domain_re s"
  then obtain l ls where s: "s = l @ join_dots ls" "label_ok l" "ls \<noteq> []" "list_all label_ok ls"
    unfolding domain_re_def labels_re_dots label_re_ok by blast
  have "Split s (CHR ''.'') = l # ls"
    unfolding s(1) using s(2,4) label_ok_no_dot by (intro Split_dots) (auto simp: list_all_iff)
  then show "domainPattern s" using s by (cases ls) (simp_all add: domainPattern_def)
qed

section \<open>Accepted configurations\<close>

definition config_ok :: "Config \<Rightarrow> bool" where
  "config_ok c \<longleftrightarrow> domainPattern (Domain c) \<and> list_all domainPattern (ExtraDomains c) \<and> Hostname c \<noteq> []
    \<and> 0 < MaxMessageBytes c \<and> int64 (MaxMessageBytes c)
    \<and> (TLSCertFile c = [] \<longleftrightarrow> TLSKeyFile c = []) \<and> (DKIMSelector c = [] \<longleftrightarrow> DKIMKeyFile c = [])
    \<and> (DKIMKeyFile c \<noteq> [] \<longrightarrow> DKIMDomain c \<noteq> [])"

lemma parse_extras_ok: "parse_extras es = Inr ds \<Longrightarrow> list_all domainPattern ds"
  by (induction es arbitrary: ds) (auto simp: Let_def split: if_splits sum.splits)

lemma parse_max_bytes_ok: "parse_max_bytes raw = Inr n \<Longrightarrow> 0 < n \<and> int64 n"
  using ParseInt_int64 [of raw n]
  by (auto simp: parse_max_bytes_def split: if_splits option.splits) (simp_all add: defaultMaxMessageBytes_def int64_def)

lemma ConfigFromEnv_result:
  fixes env
  defines "d \<equiv> ToLower (TrimSpace (Getenv env ''MAIL_DOMAIN''))"
  shows "case ConfigFromEnv env of
      Inl e \<Rightarrow> d \<noteq> []
    | Inr cfg \<Rightarrow> Domain cfg = d \<and> (Enabled cfg \<longleftrightarrow> d \<noteq> []) \<and> (d \<noteq> [] \<longrightarrow> config_ok cfg)"
proof (cases "ConfigFromEnv env")
  case (Inl e)
  then show ?thesis by (auto simp: ConfigFromEnv_def Let_def Enabled_def env_config_def d_def split: if_splits)
next
  case (Inr cfg)
  have dom: "Domain (env_config env) = d" by (simp add: env_config_def d_def)
  show ?thesis
  proof (cases "d = []")
    case True
    then show ?thesis using Inr dom by (auto simp: ConfigFromEnv_def Let_def Enabled_def)
  next
    case False
    with Inr dom obtain extras limit relay where
      ex: "parse_extras (Split (Getenv env ''MAIL_EXTRA_DOMAINS'') (CHR '','')) = Inr extras" and
      li: "parse_max_bytes (TrimSpace (Getenv env ''MAIL_MAX_MESSAGE_BYTES'')) = Inr limit" and
      re: "parse_relay (env ''MAIL_RELAY'') = Inr relay"
      by (auto simp: ConfigFromEnv_def Let_def Enabled_def split: if_splits sum.splits)
    show ?thesis
      using Inr dom False parse_extras_ok [OF ex] parse_max_bytes_ok [OF li]
      by (auto simp: ConfigFromEnv_def Let_def Enabled_def ex li re config_ok_def split: if_splits)
  qed
qed

text \<open>
  C25. What reading the environment gives. Without a mail domain the result is a disabled
  configuration, whatever the other variables are. Otherwise the result is an error or a
  well-formed configuration of exactly that domain: all domains match the pattern, there is a
  host name, the size limit is a positive 64-bit number, certificate and key come together, and
  so do selector and key of DKIM, with a domain to sign for.
\<close>

theorem ConfigFromEnv_wf:
  fixes env
  defines "d \<equiv> ToLower (TrimSpace (Getenv env ''MAIL_DOMAIN''))"
  shows "case ConfigFromEnv env of
      Inl e \<Rightarrow> d \<noteq> []
    | Inr cfg \<Rightarrow> Domain cfg = d \<and> (Enabled cfg \<longleftrightarrow> d \<noteq> []) \<and> (d \<noteq> [] \<longrightarrow> config_ok cfg)"
  unfolding d_def by (rule ConfigFromEnv_result)

theorem ConfigFromEnv_wf_witness:
  "\<exists>cfg. ConfigFromEnv [''MAIL_DOMAIN'' \<mapsto> ''a.b''] = Inr cfg \<and> Domain cfg = ''a.b'' \<and> config_ok cfg"
proof -
  let ?env = "[''MAIL_DOMAIN'' \<mapsto> ''a.b'']"
  have d: "ToLower (TrimSpace (Getenv ?env ''MAIL_DOMAIN'')) = ''a.b''"
    by (simp add: Getenv_def ToLower_id TrimSpace_ascii ascii_def is_space_def is_upper_def)
  have e: "TrimSpace [] = []" "ToLower [] = []" by (simp_all add: TrimSpace_def ToLower_def)
  have "\<exists>cfg. ConfigFromEnv ?env = Inr cfg"
    using d
    by (simp add: ConfigFromEnv_def Let_def env_config_def Enabled_def domainPattern_def label_ok_def is_alnum_def is_lower_def
        e parse_max_bytes_def parse_relay_def Getenv_def)
  then show ?thesis using ConfigFromEnv_wf [of ?env] d by auto
qed

section \<open>Addresses of accounts\<close>

lemma id_char_plain: "id_char c \<Longrightarrow> byte_of c < (128::nat) \<and> \<not> is_space (byte_of c) \<and> c \<notin> set '' <>@''
    \<and> c \<noteq> CHR 0x09 \<and> c \<noteq> CHR 0x0A \<and> c \<noteq> CHR 0x0D"
  by (auto simp: id_char_def is_alnum_def is_upper_def is_lower_def is_digit_def is_space_def)

definition domain_char :: "char \<Rightarrow> bool" where
  "domain_char c \<longleftrightarrow> (is_alnum c \<and> \<not> is_upper c) \<or> c = CHR ''-'' \<or> c = CHR ''.''"

lemma domain_char_plain: "domain_char c \<Longrightarrow> byte_of c < (128::nat) \<and> \<not> is_space (byte_of c) \<and> c \<notin> set '' <>@''
    \<and> c \<noteq> CHR 0x09 \<and> c \<noteq> CHR 0x0A \<and> c \<noteq> CHR 0x0D \<and> \<not> is_upper c"
  by (auto simp: domain_char_def is_alnum_def is_upper_def is_lower_def is_digit_def is_space_def)

lemma TrimPrefix_absent: "s \<noteq> [] \<Longrightarrow> hd s \<noteq> c \<Longrightarrow> TrimPrefix s [c] = s"
  by (cases s) (simp_all add: TrimPrefix_def HasPrefix_def)

lemma TrimSuffix_absent: "s \<noteq> [] \<Longrightarrow> last s \<noteq> c \<Longrightarrow> TrimSuffix s [c] = s"
  by (cases s rule: rev_cases) (simp_all add: TrimSuffix_def HasSuffix_def HasPrefix_def)

lemma SplitAddress_core:
  assumes l: "l \<noteq> []" "list_all id_char l" and d: "d \<noteq> []" "list_all domain_char d"
    and a: "TrimSuffix (TrimPrefix (TrimSpace addr) ''<'') ''>'' = l @ CHR ''@'' # d"
  shows "SplitAddress addr = (l, d, True)"
proof -
  have ld: "c \<in> set l \<Longrightarrow> id_char c" "c \<in> set d \<Longrightarrow> domain_char c" for c using l(2) d(2) by (auto simp: list_all_iff)
  have "CHR ''@'' \<notin> set d" using ld(2) [of "CHR ''@''"] domain_char_plain [of "CHR ''@''"] by auto
  then have i: "LastIndex (l @ CHR ''@'' # d) ''@'' = int (length l)" by (rule LastIndex_char)
  have low: "ToLower d = d"
    using ld(2) domain_char_plain by (intro ToLower_id) (auto simp: ascii_def)
  have "\<not> ContainsAny l [CHR '' '', CHR 0x09, CHR 0x0D, CHR 0x0A]"
    using ld(1) id_char_plain by (fastforce simp: ContainsAny_def list_ex_iff)
  moreover have "\<not> ContainsAny d [CHR '' '', CHR 0x09, CHR 0x0D, CHR 0x0A, CHR ''@'']"
    using ld(2) domain_char_plain by (fastforce simp: ContainsAny_def list_ex_iff)
  ultimately show ?thesis using l(1) d(1) by (simp add: SplitAddress_def a i low Let_def)
qed

lemma SplitAddress_plain:
  assumes l: "l \<noteq> []" "list_all id_char l" and d: "d \<noteq> []" "list_all domain_char d"
  shows "SplitAddress (l @ CHR ''@'' # d) = (l, d, True)" "SplitAddress (''<'' @ l @ CHR ''@'' # d @ ''>'') = (l, d, True)"
proof -
  let ?s = "l @ CHR ''@'' # d"
  have chars: "c \<in> set ?s \<Longrightarrow> byte_of c < (128::nat) \<and> \<not> is_space (byte_of c) \<and> c \<noteq> CHR ''<'' \<and> c \<noteq> CHR ''>''" for c
    using l(2) d(2) id_char_plain [of c] domain_char_plain [of c] by (auto simp: list_all_iff is_space_def)
  have hl: "hd ?s \<in> set ?s" "last ?s \<in> set ?s" by (rule hd_in_set last_in_set; simp)+
  have asc: "ascii ?s" "ascii (''<'' @ ?s @ ''>'')" using chars by (auto simp: ascii_def)
  have "TrimSpace ?s = ?s" using chars hl by (intro TrimSpace_ascii [OF asc(1)]) blast
  then have "TrimSuffix (TrimPrefix (TrimSpace ?s) ''<'') ''>'' = ?s"
    using chars hl by (simp only:) (subst TrimPrefix_absent; simp add: TrimSuffix_absent)
  then show "SplitAddress ?s = (l, d, True)" by (rule SplitAddress_core [OF l d])
  have "TrimSpace (''<'' @ ?s @ ''>'') = ''<'' @ ?s @ ''>''"
    by (rule TrimSpace_ascii [OF asc(2)]) (simp add: is_space_def)
  moreover have "TrimSuffix (TrimPrefix (''<'' @ ?s @ ''>'') ''<'') ''>'' = ?s"
    by (simp add: TrimPrefix_def HasPrefix_def TrimSuffix_def HasSuffix_def)
  ultimately show "SplitAddress (''<'' @ l @ CHR ''@'' # d @ ''>'') = (l, d, True)"
    using SplitAddress_core [OF l d, of "''<'' @ ?s @ ''>''"] by simp
qed

text \<open>
  Round trip of account addresses. The address of an account with a valid identifier at a
  lower-case domain splits into exactly the identifier and the domain, with or without angle
  brackets around it.
\<close>

lemma SplitAddress_Address:
  assumes "idPattern (acctID a)" "d \<noteq> []" "list_all domain_char d"
  shows "SplitAddress (Address a d) = (acctID a, d, True) \<and> SplitAddress (''<'' @ Address a d @ ''>'') = (acctID a, d, True)"
  using SplitAddress_plain [of "acctID a" d] assms by (auto simp: idPattern_def Address_def)

text \<open>What a successful split guarantees.\<close>

lemma SplitAddress_True:
  assumes "SplitAddress addr = (l, d, True)"
  shows "l \<noteq> []" "CHR ''@'' \<notin> set d"
proof -
  define a where "a = TrimSuffix (TrimPrefix (TrimSpace addr) ''<'') ''>''"
  define i where "i = LastIndex a ''@''"
  from assms have c: "\<not> (i \<le> 0 \<or> i = int (length a) - 1)" "l = take (nat i) a"
    "\<not> ContainsAny d [CHR '' '', CHR 0x09, CHR 0x0D, CHR 0x0A, CHR ''@'']"
    unfolding SplitAddress_def Let_def a_def [symmetric] i_def [symmetric] by (auto split: if_splits)
  show "CHR ''@'' \<notin> set d" using c(3) by (auto simp: ContainsAny_def list_ex_iff)
  have "a \<noteq> []"
  proof
    assume "a = []"
    then have "i = - 1" using LastIndex_char_absent [of "CHR ''@''" a] by (simp add: i_def)
    with c(1) show False by simp
  qed
  with c(1,2) show "l \<noteq> []" by simp
qed

end
