(* ===== verification/GoNet.thy ===== *)
theory GoNet
  imports UserStore
begin

text \<open>
  The parts of Go's \<^verbatim>\<open>time\<close>, \<^verbatim>\<open>net\<close> and \<^verbatim>\<open>io\<close> packages the mail server uses: the
  time format of mail headers, host and port of an address, and reading a
  limited stream. Times are nanoseconds since 1970; the offset of the local
  time zone in seconds is a function of the time.
\<close>

section \<open>Time\<close>

definition weekday_names :: "string list" where
  "weekday_names = [''Sun'', ''Mon'', ''Tue'', ''Wed'', ''Thu'', ''Fri'', ''Sat'']"

definition month_names :: "string list" where
  "month_names = [''Jan'', ''Feb'', ''Mar'', ''Apr'', ''May'', ''Jun'', ''Jul'', ''Aug'', ''Sep'', ''Oct'', ''Nov'', ''Dec'']"

text \<open>Year, month and day of a day number counted from January 1, 1970.\<close>

definition civil :: "int \<Rightarrow> int \<times> int \<times> int" where
  "civil days =
    (let z = days + 719468;
         era = z div 146097;
         doe = z mod 146097;
         yoe = (doe - doe div 1460 + doe div 36524 - doe div 146096) div 365;
         doy = doe - (365 * yoe + yoe div 4 - yoe div 100);
         mp = (5 * doy + 2) div 153;
         m = (if mp < 10 then mp + 3 else mp - 9)
     in (yoe + era * 400 + (if m \<le> 2 then 1 else 0), m, doy - (153 * mp + 2) div 5 + 1))"

definition two_digits :: "int \<Rightarrow> string" where
  "two_digits n = pad0 2 (Itoa n)"

text \<open>\<^verbatim>\<open>t.Format(time.RFC1123Z)\<close>.\<close>

definition FormatRFC1123Z :: "(time \<Rightarrow> int) \<Rightarrow> time \<Rightarrow> string" where
  "FormatRFC1123Z zone t =
    (let off = zone t;
         sec = t div 10 ^ 9 + off;
         days = sec div 86400;
         s = sec mod 86400;
         (y, m, d) = civil days
     in weekday_names ! nat ((days + 4) mod 7) @ '', '' @ two_digits d @ '' '' @ month_names ! nat (m - 1) @ '' ''
        @ pad0 4 (Itoa y) @ '' '' @ two_digits (s div 3600) @ '':'' @ two_digits (s mod 3600 div 60) @ '':'' @ two_digits (s mod 60)
        @ '' '' @ (if off < 0 then ''-'' else ''+'') @ two_digits (\<bar>off\<bar> div 3600) @ two_digits (\<bar>off\<bar> mod 3600 div 60))"

section \<open>Host and port\<close>

text \<open>\<^verbatim>\<open>net.SplitHostPort\<close>; every error is the same here.\<close>

definition SplitHostPort :: "string \<Rightarrow> (string \<times> string) option" where
  "SplitHostPort hp =
    (let i = LastIndex hp '':''
     in if i < 0 then None
        else if hd hp = CHR ''['' then
          (let e = IndexByte hp (CHR '']'')
           in if e < 0 then None
              else if e + 1 \<noteq> i then None
              else if CHR ''['' \<in> set (drop 1 hp) \<or> CHR '']'' \<in> set (drop (nat e + 1) hp) then None
              else Some (drop 1 (take (nat e) hp), drop (nat i + 1) hp))
        else
          (let host = take (nat i) hp
           in if CHR '':'' \<in> set host then None
              else if CHR ''['' \<in> set hp \<or> CHR '']'' \<in> set hp then None
              else Some (host, drop (nat i + 1) hp)))"

definition JoinHostPort :: "string \<Rightarrow> string \<Rightarrow> string" where
  "JoinHostPort host port =
    (if CHR '':'' \<in> set host then ''['' @ host @ '']:'' @ port else host @ '':'' @ port)"

section \<open>Streams\<close>

text \<open>
  A reader is the bytes it delivers and whether an error follows them. \<^verbatim>\<open>io.ReadAll\<close> of an
  \<^verbatim>\<open>io.LimitReader\<close> stops after the limit, before it can see the error; a limit that is not
  positive reads nothing.
\<close>

record reader =
  rdBytes :: string
  rdFails :: bool

definition ReadAll :: "reader \<Rightarrow> string option" where
  "ReadAll r = (if rdFails r then None else Some (rdBytes r))"

definition ReadAllLimited :: "reader \<Rightarrow> int \<Rightarrow> string option" where
  "ReadAllLimited r n =
    (if n \<le> 0 then Some []
     else if n \<le> int (length (rdBytes r)) then Some (take (nat n) (rdBytes r))
     else ReadAll r)"

section \<open>Random identifiers\<close>

text \<open>
  The clock and the random source as the calls of one operation see them, by call. Reading random
  bytes may fail, in which case the code reads the clock.
\<close>

record ambient =
  clock :: "nat \<Rightarrow> time"
  entropy :: "nat \<Rightarrow> time + byte list"

definition randomID :: "ambient \<Rightarrow> nat \<Rightarrow> string" where
  "randomID amb i = (case entropy amb i of Inl t \<Rightarrow> Itoa t | Inr bs \<Rightarrow> EncodeToString bs)"

section \<open>Facts\<close>

lemma IndexByte_append: "c \<notin> set before \<Longrightarrow> IndexByte (before @ c # after) c = int (length before)"
  by (induction before) (auto simp: IndexByte_def)

lemma SplitHostPort_Join:
  assumes "\<forall>c\<in>set host. c \<noteq> CHR ''['' \<and> c \<noteq> CHR '']''" "\<forall>c\<in>set port. c \<notin> set '':[]''"
  shows "SplitHostPort (JoinHostPort host port) = Some (host, port)"
proof (cases "CHR '':'' \<in> set host")
  case False
  have "LastIndex (host @ CHR '':'' # port) '':'' = int (length host)" using assms(2) by (intro LastIndex_char) auto
  moreover have "hd (host @ CHR '':'' # port) \<noteq> CHR ''[''" using assms(1) by (cases host) auto
  ultimately show ?thesis using assms False by (auto simp: JoinHostPort_def SplitHostPort_def)
next
  case True
  let ?hp = "CHR ''['' # host @ CHR '']'' # CHR '':'' # port"
  have "LastIndex ((CHR ''['' # host @ '']'') @ CHR '':'' # port) '':'' = int (length (CHR ''['' # host @ '']''))"
    using assms(2) by (intro LastIndex_char) auto
  then have i: "LastIndex ?hp '':'' = int (length host) + 2" by simp
  have "IndexByte ((CHR ''['' # host) @ CHR '']'' # CHR '':'' # port) (CHR '']'') = int (length (CHR ''['' # host))"
    using assms(1) by (intro IndexByte_append) auto
  then have e: "IndexByte ?hp (CHR '']'') = int (length host) + 1" by simp
  have n: "nat (int (length host) + 1) = Suc (length host)" "nat (int (length host) + 2) = Suc (Suc (length host))" by simp_all
  have "CHR ''['' \<notin> set (host @ CHR '']'' # CHR '':'' # port)" "CHR '']'' \<notin> set (CHR '':'' # port)"
    using assms by auto
  then show ?thesis using True by (simp add: JoinHostPort_def SplitHostPort_def i e n)
qed

definition entropy_ok :: "ambient \<Rightarrow> bool" where
  "entropy_ok amb \<longleftrightarrow> (\<forall>i bs. entropy amb i = Inr bs \<longrightarrow> (\<forall>b\<in>set bs. b < 256))"

lemma Itoa_chars: "c \<in> set (Itoa n) \<Longrightarrow> is_digit c \<or> c = CHR ''-''"
  by (auto simp: Itoa_def split: if_splits dest: nat_str_digits)

lemma randomID_chars: "entropy_ok amb \<Longrightarrow> c \<in> set (randomID amb i) \<Longrightarrow> is_alnum c \<or> c = CHR ''-''"
  using EncodeToString_alnum [of _ c]
  by (auto simp: randomID_def entropy_ok_def is_alnum_def dest: Itoa_chars split: sum.splits)

lemma ReadAllLimited_le: "ReadAllLimited r n = Some b \<Longrightarrow> int (length b) \<le> max 0 n"
  by (auto simp: ReadAllLimited_def ReadAll_def split: if_splits)

end
