(* ===== verification/MailQueue.thy ===== *)
theory MailQueue
  imports MailConfig GoNet "HOL-Library.Multiset"
begin

text \<open>
  The spool of the outbound queue, \<^verbatim>\<open>mail/relay.go\<close>: the entry document, spooling
  and removing a message, reading an entry, the retry delay and the grouping of
  recipients by domain. The delivery attempts are in the theory of the relay.
\<close>

section \<open>Entries\<close>

record queueEntry =
  qID :: string
  qFrom :: string
  qTo :: "string list"
  qAttempts :: int
  qFirstTry :: time
  qNextTry :: time
  qLastError :: string

definition marshal_entry :: "queueEntry \<Rightarrow> json" where
  "marshal_entry e = JObj
    ([(''id'', JStr (json_str (qID e))), (''from'', JStr (json_str (qFrom e))),
      (''to'', JArr (map (JStr \<circ> json_str) (qTo e))), (''attempts'', JInt (qAttempts e)),
      (''first_try'', JTime (qFirstTry e)), (''next_try'', JTime (qNextTry e))]
     @ (if qLastError e = [] then [] else [(''last_error'', JStr (json_str (qLastError e)))]))"

definition entry_field :: "string \<Rightarrow> json \<Rightarrow> queueEntry \<Rightarrow> queueEntry option" where
  "entry_field k j e =
    (if field_is ''id'' k then map_option (\<lambda>s. e\<lparr>qID := s\<rparr>) (dec_string j (qID e))
     else if field_is ''from'' k then map_option (\<lambda>s. e\<lparr>qFrom := s\<rparr>) (dec_string j (qFrom e))
     else if field_is ''to'' k then map_option (\<lambda>ss. e\<lparr>qTo := ss\<rparr>) (dec_strings j (qTo e))
     else if field_is ''attempts'' k then map_option (\<lambda>n. e\<lparr>qAttempts := n\<rparr>) (dec_int j (qAttempts e))
     else if field_is ''first_try'' k then map_option (\<lambda>t. e\<lparr>qFirstTry := t\<rparr>) (dec_time j (qFirstTry e))
     else if field_is ''next_try'' k then map_option (\<lambda>t. e\<lparr>qNextTry := t\<rparr>) (dec_time j (qNextTry e))
     else if field_is ''last_error'' k then map_option (\<lambda>s. e\<lparr>qLastError := s\<rparr>) (dec_string j (qLastError e))
     else Some e)"

definition zero_entry :: queueEntry where
  "zero_entry = \<lparr>qID = [], qFrom = [], qTo = [], qAttempts = 0, qFirstTry = - 62135596800000000000,
     qNextTry = - 62135596800000000000, qLastError = []\<rparr>"

definition decode_entry :: "content \<Rightarrow> queueEntry option" where
  "decode_entry c = (case c of Json j \<Rightarrow> dec_object entry_field zero_entry j | Bytes _ \<Rightarrow> None)"

section \<open>The spool\<close>

text \<open>Errors of the spool: of the file system, or an entry that does not decode.\<close>

datatype queueerr = QueueOS oserr | QueueJSON

definition entryPath :: "path \<Rightarrow> string \<Rightarrow> path" where
  "entryPath dir ident = path_join dir (ident @ ''.json'')"

definition bodyPath :: "path \<Rightarrow> string \<Rightarrow> path" where
  "bodyPath dir ident = path_join dir (ident @ ''.eml'')"

definition writeEntry :: "path \<Rightarrow> queueEntry \<Rightarrow> fsys \<Rightarrow> (oserr + unit) \<times> fsys" where
  "writeEntry dir e fs = WriteFile (entryPath dir (qID e)) (Json (marshal_entry e)) fs"

definition readEntry :: "path \<Rightarrow> string \<Rightarrow> fsys \<Rightarrow> (queueerr + queueEntry) \<times> fsys" where
  "readEntry dir ident fs =
    (case ReadFile (entryPath dir ident) fs of
       (Inl e, fs') \<Rightarrow> (Inl (QueueOS e), fs')
     | (Inr c, fs') \<Rightarrow> (case decode_entry c of None \<Rightarrow> (Inl QueueJSON, fs') | Some e \<Rightarrow> (Inr e, fs')))"

text \<open>The identifier is the time in nanoseconds and six random bytes.\<close>

definition queue_id :: "ambient \<Rightarrow> string" where
  "queue_id amb = Itoa (clock amb 0) @ ''-'' @ randomID amb 0"

definition enqueue :: "path \<Rightarrow> ambient \<Rightarrow> string \<Rightarrow> string list \<Rightarrow> string \<Rightarrow> fsys \<Rightarrow> (oserr + string) \<times> fsys" where
  "enqueue dir amb from to message fs =
    (case MkdirAll dir fs of
       (Inl e, fs1) \<Rightarrow> (Inl e, fs1)
     | (Inr _, fs1) \<Rightarrow>
         let ident = queue_id amb
         in (case WriteFile (bodyPath dir ident) (Bytes message) fs1 of
               (Inl e, fs2) \<Rightarrow> (Inl e, fs2)
             | (Inr _, fs2) \<Rightarrow>
                 let entry = \<lparr>qID = ident, qFrom = from, qTo = to, qAttempts = 0, qFirstTry = clock amb 1,
                              qNextTry = clock amb 2, qLastError = []\<rparr>
                 in (case writeEntry dir entry fs2 of
                       (Inl e, fs3) \<Rightarrow> (Inl e, snd (Remove_file (bodyPath dir ident) fs3))
                     | (Inr _, fs3) \<Rightarrow> (Inr ident, fs3))))"

definition queue_remove :: "path \<Rightarrow> string \<Rightarrow> fsys \<Rightarrow> fsys" where
  "queue_remove dir ident fs =
    snd (Remove_file (bodyPath dir ident) (snd (Remove_file (entryPath dir ident) fs)))"

section \<open>Retry delay\<close>

text \<open>The loop of \<^verbatim>\<open>backoff\<close>: \<open>k\<close> rounds are left.\<close>

fun backoff_loop :: "nat \<Rightarrow> int \<Rightarrow> int" where
  "backoff_loop 0 delay = delay"
| "backoff_loop (Suc k) delay =
    (let delay2 = wrap64 (delay * 2) in if 6 * hour \<le> delay2 then 6 * hour else backoff_loop k delay2)"

definition backoff :: "int \<Rightarrow> int" where
  "backoff attempts = backoff_loop (nat (attempts - 1)) queueRetryInterval"

section \<open>Grouping\<close>

text \<open>The Go map from domains to recipients, as an association list in insertion order.\<close>

fun group_add :: "string \<Rightarrow> string \<Rightarrow> (string \<times> string list) list \<Rightarrow> (string \<times> string list) list" where
  "group_add domain rcpt [] = [(domain, [rcpt])]"
| "group_add domain rcpt ((d, rs) # gs) =
    (if d = domain then (d, rs @ [rcpt]) # gs else (d, rs) # group_add domain rcpt gs)"

definition groupByDomain :: "string list \<Rightarrow> (string \<times> string list) list" where
  "groupByDomain rcpts =
    foldl (\<lambda>gs rcpt. case SplitAddress rcpt of (_, domain, ok) \<Rightarrow> if ok then group_add domain rcpt gs else gs) [] rcpts"

section \<open>Facts: the entry document\<close>

definition norm_entry :: "queueEntry \<Rightarrow> queueEntry" where
  "norm_entry e = e\<lparr>qID := json_str (qID e), qFrom := json_str (qFrom e), qTo := map json_str (qTo e),
     qLastError := json_str (qLastError e)\<rparr>"

lemma entry_field_eqs:
  "entry_field ''id'' j e = map_option (\<lambda>s. e\<lparr>qID := s\<rparr>) (dec_string j (qID e))"
  "entry_field ''from'' j e = map_option (\<lambda>s. e\<lparr>qFrom := s\<rparr>) (dec_string j (qFrom e))"
  "entry_field ''to'' j e = map_option (\<lambda>ss. e\<lparr>qTo := ss\<rparr>) (dec_strings j (qTo e))"
  "entry_field ''attempts'' j e = map_option (\<lambda>n. e\<lparr>qAttempts := n\<rparr>) (dec_int j (qAttempts e))"
  "entry_field ''first_try'' j e = map_option (\<lambda>t. e\<lparr>qFirstTry := t\<rparr>) (dec_time j (qFirstTry e))"
  "entry_field ''next_try'' j e = map_option (\<lambda>t. e\<lparr>qNextTry := t\<rparr>) (dec_time j (qNextTry e))"
  "entry_field ''last_error'' j e = map_option (\<lambda>s. e\<lparr>qLastError := s\<rparr>) (dec_string j (qLastError e))"
  by (simp_all add: entry_field_def field_is_def EqualFold_def fold_rune_def)

lemma dec_marshal_entry:
  "int64 (qAttempts e) \<Longrightarrow> dec_object entry_field zero_entry (marshal_entry e) = Some (norm_entry e)"
  by (cases e) (simp add: marshal_entry_def dec_object_def entry_field_eqs norm_entry_def zero_entry_def dec_int_def json_str_def)

interpretation entry_codec: json_codec marshal_entry "dec_object entry_field zero_entry" norm_entry "\<lambda>e. int64 (qAttempts e)"
  by unfold_locales (simp_all add: dec_marshal_entry, simp_all add: norm_entry_def comp_def)

section \<open>The retry ladder\<close>

lemma backoff_loop_min:
  assumes "0 < delay" "delay < 6 * hour"
  shows "backoff_loop k delay = min (6 * hour) (delay * 2 ^ k)"
  using assms
proof (induction k arbitrary: delay)
  case (Suc k)
  have h: "6 * hour = 21600 * 10 ^ 9" by (simp add: hour_def minute_def)
  then have w: "wrap64 (delay * 2) = delay * 2" using Suc.prems by (intro wrap64_id) (simp add: int64_def)
  show ?case
  proof (cases "6 * hour \<le> delay * 2")
    case True
    have "delay * 2 \<le> delay * 2 ^ Suc k" using Suc.prems(1) by simp
    then show ?thesis using True w by (simp add: min_def)
  next
    case False
    then show ?thesis using Suc.IH [of "delay * 2"] Suc.prems(1) w by (simp add: mult.assoc)
  qed
qed simp

lemma backoff_min: "backoff n = min (6 * hour) (queueRetryInterval * 2 ^ nat (n - 1))"
  unfolding backoff_def by (rule backoff_loop_min) (simp_all add: queueRetryInterval_def hour_def minute_def)

lemma backoff_le: "backoff n \<le> 6 * hour"
  by (simp add: backoff_min)

text \<open>
  C27. The retry delay doubles from five minutes and is capped at six hours, without overflow for
  any attempt number; it never decreases. The eleven delays between the twelve attempts add up to
  2075 minutes, about a day and a half.
\<close>

theorem backoff_bounds:
  "backoff n = min (6 * hour) (queueRetryInterval * 2 ^ nat (n - 1))
   \<and> queueRetryInterval \<le> backoff n \<and> backoff n \<le> 6 * hour
   \<and> (\<Sum>k = 1..<nat queueMaxAttempts. backoff (int k)) = 2075 * minute"
proof -
  have "1 \<le> (2::int) ^ k" for k by simp
  then have "queueRetryInterval \<le> queueRetryInterval * 2 ^ nat (n - 1)" by (simp add: queueRetryInterval_def minute_def)
  moreover have "{1..<nat queueMaxAttempts} = {1, 2, 3, 4, 5, 6, 7, 8, 9, 10, 11}"
    by (rule set_eqI, simp add: queueMaxAttempts_def, presburger)
  then have "(\<Sum>k = 1..<nat queueMaxAttempts. backoff (int k)) = 2075 * minute"
    by (simp add: backoff_min queueRetryInterval_def hour_def minute_def)
  ultimately show ?thesis unfolding backoff_min by (simp add: queueRetryInterval_def hour_def minute_def)
qed

section \<open>Groups\<close>

lemma set_group_add: "set (map fst (group_add d r gs)) = insert d (set (map fst gs))"
  by (induction d r gs rule: group_add.induct) auto

lemma distinct_group_add: "distinct (map fst gs) \<Longrightarrow> distinct (map fst (group_add d r gs))"
  by (induction d r gs rule: group_add.induct) (use set_group_add in \<open>auto simp del: set_map\<close>)

lemma mset_group_add: "mset (concat (map snd (group_add d r gs))) = add_mset r (mset (concat (map snd gs)))"
  by (induction d r gs rule: group_add.induct) auto

lemma in_group_add: "(d', rs) \<in> set (group_add d r gs) \<Longrightarrow> x \<in> set rs \<Longrightarrow> d' = d \<and> x = r \<or> (\<exists>rs'. (d', rs') \<in> set gs \<and> x \<in> set rs')"
  by (induction d r gs rule: group_add.induct) (auto split: if_splits)

lemma group_add_nonempty: "\<forall>g\<in>set gs. snd g \<noteq> [] \<Longrightarrow> \<forall>g\<in>set (group_add d r gs). snd g \<noteq> []"
  by (induction d r gs rule: group_add.induct) auto

definition deliverable :: "string \<Rightarrow> bool" where
  "deliverable rcpt \<longleftrightarrow> snd (snd (SplitAddress rcpt))"

definition domain_of :: "string \<Rightarrow> string" where
  "domain_of rcpt = fst (snd (SplitAddress rcpt))"

lemma groupByDomain_snoc:
  "groupByDomain (rs @ [r]) = (if deliverable r then group_add (domain_of r) r (groupByDomain rs) else groupByDomain rs)"
  by (simp add: groupByDomain_def deliverable_def domain_of_def split: prod.splits)

lemma groupByDomain_mset: "mset (concat (map snd (groupByDomain rcpts))) = filter_mset deliverable (mset rcpts)"
  by (induction rcpts rule: rev_induct) (simp_all add: groupByDomain_snoc mset_group_add, simp add: groupByDomain_def)

text \<open>
  Grouping by domain partitions the recipients: every recipient whose address splits is in
  exactly one group, as often as it was listed, every group has one domain and holds only
  recipients at that domain, no domain has two groups and no group is empty.
\<close>

lemma groupByDomain_partition:
  "mset (concat (map snd (groupByDomain rcpts))) = filter_mset deliverable (mset rcpts)
   \<and> distinct (map fst (groupByDomain rcpts))
   \<and> (\<forall>(d, rs)\<in>set (groupByDomain rcpts). rs \<noteq> [] \<and> (\<forall>r\<in>set rs. domain_of r = d \<and> deliverable r))"
proof (induction rcpts rule: rev_induct)
  case Nil
  then show ?case by (simp add: groupByDomain_def)
next
  case (snoc r rs)
  then have ne: "\<forall>g\<in>set (groupByDomain rs). snd g \<noteq> []" by auto
  show ?case
  proof (cases "deliverable r")
    case True
    have "r' \<in> set q \<Longrightarrow> (d, q) \<in> set (group_add (domain_of r) r (groupByDomain rs)) \<Longrightarrow> domain_of r' = d \<and> deliverable r'" for d q r'
      using in_group_add [of d q "domain_of r" r "groupByDomain rs" r'] snoc True by fastforce
    then show ?thesis
      using snoc True group_add_nonempty [OF ne, of "domain_of r" r]
      by (auto simp: groupByDomain_snoc groupByDomain_mset [unfolded groupByDomain_snoc] mset_group_add distinct_group_add)
  next
    case False
    then show ?thesis using snoc by (simp add: groupByDomain_snoc)
  qed
qed

section \<open>Spooling\<close>

lemma queue_id_chars: "entropy_ok amb \<Longrightarrow> c \<in> set (queue_id amb) \<Longrightarrow> is_alnum c \<or> c = CHR ''-''"
  using randomID_chars [of amb c 0] by (auto simp: queue_id_def is_alnum_def dest: Itoa_chars)

lemma queue_paths:
  assumes "entropy_ok amb"
  shows "entryPath dir (queue_id amb) = dir @ [queue_id amb @ ''.json'']" "bodyPath dir (queue_id amb) = dir @ [queue_id amb @ ''.eml'']"
proof -
  have "CHR ''/'' \<notin> set (queue_id amb)"
    using queue_id_chars [OF assms, of "CHR ''/''"] by (auto simp: is_alnum_def is_upper_def is_lower_def is_digit_def)
  moreover have "queue_id amb @ t \<noteq> ''.''" "queue_id amb @ t \<noteq> ''..''" if "length t > 2" for t
    using that by (auto simp: append_eq_Cons_conv)
  ultimately have "plain_name (queue_id amb @ ''.json'')" "plain_name (queue_id amb @ ''.eml'')"
    by (auto simp: plain_name_def)
  then show "entryPath dir (queue_id amb) = dir @ [queue_id amb @ ''.json'']" "bodyPath dir (queue_id amb) = dir @ [queue_id amb @ ''.eml'']"
    by (simp_all add: entryPath_def bodyPath_def plain_name_join)
qed

lemma json_str_queue_id: "entropy_ok amb \<Longrightarrow> json_str (queue_id amb) = queue_id amb"
  using queue_id_chars [of amb]
  by (intro json_str_ascii) (fastforce simp: ascii_def is_alnum_def is_upper_def is_lower_def is_digit_def)

lemma suffix_apart [simp]: "p @ [i @ ''.json''] \<noteq> q @ [j @ ''.eml'']" "q @ [j @ ''.eml''] \<noteq> p @ [i @ ''.json'']"
proof -
  have "last (i @ ''.json'') \<noteq> last (j @ ''.eml'')" by simp
  then show "p @ [i @ ''.json''] \<noteq> q @ [j @ ''.eml'']" "q @ [j @ ''.eml''] \<noteq> p @ [i @ ''.json'']" by (metis last_snoc)+
qed

lemma enqueue_effect:
  assumes "entropy_ok amb" "enqueue dir amb from to message fs = (r, fs')"
  shows "(case r of
      Inr ident \<Rightarrow>
        ident = queue_id amb \<and> file_at fs' (bodyPath dir ident) = Some (Bytes message)
        \<and> (\<exists>c. file_at fs' (entryPath dir ident) = Some c
             \<and> decode_entry c = Some \<lparr>qID = ident, qFrom = json_str from, qTo = map json_str to, qAttempts = 0,
                  qFirstTry = clock amb 1, qNextTry = clock amb 2, qLastError = []\<rparr>)
    | Inl e \<Rightarrow>
        file_at fs' (entryPath dir (queue_id amb)) \<in> {file_at fs (entryPath dir (queue_id amb)), Some (Bytes [])})
    \<and> (\<forall>p. p \<noteq> bodyPath dir (queue_id amb) \<and> p \<noteq> entryPath dir (queue_id amb) \<longrightarrow> file_at fs' p = file_at fs p)"
proof -
  let ?i = "queue_id amb"
  let ?e = "\<lparr>qID = ?i, qFrom = from, qTo = to, qAttempts = 0, qFirstTry = clock amb 1, qNextTry = clock amb 2, qLastError = []\<rparr>"
  note paths = queue_paths [OF assms(1), of dir]
  obtain x fs1 where mk: "MkdirAll dir fs = (x, fs1)" by fastforce
  note f1 = file_at_MkdirAll [OF mk]
  obtain y fs2 where wb: "WriteFile (bodyPath dir ?i) (Bytes message) fs1 = (y, fs2)" by fastforce
  obtain z fs3 where we: "WriteFile (entryPath dir ?i) (Json (marshal_entry ?e)) fs2 = (z, fs3)" by fastforce
  have en: "(r, fs') = (case x of Inl e \<Rightarrow> (Inl e, fs1) | Inr _ \<Rightarrow> (case y of Inl e \<Rightarrow> (Inl e, fs2)
      | Inr _ \<Rightarrow> (case z of Inl e \<Rightarrow> (Inl e, snd (Remove_file (bodyPath dir ?i) fs3)) | Inr _ \<Rightarrow> (Inr ?i, fs3))))"
    using assms(2) mk wb we by (simp add: enqueue_def Let_def writeEntry_def split: sum.splits)
  have rm: "q \<noteq> bodyPath dir ?i \<Longrightarrow> file_at (snd (Remove_file (bodyPath dir ?i) fs3)) q = file_at fs3 q" for q
    using Remove_file_frame [of q "bodyPath dir ?i" fs3] by (simp add: file_at_def)
  consider (dir) e where "x = Inl e" | (body) u e where "x = Inr u" "y = Inl e"
    | (entry) u v e where "x = Inr u" "y = Inr v" "z = Inl e" | (good) u v w where "x = Inr u" "y = Inr v" "z = Inr w"
    by (cases x; cases y; cases z) auto
  then show ?thesis
  proof cases
    case dir
    then show ?thesis using en f1 by simp
  next
    case body
    then show ?thesis using en f1 file_at_WriteFile_Inl [OF wb [unfolded body(2)]] paths by auto
  next
    case entry
    then show ?thesis
      using en f1 rm file_at_WriteFile_Inr [OF wb [unfolded entry(2)]] file_at_WriteFile_Inl [OF we [unfolded entry(3)]] paths
      by (auto simp: torn_def)
  next
    case good
    have "file_at fs3 = (file_at fs)(bodyPath dir ?i \<mapsto> Bytes message, entryPath dir ?i \<mapsto> Json (marshal_entry ?e))"
      using f1 file_at_WriteFile_Inr [OF wb [unfolded good(2)]] file_at_WriteFile_Inr [OF we [unfolded good(3)]] by simp
    moreover have "decode_entry (Json (marshal_entry ?e)) = Some (norm_entry ?e)"
      by (simp add: decode_entry_def dec_marshal_entry int64_def)
    ultimately show ?thesis
      using good en paths by (simp add: norm_entry_def json_str_queue_id [OF assms(1)] json_str_def [of "[]"])
  qed
qed


text \<open>Without faults a queue directory that is not blocked accepts the message.\<close>

lemma enqueue_total:
  assumes "entropy_ok amb" "faults fs = []" "\<not> file_above fs dir"
    "fs_lookup fs (bodyPath dir (queue_id amb)) \<noteq> Some Dir" "fs_lookup fs (entryPath dir (queue_id amb)) \<noteq> Some Dir"
  shows "\<exists>fs'. enqueue dir amb from to message fs = (Inr (queue_id amb), fs')"
  using assms(2-5) unfolding queue_paths [OF assms(1)]
  by (simp add: enqueue_def Let_def writeEntry_def queue_paths [OF assms(1)] MkdirAll_ok WriteFile_ok)

definition demo_amb :: ambient where
  "demo_amb = \<lparr>clock = (\<lambda>_. 7), entropy = (\<lambda>_. Inr [1, 2, 3, 4, 5, 6])\<rparr>"

lemma demo_amb_ok: "entropy_ok demo_amb"
  by (simp add: entropy_ok_def demo_amb_def)


end
