(* ===== verification/Smtp.thy ===== *)
theory Smtp
  imports MailMachine MailQueue
begin

text \<open>
  SMTP sessions, \<^verbatim>\<open>mail/smtp.go\<close>: what the two listeners do with \<^verbatim>\<open>AUTH\<close>, \<^verbatim>\<open>MAIL\<close>,
  \<^verbatim>\<open>RCPT\<close>, \<^verbatim>\<open>DATA\<close> and \<^verbatim>\<open>RSET\<close>. The protocol engine that calls these methods, the
  parser of message headers and the DKIM library are not under the repository:
  the parser and the signer are fields of the server record, and the commands of
  a session are the steps of a relation. Logging is left out.
\<close>

section \<open>The server and its login\<close>

record mail_server =
  cfg :: Config
  accountsRoot :: path
  checkHash :: "string \<Rightarrow> string \<Rightarrow> bool"
  tlsOn :: bool
  signer :: "(string \<Rightarrow> string option) option"
  headerHas :: "string \<Rightarrow> (string \<Rightarrow> bool) option"
  zone :: "time \<Rightarrow> int"
  queueDir :: path

abbreviation server_dir :: "mail_server \<Rightarrow> int \<Rightarrow> path" where
  "server_dir srv \<equiv> UserDir (accountsRoot srv)"

definition server_login :: "mail_server \<Rightarrow> string \<Rightarrow> string \<Rightarrow> fsys \<Rightarrow> Account option \<times> fsys" where
  "server_login srv username password fs =
    (case SplitAddress username of (local, domain, ok) \<Rightarrow>
       Authenticate (accountsRoot srv) (checkHash srv)
         (if ok \<and> isLocalDomain (cfg srv) domain then local else username) password fs)"

text \<open>\<^verbatim>\<open>Server.sign\<close>: the message itself when no key is configured, \<^const>\<open>None\<close> when signing fails.\<close>

definition server_sign :: "mail_server \<Rightarrow> string \<Rightarrow> string option" where
  "server_sign srv raw = (case signer srv of None \<Rightarrow> Some raw | Some f \<Rightarrow> f raw)"

section \<open>Sessions\<close>

record smtp_conn =
  connHello :: string
  connRemote :: "string option"
  connTLS :: bool

record smtpRecipient =
  rcptAddr :: string
  rcptAccount :: "Account option"

record smtpSession =
  submission :: bool
  sessConn :: smtp_conn
  sessAccount :: "Account option"
  sessFrom :: string
  sessRcpts :: "smtpRecipient list"

datatype smtp_reply =
  SmtpOK
| SMTPError int "int \<times> int \<times> int" string
| ErrAuthRequired
| ErrAuthFailed
| ErrAuthUnsupported
| ErrAuthUnknownMechanism
| ErrSASLState
| ErrRead

definition NewSession :: "bool \<Rightarrow> smtp_conn \<Rightarrow> smtpSession" where
  "NewSession sub c = \<lparr>submission = sub, sessConn = c, sessAccount = None, sessFrom = [], sessRcpts = []\<rparr>"

definition Reset :: "smtpSession \<Rightarrow> smtpSession" where
  "Reset s = s\<lparr>sessFrom := [], sessRcpts := []\<rparr>"

section \<open>Authentication\<close>

definition AuthMechanisms :: "smtpSession \<Rightarrow> string list" where
  "AuthMechanisms s = (if \<not> submission s then [] else [''PLAIN'', ''LOGIN''])"

definition authenticate :: "mail_server \<Rightarrow> string \<Rightarrow> string \<Rightarrow> smtpSession \<Rightarrow> fsys \<Rightarrow> smtp_reply \<times> smtpSession \<times> fsys" where
  "authenticate srv username password s fs =
    (case server_login srv username password fs of
       (None, fs') \<Rightarrow> (ErrAuthFailed, s, fs')
     | (Some account, fs') \<Rightarrow> (SmtpOK, s\<lparr>sessAccount := Some account\<rparr>, fs'))"

text \<open>The function the PLAIN mechanism of the SASL library calls with the decoded credentials.\<close>

definition auth_plain :: "mail_server \<Rightarrow> string \<Rightarrow> string \<Rightarrow> string \<Rightarrow> smtpSession \<Rightarrow> fsys \<Rightarrow> smtp_reply \<times> smtpSession \<times> fsys" where
  "auth_plain srv identity username password s fs =
    (if identity \<noteq> [] \<and> identity \<noteq> username then (ErrAuthFailed, s, fs) else authenticate srv username password s fs)"

record loginServer =
  lsUsername :: string
  lsStep :: int

datatype sasl_server = PlainServer | LoginServer loginServer

definition newLoginServer :: sasl_server where
  "newLoginServer = LoginServer \<lparr>lsUsername = [], lsStep = 0\<rparr>"

definition Auth :: "smtpSession \<Rightarrow> string \<Rightarrow> smtp_reply + sasl_server" where
  "Auth s mech =
    (if \<not> submission s then Inl ErrAuthUnsupported
     else if mech = ''PLAIN'' then Inr PlainServer
     else if mech = ''LOGIN'' then Inr newLoginServer
     else Inl ErrAuthUnknownMechanism)"

text \<open>\<^verbatim>\<open>loginServer.Next\<close>: the challenge, whether the exchange is over, and the error.\<close>

definition login_next :: "mail_server \<Rightarrow> loginServer \<Rightarrow> string option \<Rightarrow> smtpSession \<Rightarrow> fsys
    \<Rightarrow> (smtp_reply + string option \<times> bool) \<times> loginServer \<times> smtpSession \<times> fsys" where
  "login_next srv l response s fs =
    (if lsStep l = 0 then
       (case response of
          None \<Rightarrow> (Inr (Some ''Username:'', False), l, s, fs)
        | Some r \<Rightarrow> (Inr (Some ''Password:'', False), l\<lparr>lsUsername := r, lsStep := 1\<rparr>, s, fs))
     else if lsStep l = 1 then
       (case authenticate srv (lsUsername l) (case response of None \<Rightarrow> [] | Some r \<Rightarrow> r) s fs of
          (SmtpOK, s', fs') \<Rightarrow> (Inr (None, True), l\<lparr>lsStep := 2\<rparr>, s', fs')
        | (err, s', fs') \<Rightarrow> (Inl err, l, s', fs'))
     else (Inl ErrSASLState, l, s, fs))"

section \<open>The envelope\<close>

definition MAIL :: "mail_server \<Rightarrow> string \<Rightarrow> smtpSession \<Rightarrow> smtp_reply \<times> smtpSession" where
  "MAIL srv from s =
    (let accept = (SmtpOK, s\<lparr>sessFrom := from, sessRcpts := []\<rparr>)
     in if submission s then
          (case sessAccount s of
             None \<Rightarrow> (ErrAuthRequired, s)
           | Some a \<Rightarrow>
               let owned = Address a (Domain (cfg srv))
               in if \<not> EqualFold from owned then (SMTPError 550 (5, 7, 1) (''Sender must be '' @ owned), s) else accept)
        else accept)"

definition RCPT :: "mail_server \<Rightarrow> string \<Rightarrow> smtpSession \<Rightarrow> fsys \<Rightarrow> smtp_reply \<times> smtpSession \<times> fsys" where
  "RCPT srv to s fs =
    (case SplitAddress to of (local, domain, ok) \<Rightarrow>
     if \<not> ok then (SMTPError 501 (5, 1, 3) ''Malformed recipient address'', s, fs)
     else if isLocalDomain (cfg srv) domain then
       (case FindByID (accountsRoot srv) local fs of
          (None, fs') \<Rightarrow> (SMTPError 550 (5, 1, 1) ''No such user here'', s, fs')
        | (Some account, fs') \<Rightarrow>
            (SmtpOK, s\<lparr>sessRcpts := sessRcpts s @ [\<lparr>rcptAddr = to, rcptAccount = Some account\<rparr>]\<rparr>, fs'))
     else if \<not> submission s \<or> sessAccount s = None then (SMTPError 550 (5, 7, 1) ''Relay access denied'', s, fs)
     else if \<not> Relay (cfg srv) then (SMTPError 550 (5, 7, 1) ''Relaying is disabled on this server'', s, fs)
     else (SmtpOK, s\<lparr>sessRcpts := sessRcpts s @ [\<lparr>rcptAddr = to, rcptAccount = None\<rparr>]\<rparr>, fs))"

section \<open>The message\<close>

definition CRLF :: string where
  "CRLF = [CHR 0x0D, CHR 0x0A]"

fun crlf_from :: "bool \<Rightarrow> string \<Rightarrow> string" where
  "crlf_from afterCR [] = []"
| "crlf_from afterCR (c # cs) =
    (if c = CHR 0x0A \<and> \<not> afterCR then CRLF @ crlf_from False cs else c # crlf_from (c = CHR 0x0D) cs)"

definition normaliseLineEndings :: "string \<Rightarrow> string" where
  "normaliseLineEndings raw = (if CHR 0x0A \<notin> set raw then raw else crlf_from False raw)"

definition helo :: "string \<Rightarrow> string" where
  "helo name = (if name = [] then ''unknown'' else name)"

definition remoteIP :: "smtp_conn \<Rightarrow> string" where
  "remoteIP c =
    (case connRemote c of
       None \<Rightarrow> ''[unknown]''
     | Some addr \<Rightarrow> (case SplitHostPort addr of None \<Rightarrow> ''['' @ addr @ '']'' | Some (host, _) \<Rightarrow> ''['' @ host @ '']''))"

text \<open>The trace header for the recipient with number \<open>k\<close> of the message.\<close>

definition received :: "mail_server \<Rightarrow> smtpSession \<Rightarrow> ambient \<Rightarrow> nat \<Rightarrow> string \<Rightarrow> string" where
  "received srv s amb k rcpt =
    ''Received: from '' @ helo (connHello (sessConn s)) @ '' ('' @ remoteIP (sessConn s) @ '')'' @ CRLF
    @ [CHR 0x09] @ ''by '' @ Hostname (cfg srv) @ '' with '' @ (if submission s then ''ESMTPA'' else ''SMTP'')
    @ (if connTLS (sessConn s) then ''S'' else []) @ '' id '' @ randomID amb (k + 1) @ CRLF
    @ (if rcpt \<noteq> [] then [CHR 0x09] @ ''for <'' @ rcpt @ ''>'' else [CHR 0x09])
    @ ''; '' @ FormatRFC1123Z (zone srv) (clock amb (3 * k + 1)) @ CRLF"

definition stampSubmission :: "mail_server \<Rightarrow> smtpSession \<Rightarrow> ambient \<Rightarrow> string \<Rightarrow> string" where
  "stampSubmission srv s amb raw =
    (case headerHas srv raw of
       None \<Rightarrow> raw
     | Some has \<Rightarrow>
         (if has ''Date'' then [] else ''Date: '' @ FormatRFC1123Z (zone srv) (clock amb 0) @ CRLF)
         @ (if has ''Message-ID'' then [] else ''Message-ID: <'' @ randomID amb 0 @ ''@'' @ Domain (cfg srv) @ ''>'' @ CRLF)
         @ (case sessAccount s of
              Some a \<Rightarrow> if has ''From'' then [] else ''From: <'' @ Address a (Domain (cfg srv)) @ ''>'' @ CRLF
            | None \<Rightarrow> [])
         @ raw)"

definition prepared :: "mail_server \<Rightarrow> smtpSession \<Rightarrow> ambient \<Rightarrow> string \<Rightarrow> string" where
  "prepared srv s amb raw0 =
    (let raw = normaliseLineEndings raw0
     in if submission s then
          let stamped = stampSubmission srv s amb raw
          in (case server_sign srv stamped of None \<Rightarrow> stamped | Some dkim \<Rightarrow> dkim)
        else raw)"

text \<open>The loop over the recipients: the last delivery error, the remote recipients and the state.\<close>

fun deliver_rcpts :: "mail_server \<Rightarrow> smtpSession \<Rightarrow> ambient \<Rightarrow> string \<Rightarrow> nat \<Rightarrow> smtpRecipient list \<Rightarrow> fsys
    \<Rightarrow> mailerr option \<times> string list \<times> fsys" where
  "deliver_rcpts srv s amb raw k [] fs = (None, [], fs)"
| "deliver_rcpts srv s amb raw k (r # rs) fs =
    (case rcptAccount r of
       None \<Rightarrow>
         (case deliver_rcpts srv s amb raw (k + 1) rs fs of (err, remote, fs') \<Rightarrow> (err, rcptAddr r # remote, fs'))
     | Some a \<Rightarrow>
         (case Append (server_dir srv) (clock amb (3 * k + 3)) (acctUID a) Inbox [] (clock amb (3 * k + 2))
                 (received srv s amb k (rcptAddr r) @ raw) fs of
            (Inl e, fs1) \<Rightarrow>
              (case deliver_rcpts srv s amb raw (k + 1) rs fs1 of
                 (err, remote, fs') \<Rightarrow> (case err of None \<Rightarrow> Some e | Some e' \<Rightarrow> Some e', remote, fs'))
          | (Inr _, fs1) \<Rightarrow> deliver_rcpts srv s amb raw (k + 1) rs fs1))"

definition DATA :: "mail_server \<Rightarrow> ambient \<Rightarrow> ambient \<Rightarrow> reader \<Rightarrow> smtpSession \<Rightarrow> fsys \<Rightarrow> smtp_reply \<times> fsys" where
  "DATA srv amb qamb r s fs =
    (if sessRcpts s = [] then (SMTPError 554 (5, 5, 1) ''No valid recipients'', fs)
     else
       let limit = MaxMessageBytes (cfg srv)
       in case ReadAllLimited r (wrap64 (limit + 1)) of
            None \<Rightarrow> (ErrRead, fs)
          | Some raw0 \<Rightarrow>
              if limit < int (length raw0) then
                (SMTPError 552 (5, 3, 4) (''Message exceeds '' @ Itoa limit @ '' bytes''), fs)
              else
                let raw = prepared srv s amb raw0
                in case deliver_rcpts srv s amb raw 0 (sessRcpts s) fs of (localErr, remote, fs1) \<Rightarrow>
                     let finish = (\<lambda>fs2. if localErr \<noteq> None then (SMTPError 451 (4, 3, 0) ''Could not store message'', fs2)
                                         else (SmtpOK, fs2))
                     in if remote \<noteq> [] then
                          (case enqueue (queueDir srv) qamb (sessFrom s) remote
                                  (received srv s amb (length (sessRcpts s)) [] @ raw) fs1 of
                             (Inl e, fs2) \<Rightarrow> (SMTPError 451 (4, 3, 0) ''Could not queue message for delivery'', fs2)
                           | (Inr _, fs2) \<Rightarrow> finish fs2)
                        else finish fs1)"

end
