(* ===== verification/SmtpSessions.thy ===== *)
theory SmtpSessions
  imports Smtp
begin

text \<open>
  What SMTP sessions guarantee: line endings, the size limit, that no session is
  an open relay and that the sender of submitted mail is the authenticated
  account, and that accepted mail is stored.
\<close>

section \<open>Line endings\<close>

fun no_bare_lf :: "bool \<Rightarrow> string \<Rightarrow> bool" where
  "no_bare_lf afterCR [] = True"
| "no_bare_lf afterCR (c # cs) = ((c = CHR 0x0A \<longrightarrow> afterCR) \<and> no_bare_lf (c = CHR 0x0D) cs)"

lemma crlf_no_bare: "no_bare_lf b (crlf_from b s)"
  by (induction b s rule: crlf_from.induct) (auto simp: CRLF_def)

lemma crlf_id: "no_bare_lf b s \<Longrightarrow> crlf_from b s = s"
  by (induction b s rule: crlf_from.induct) auto

lemma crlf_filter: "filter (\<lambda>c. c \<noteq> CHR 0x0D) (crlf_from b s) = filter (\<lambda>c. c \<noteq> CHR 0x0D) s"
  by (induction b s rule: crlf_from.induct) (auto simp: CRLF_def)

lemma crlf_length: "length s \<le> length (crlf_from b s) \<and> length (crlf_from b s) \<le> 2 * length s"
  by (induction b s rule: crlf_from.induct) (auto simp: CRLF_def)

lemma no_lf_bare: "CHR 0x0A \<notin> set s \<Longrightarrow> no_bare_lf b s"
  by (induction b s rule: no_bare_lf.induct) auto

lemma normalise_crlf: "normaliseLineEndings s = crlf_from False s"
  using crlf_id [OF no_lf_bare, of s False] by (simp add: normaliseLineEndings_def)

text \<open>
  Normalising line endings leaves no line feed without a carriage return, changes nothing in
  a message that has none, only ever inserts carriage returns, is idempotent, and at most doubles
  the length.
\<close>

lemma normaliseLineEndings_correct:
  "no_bare_lf False (normaliseLineEndings raw)
   \<and> (normaliseLineEndings raw = raw \<longleftrightarrow> no_bare_lf False raw)
   \<and> filter (\<lambda>c. c \<noteq> CHR 0x0D) (normaliseLineEndings raw) = filter (\<lambda>c. c \<noteq> CHR 0x0D) raw
   \<and> normaliseLineEndings (normaliseLineEndings raw) = normaliseLineEndings raw
   \<and> length (normaliseLineEndings raw) \<le> 2 * length raw"
  unfolding normalise_crlf
  using crlf_no_bare [of False raw] crlf_id [of False raw] crlf_id [OF crlf_no_bare, of False raw] crlf_filter crlf_length
  by auto

section \<open>The size limit\<close>

text \<open>
  C29. The size limit. A message longer than the configured limit is refused and nothing is
  stored; except for the largest possible limit, where the limit plus one overflows: then every
  message is treated as if it were empty, and accepted.
\<close>

theorem DATA_limit:
  assumes "0 < MaxMessageBytes (cfg srv)" "int64 (MaxMessageBytes (cfg srv))" "sessRcpts s \<noteq> []"
  shows "if MaxMessageBytes (cfg srv) = 2 ^ 63 - 1
    then DATA srv amb qamb r s fs = DATA srv amb qamb \<lparr>rdBytes = [], rdFails = False\<rparr> s fs
    else MaxMessageBytes (cfg srv) < int (length (rdBytes r)) \<longrightarrow>
      (\<exists>msg. DATA srv amb qamb r s fs = (SMTPError 552 (5, 3, 4) msg, fs))"
proof (cases "MaxMessageBytes (cfg srv) = 2 ^ 63 - 1")
  case True
  have "wrap64 (MaxMessageBytes (cfg srv) + 1) \<le> 0" by (simp add: True wrap64_def)
  then show ?thesis using True by (simp add: DATA_def ReadAllLimited_def Let_def)
next
  case False
  then have w: "wrap64 (MaxMessageBytes (cfg srv) + 1) = MaxMessageBytes (cfg srv) + 1"
    using assms(1,2) by (intro wrap64_id) (auto simp: int64_def)
  show ?thesis using False assms(1,3) by (auto simp: DATA_def ReadAllLimited_def w Let_def)
qed

definition demo_server :: "Config \<Rightarrow> mail_server" where
  "demo_server c = \<lparr>cfg = c, accountsRoot = [''data''], checkHash = (\<lambda>h p. h = CHR ''#'' # p), tlsOn = False, signer = None,
     headerHas = (\<lambda>_. None), zone = (\<lambda>_. 0), queueDir = [''queue'']\<rparr>"

definition demo_conn :: smtp_conn where
  "demo_conn = \<lparr>connHello = ''h'', connRemote = None, connTLS = False\<rparr>"

definition demo_rcpt :: smtpRecipient where
  "demo_rcpt = \<lparr>rcptAddr = ''bob@a.b'', rcptAccount = Some (accountOf demo_user)\<rparr>"

theorem DATA_limit_witness:
  "\<exists>msg. DATA (demo_server ((env_config Map.empty)\<lparr>MaxMessageBytes := 3\<rparr>)) demo_amb demo_amb \<lparr>rdBytes = ''12345'', rdFails = False\<rparr>
     (NewSession False demo_conn\<lparr>sessRcpts := [demo_rcpt]\<rparr>) empty_fs = (SMTPError 552 (5, 3, 4) msg, empty_fs)"
  using DATA_limit [of "demo_server ((env_config Map.empty)\<lparr>MaxMessageBytes := 3\<rparr>)" "NewSession False demo_conn\<lparr>sessRcpts := [demo_rcpt]\<rparr>"
      demo_amb demo_amb "\<lparr>rdBytes = ''12345'', rdFails = False\<rparr>" empty_fs]
  by (simp add: demo_server_def NewSession_def int64_def)

section \<open>Policy of a session\<close>

text \<open>
  A session as the protocol engine drives it. The engine lets \<^verbatim>\<open>RCPT\<close> through only after an
  accepted \<^verbatim>\<open>MAIL\<close>, refuses \<^verbatim>\<open>AUTH\<close> once it succeeded, and resets the session after \<^verbatim>\<open>DATA\<close>.
  Between commands the rest of the service may change the files in any way.
\<close>

record smtp_state =
  sess :: smtpSession
  gotMail :: bool
  sfiles :: fsys

definition smtp_init :: "smtp_state \<Rightarrow> bool" where
  "smtp_init st \<longleftrightarrow> (\<exists>sub c. sess st = NewSession sub c) \<and> \<not> gotMail st"

inductive smtp_step :: "mail_server \<Rightarrow> smtp_state \<Rightarrow> smtp_state \<Rightarrow> bool" for srv where
  StepEnv: "smtp_step srv st (st\<lparr>sfiles := fs'\<rparr>)"
| StepPlain: "Auth (sess st) ''PLAIN'' = Inr PlainServer \<Longrightarrow> sessAccount (sess st) = None \<Longrightarrow>
    auth_plain srv identity username password (sess st) (sfiles st) = (reply, s', fs') \<Longrightarrow>
    smtp_step srv st (st\<lparr>sess := s', sfiles := fs'\<rparr>)"
| StepLogin: "Auth (sess st) ''LOGIN'' = Inr newLoginServer \<Longrightarrow> sessAccount (sess st) = None \<Longrightarrow>
    login_next srv l response (sess st) (sfiles st) = (res, l', s', fs') \<Longrightarrow>
    smtp_step srv st (st\<lparr>sess := s', sfiles := fs'\<rparr>)"
| StepMail: "MAIL srv from (sess st) = (reply, s') \<Longrightarrow>
    smtp_step srv st (st\<lparr>sess := s', gotMail := gotMail st \<or> reply = SmtpOK\<rparr>)"
| StepRcpt: "gotMail st \<Longrightarrow> RCPT srv to (sess st) (sfiles st) = (reply, s', fs') \<Longrightarrow>
    smtp_step srv st (st\<lparr>sess := s', sfiles := fs'\<rparr>)"
| StepData: "DATA srv amb qamb r (sess st) (sfiles st) = (reply, fs') \<Longrightarrow>
    smtp_step srv st (st\<lparr>sess := Reset (sess st), gotMail := False, sfiles := fs'\<rparr>)"
| StepReset: "smtp_step srv st (st\<lparr>sess := Reset (sess st), gotMail := False\<rparr>)"

definition owns :: "mail_server \<Rightarrow> smtpSession \<Rightarrow> bool" where
  "owns srv s \<longleftrightarrow> (\<exists>a. sessAccount s = Some a \<and> EqualFold (sessFrom s) (Address a (Domain (cfg srv))))"

definition rcpt_allowed :: "mail_server \<Rightarrow> smtpSession \<Rightarrow> smtpRecipient \<Rightarrow> bool" where
  "rcpt_allowed srv s r \<longleftrightarrow> deliverable (rcptAddr r) \<and>
    (case rcptAccount r of
       None \<Rightarrow> submission s \<and> sessAccount s \<noteq> None \<and> Relay (cfg srv) \<and> \<not> isLocalDomain (cfg srv) (domain_of (rcptAddr r))
     | Some a \<Rightarrow> isLocalDomain (cfg srv) (domain_of (rcptAddr r)))"

definition smtp_inv :: "mail_server \<Rightarrow> smtp_state \<Rightarrow> bool" where
  "smtp_inv srv st \<longleftrightarrow> (sessAccount (sess st) \<noteq> None \<longrightarrow> submission (sess st))
    \<and> (gotMail st \<and> submission (sess st) \<longrightarrow> owns srv (sess st))
    \<and> (\<not> gotMail st \<longrightarrow> sessRcpts (sess st) = [])
    \<and> (\<forall>r\<in>set (sessRcpts (sess st)). rcpt_allowed srv (sess st) r)"

lemma policy_rcpts [simp]:
  "owns srv (s\<lparr>sessRcpts := rs\<rparr>) = owns srv s" "rcpt_allowed srv (s\<lparr>sessRcpts := rs\<rparr>) r = rcpt_allowed srv s r"
  by (simp_all add: owns_def rcpt_allowed_def split: option.split)

lemma authenticate_session:
  "authenticate srv u p s fs = (reply, s', fs') \<Longrightarrow> s' = s \<or> (\<exists>a. s' = s\<lparr>sessAccount := Some a\<rparr>)"
  by (auto simp: authenticate_def split: prod.splits option.splits)

lemma auth_session:
  "auth_plain srv i u p s fs = (reply, s', fs') \<Longrightarrow> s' = s \<or> (\<exists>a. s' = s\<lparr>sessAccount := Some a\<rparr>)"
  "login_next srv l resp s fs = (res, l', s', fs') \<Longrightarrow> s' = s \<or> (\<exists>a. s' = s\<lparr>sessAccount := Some a\<rparr>)"
  by (auto simp: auth_plain_def login_next_def dest!: authenticate_session split: if_splits option.splits prod.splits smtp_reply.splits)

lemma smtp_inv_auth:
  assumes "smtp_inv srv st" "submission (sess st)" "sessAccount (sess st) = None" "s' = sess st \<or> (\<exists>a. s' = sess st\<lparr>sessAccount := Some a\<rparr>)"
  shows "smtp_inv srv (st\<lparr>sess := s', sfiles := fs'\<rparr>)"
proof -
  have "\<not> gotMail st" "sessRcpts (sess st) = []"
    using assms(1-3) by (auto simp: smtp_inv_def owns_def)
  then show ?thesis using assms by (auto simp: smtp_inv_def)
qed

lemma RCPT_session:
  assumes "RCPT srv to s fs = (reply, s', fs')"
  shows "s' = s \<or> (\<exists>r. s' = s\<lparr>sessRcpts := sessRcpts s @ [r]\<rparr> \<and> rcpt_allowed srv s r)"
proof -
  obtain local domain okay where sp: "SplitAddress to = (local, domain, okay)" by (cases "SplitAddress to") auto
  then have "deliverable to = okay" "domain_of to = domain" by (simp_all add: deliverable_def domain_of_def)
  then show ?thesis using assms sp
    by (auto simp: RCPT_def rcpt_allowed_def split: if_splits prod.splits option.splits)
qed

lemma smtp_inv_step:
  assumes "smtp_inv srv st" "smtp_step srv st st'"
  shows "smtp_inv srv st'"
  using assms(2)
proof cases
  case (StepEnv fs')
  then show ?thesis using assms(1) by (simp add: smtp_inv_def)
next
  case (StepPlain identity username password reply s' fs')
  have "submission (sess st)" using StepPlain(2) by (simp add: Auth_def split: if_splits)
  then show ?thesis using smtp_inv_auth [OF assms(1) _ StepPlain(3) auth_session(1) [OF StepPlain(4)]] StepPlain(1) by simp
next
  case (StepLogin l response res l' s' fs')
  have "submission (sess st)" using StepLogin(2) by (simp add: Auth_def split: if_splits)
  then show ?thesis using smtp_inv_auth [OF assms(1) _ StepLogin(3) auth_session(2) [OF StepLogin(4)]] StepLogin(1) by simp
next
  case (StepMail sender reply s')
  then show ?thesis using assms(1)
    by (auto simp: smtp_inv_def MAIL_def owns_def Let_def split: if_splits option.splits)
next
  case (StepRcpt to reply s' fs')
  from RCPT_session [OF StepRcpt(3)] show ?thesis
    using assms(1) StepRcpt(1,2) by (auto simp: smtp_inv_def)
next
  case (StepData amb qamb r reply fs')
  then show ?thesis using assms(1) by (simp add: smtp_inv_def Reset_def)
next
  case StepReset
  then show ?thesis using assms(1) by (simp add: smtp_inv_def Reset_def)
qed

lemma smtp_inv_init: "smtp_init st \<Longrightarrow> smtp_inv srv st"
  by (auto simp: smtp_init_def smtp_inv_def NewSession_def)

interpretation smtp_machine: counted_invariant smtp_init "smtp_step srv" "\<lambda>_. smtp_inv srv" n for srv n
  by unfold_locales (rule smtp_inv_init, assumption, rule smtp_inv_step)

text \<open>Local delivery writes only below the directory of the accounts.\<close>

lemma Append_files:
  assumes "Append userDir now uid name flags date body fs = (r, fs')" "\<not> prefix (mailboxDir userDir uid name) p"
  shows "file_at fs' p = file_at fs p"
proof -
  have "p \<noteq> indexPath userDir uid name" "p \<noteq> mailboxDir userDir uid name @ [eml_file u]" for u
    using assms(2) by (auto simp: indexPath_eq)
  with assms(1) show ?thesis by (cases rule: Append_cases) simp_all
qed

lemma deliver_files:
  "deliver_rcpts srv s amb raw k rs fs = (err, remote, fs') \<Longrightarrow> \<not> prefix (accountsRoot srv) p \<Longrightarrow>
   file_at fs' p = file_at fs p \<and> remote = map rcptAddr (filter (\<lambda>r. rcptAccount r = None) rs)"
proof (induction srv s amb raw k rs fs arbitrary: err remote fs' rule: deliver_rcpts.induct)
  case (2 srv s amb raw k r rs fs)
  show ?case
  proof (cases "rcptAccount r")
    case None
    then show ?thesis using "2.prems" "2.IH"(1) [OF None] by (auto split: prod.splits)
  next
    case (Some a)
    let ?A = "Append (server_dir srv) (clock amb (3 * k + 3)) (acctUID a) Inbox [] (clock amb (3 * k + 2))
      (received srv s amb k (rcptAddr r) @ raw) fs"
    obtain x fs1 where ap: "?A = (x, fs1)" by fastforce
    have "\<not> prefix (mailboxDir (server_dir srv) (acctUID a) Inbox) p"
      using "2.prems"(2) by (auto simp: mailboxDir_eq UserDir_eq dest: append_prefixD)
    then have f: "file_at fs1 p = file_at fs p" using Append_files [OF ap] by blast
    obtain err1 rest fs2 where d: "deliver_rcpts srv s amb raw (k + 1) rs fs1 = (err1, rest, fs2)" by (cases "deliver_rcpts srv s amb raw (k + 1) rs fs1")
    have "file_at fs2 p = file_at fs1 p \<and> rest = map rcptAddr (filter (\<lambda>r. rcptAccount r = None) rs)"
      using "2.IH"(2,3) [OF Some ap [symmetric]] d "2.prems"(2) by (cases x) auto
    moreover have "fs' = fs2" "remote = rest" using "2.prems"(1) Some ap d by (auto split: sum.splits option.splits)
    ultimately show ?thesis using f Some by simp
  qed
qed simp

lemma DATA_cases:
  assumes "DATA srv amb qamb r s fs = (reply, fs')"
  obtains (refused) "reply \<noteq> SmtpOK" "fs' = fs"
    | (local) raw err where "deliver_rcpts srv s amb (prepared srv s amb raw) 0 (sessRcpts s) fs = (err, [], fs')"
        "reply = SmtpOK \<longleftrightarrow> err = None" "ReadAllLimited r (wrap64 (MaxMessageBytes (cfg srv) + 1)) = Some raw"
    | (queued) raw err remote fs1 x where
        "deliver_rcpts srv s amb (prepared srv s amb raw) 0 (sessRcpts s) fs = (err, remote, fs1)" "remote \<noteq> []"
        "enqueue (queueDir srv) qamb (sessFrom s) remote
           (received srv s amb (length (sessRcpts s)) [] @ prepared srv s amb raw) fs1 = (x, fs')"
        "reply = SmtpOK \<longleftrightarrow> err = None \<and> \<not> isl x" "ReadAllLimited r (wrap64 (MaxMessageBytes (cfg srv) + 1)) = Some raw"
proof (cases "ReadAllLimited r (wrap64 (MaxMessageBytes (cfg srv) + 1))")
  case None
  then show ?thesis using assms refused by (auto simp: DATA_def Let_def split: if_splits)
next
  case (Some raw)
  obtain err remote fs1 where d: "deliver_rcpts srv s amb (prepared srv s amb raw) 0 (sessRcpts s) fs = (err, remote, fs1)"
    by (cases "deliver_rcpts srv s amb (prepared srv s amb raw) 0 (sessRcpts s) fs")
  show ?thesis
  proof (cases "sessRcpts s = [] \<or> MaxMessageBytes (cfg srv) < int (length raw)")
    case True
    then show ?thesis using assms Some refused by (auto simp: DATA_def Let_def split: if_splits)
  next
    case False
    show ?thesis
    proof (cases "remote = []")
      case True
      then show ?thesis using assms Some False d local [of raw err] by (auto simp: DATA_def Let_def split: if_splits)
    next
      case rem: False
      obtain x fs2 where e: "enqueue (queueDir srv) qamb (sessFrom s) remote
           (received srv s amb (length (sessRcpts s)) [] @ prepared srv s amb raw) fs1 = (x, fs2)" by fastforce
      have "fs' = fs2" "reply = SmtpOK \<longleftrightarrow> err = None \<and> \<not> isl x"
        using assms Some False d rem e by (auto simp: DATA_def Let_def split: if_splits sum.splits)
      then show ?thesis using queued [OF d rem] e Some by blast
    qed
  qed
qed

text \<open>
  C15. No session is an open relay. However a client drives a session, and whatever the rest of
  the service does to the files between commands: a session on the MX listener never writes
  anything outside the accounts' directories, the outbound queue included; and a recipient
  outside the local domains is only ever kept in an authenticated submission session with
  relaying enabled, whose sender is the address of the authenticated account.
\<close>

theorem smtp_no_open_relay:
  assumes "reach smtp_init (smtp_step srv) n st" "DATA srv amb qamb r (sess st) (sfiles st) = (reply, fs')"
  shows "(\<not> submission (sess st) \<longrightarrow> (\<forall>p. \<not> prefix (accountsRoot srv) p \<longrightarrow> file_at fs' p = file_at (sfiles st) p))
    \<and> (\<forall>rc\<in>set (sessRcpts (sess st)). \<not> isLocalDomain (cfg srv) (domain_of (rcptAddr rc)) \<longrightarrow>
         submission (sess st) \<and> Relay (cfg srv)
         \<and> (\<exists>a. sessAccount (sess st) = Some a \<and> EqualFold (sessFrom (sess st)) (Address a (Domain (cfg srv)))))"
proof -
  let ?s = "sess st"
  have inv: "smtp_inv srv st" using smtp_machine.reach_inv [OF assms(1) order_refl] .
  have "file_at fs' p = file_at (sfiles st) p" if "\<not> submission ?s" "\<not> prefix (accountsRoot srv) p" for p
  proof -
    have none: "filter (\<lambda>r. rcptAccount r = None) (sessRcpts ?s) = []"
      using inv that(1) by (auto simp: smtp_inv_def rcpt_allowed_def filter_empty_conv)
    from assms(2) show ?thesis
    proof (cases rule: DATA_cases)
      case (queued raw err remote fs1 x)
      then show ?thesis using deliver_files [OF queued(1) that(2)] none by simp
    qed (use deliver_files [OF _ that(2)] in blast)+
  qed
  moreover have "submission ?s \<and> Relay (cfg srv) \<and> owns srv ?s"
    if "rc \<in> set (sessRcpts ?s)" "\<not> isLocalDomain (cfg srv) (domain_of (rcptAddr rc))" for rc
  proof -
    have "gotMail st" using inv that(1) by (auto simp: smtp_inv_def)
    moreover have "rcpt_allowed srv ?s rc" using inv that(1) by (simp add: smtp_inv_def)
    ultimately show ?thesis using inv that(2) by (auto simp: smtp_inv_def rcpt_allowed_def split: option.splits)
  qed
  ultimately show ?thesis by (auto simp: owns_def)
qed

theorem smtp_no_open_relay_witness:
  "\<exists>st reply fs'. reach smtp_init (smtp_step (demo_server (env_config Map.empty))) 1 st
    \<and> DATA (demo_server (env_config Map.empty)) demo_amb demo_amb \<lparr>rdBytes = ''hi'', rdFails = False\<rparr> (sess st) (sfiles st) = (reply, fs')
    \<and> file_at fs' [''queue''] = file_at (sfiles st) [''queue'']"
proof -
  let ?srv = "demo_server (env_config Map.empty)"
  let ?init = "\<lparr>sess = NewSession False demo_conn, gotMail = False, sfiles = empty_fs\<rparr>"
  let ?st = "?init\<lparr>sess := NewSession False demo_conn\<lparr>sessFrom := ''x@y''\<rparr>, gotMail := True\<rparr>"
  have "reach smtp_init (smtp_step ?srv) 0 ?init" by (rule reach_init) (unfold smtp_init_def, rule conjI, intro exI [of _ False] exI [of _ demo_conn], simp_all)
  moreover have "smtp_step ?srv ?init ?st"
    using smtp_step.StepMail [of ?srv "''x@y''" ?init] by (simp add: MAIL_def NewSession_def)
  ultimately have r: "reach smtp_init (smtp_step ?srv) 1 ?st" using reach_step by fastforce
  obtain reply fs' where d: "DATA ?srv demo_amb demo_amb \<lparr>rdBytes = ''hi'', rdFails = False\<rparr> (sess ?st) (sfiles ?st) = (reply, fs')"
    by fastforce
  have "file_at fs' [''queue''] = file_at (sfiles ?st) [''queue'']"
    using smtp_no_open_relay [OF r d] by (simp add: NewSession_def demo_server_def)
  with r d show ?thesis by blast
qed

section \<open>Accepted mail is stored\<close>

definition inboxes_ok :: "mail_server \<Rightarrow> nat \<Rightarrow> fsys \<Rightarrow> bool" where
  "inboxes_ok srv n fs \<longleftrightarrow> (\<forall>uid. box_ok (server_dir srv) fs uid Inbox
    \<and> unat (UIDNext (cur_index (server_dir srv) 0 fs uid Inbox)) + n < 2 ^ 32)"

definition inbox_bodies :: "mail_server \<Rightarrow> fsys \<Rightarrow> int \<Rightarrow> string list" where
  "inbox_bodies srv fs uid = map (\<lambda>(u, fl, d, b). b) (box_mails (server_dir srv) fs uid Inbox)"

text \<open>The copies an account gets of a message, one for each recipient that resolved to it.\<close>

fun copies_for :: "mail_server \<Rightarrow> smtpSession \<Rightarrow> ambient \<Rightarrow> string \<Rightarrow> nat \<Rightarrow> smtpRecipient list \<Rightarrow> int \<Rightarrow> string list" where
  "copies_for srv s amb raw k [] uid = []"
| "copies_for srv s amb raw k (r # rs) uid =
    (if map_option acctUID (rcptAccount r) = Some uid then [received srv s amb k (rcptAddr r) @ raw] else [])
    @ copies_for srv s amb raw (k + 1) rs uid"

lemma cur_next: "box_ok userDir fs uid name \<Longrightarrow> UIDNext (cur_index userDir now fs uid name) = UIDNext (cur_index userDir now' fs uid name)"
  using fill_index_ok [of _ now] fill_index_ok [of _ now']
  by (auto simp: cur_index_def box_ok_def newMailboxIndex_def split: option.splits)

lemma box_eq_files:
  assumes "\<And>rest. file_at fs' (mailboxDir userDir uid name @ rest) = file_at fs (mailboxDir userDir uid name @ rest)"
  shows "box_index userDir fs' uid name = box_index userDir fs uid name" "body_of userDir fs' uid name = body_of userDir fs uid name"
  using assms by (simp_all add: box_index_def body_of_def indexPath_eq fun_eq_iff)

lemma box_eq:
  assumes "box_index userDir fs' uid name = box_index userDir fs uid name" "body_of userDir fs' uid name = body_of userDir fs uid name"
  shows "box_ok userDir fs' uid name = box_ok userDir fs uid name" "box_mails userDir fs' uid name = box_mails userDir fs uid name"
    "cur_index userDir now fs' uid name = cur_index userDir now fs uid name"
  unfolding box_ok_def box_mails_def cur_index_def assms by (rule refl)+

lemma inboxes_ok_Suc: "inboxes_ok srv (Suc n) fs \<Longrightarrow> inboxes_ok srv n fs"
  unfolding inboxes_ok_def by (metis Suc_lessD add_Suc_right)

lemma Append_inboxes:
  assumes ok: "inboxes_ok srv (Suc n) fs" and ap: "Append (server_dir srv) now uid Inbox flags date body fs = (Inr u, fs')"
  shows "inboxes_ok srv n fs'" "inbox_bodies srv fs' uid' = inbox_bodies srv fs uid' @ (if uid' = uid then [body] else [])"
proof -
  let ?U = "server_dir srv"
  have b: "box_ok ?U fs uid Inbox" and r: "unat (UIDNext (cur_index ?U 0 fs uid Inbox)) + Suc n < 2 ^ 32"
    using ok by (auto simp: inboxes_ok_def)
  have next_eq: "UIDNext (cur_index ?U now fs uid Inbox) = UIDNext (cur_index ?U 0 fs uid Inbox)" by (rule cur_next [OF b])
  have inc: "unat (UIDNext (cur_index ?U now fs uid Inbox) + 1) = Suc (unat (UIDNext (cur_index ?U 0 fs uid Inbox)))"
    using r by (simp add: next_eq unat_word_ariths)
  then have room: "UIDNext (cur_index ?U now fs uid Inbox) + 1 \<noteq> 0" by auto
  note eff = Append_effect [OF b room ap, of 0]
  have other: "box_index ?U fs' v Inbox = box_index ?U fs v Inbox" "body_of ?U fs' v Inbox = body_of ?U fs v Inbox" if "v \<noteq> uid" for v
  proof (rule box_eq_files)
    fix rest
    have "mailboxDir ?U uid Inbox \<noteq> mailboxDir ?U v Inbox" using that Itoa_inj [of uid v] by (auto simp: mailboxDir_eq UserDir_eq)
    from user_accounts.boxes_apart [OF inside_Inbox inside_Inbox this]
    show "file_at fs' (mailboxDir ?U v Inbox @ rest) = file_at fs (mailboxDir ?U v Inbox @ rest)" by (rule Append_files [OF ap])
  next
    have "mailboxDir ?U uid Inbox \<noteq> mailboxDir ?U v Inbox" using that Itoa_inj [of uid v] by (auto simp: mailboxDir_eq UserDir_eq)
    from user_accounts.boxes_apart [OF inside_Inbox inside_Inbox this]
    have "file_at fs' (mailboxDir ?U v Inbox @ rest) = file_at fs (mailboxDir ?U v Inbox @ rest)" for rest by (rule Append_files [OF ap])
    then show "body_of ?U fs' v Inbox = body_of ?U fs v Inbox" by (rule box_eq_files(2))
  qed
  show "inboxes_ok srv n fs'"
    unfolding inboxes_ok_def
  proof
    fix v
    show "box_ok ?U fs' v Inbox \<and> unat (UIDNext (cur_index ?U 0 fs' v Inbox)) + n < 2 ^ 32"
    proof (cases "v = uid")
      case True
      have n: "UIDNext (cur_index ?U 0 fs' uid Inbox) = UIDNext (cur_index ?U now fs uid Inbox) + 1" and "box_ok ?U fs' uid Inbox"
        using eff by simp_all
      then show ?thesis unfolding True n inc using r by simp
    next
      case False
      have "box_ok ?U fs v Inbox \<and> unat (UIDNext (cur_index ?U 0 fs v Inbox)) + Suc n < 2 ^ 32"
        using ok unfolding inboxes_ok_def by blast
      then show ?thesis unfolding box_eq [OF other [OF False]] by auto
    qed
  qed
  show "inbox_bodies srv fs' uid' = inbox_bodies srv fs uid' @ (if uid' = uid then [body] else [])"
  proof (cases "uid' = uid")
    case True
    have "box_mails ?U fs' uid Inbox = box_mails ?U fs uid Inbox @
        [(u, map json_str (normaliseFlags flags), if date = zeroTime then now else date, body)]" using eff by simp
    then show ?thesis by (simp add: inbox_bodies_def True)
  next
    case False
    then show ?thesis by (simp add: inbox_bodies_def box_eq(2) [OF other [OF False]])
  qed
qed

lemma deliver_stores:
  "inboxes_ok srv (length rs) fs \<Longrightarrow> deliver_rcpts srv s amb raw k rs fs = (None, remote, fs') \<Longrightarrow>
   inboxes_ok srv 0 fs' \<and> inbox_bodies srv fs' uid = inbox_bodies srv fs uid @ copies_for srv s amb raw k rs uid"
proof (induction srv s amb raw k rs fs arbitrary: remote fs' rule: deliver_rcpts.induct)
  case (2 srv s amb raw k r rs fs)
  show ?case
  proof (cases "rcptAccount r")
    case None
    have "inboxes_ok srv (length rs) fs" using "2.prems"(1) inboxes_ok_Suc by simp
    then show ?thesis using "2.prems"(2) "2.IH"(1) [OF None] None by (auto split: prod.splits)
  next
    case (Some a)
    let ?b = "received srv s amb k (rcptAddr r) @ raw"
    obtain x fs1 where ap: "Append (server_dir srv) (clock amb (3 * k + 3)) (acctUID a) Inbox [] (clock amb (3 * k + 2)) ?b fs = (x, fs1)"
      by fastforce
    obtain u where u: "x = Inr u" using "2.prems"(2) Some ap by (cases x) (auto split: prod.splits option.splits)
    note step = Append_inboxes [OF "2.prems"(1) [simplified] ap [unfolded u]]
    have "deliver_rcpts srv s amb raw (k + 1) rs fs1 = (None, remote, fs')" using "2.prems"(2) Some ap u by simp
    from "2.IH"(3) [OF Some ap [symmetric] u step(1) this] step(2) [of uid] Some show ?thesis by auto
  qed
qed (simp add: inboxes_ok_def)

lemma box_root:
  assumes "\<And>p. prefix (accountsRoot srv) p \<Longrightarrow> file_at fs' p = file_at fs p"
  shows "inbox_bodies srv fs' uid = inbox_bodies srv fs uid"
proof -
  have "file_at fs' (mailboxDir (server_dir srv) uid Inbox @ rest) = file_at fs (mailboxDir (server_dir srv) uid Inbox @ rest)" for rest
    by (rule assms) (simp add: mailboxDir_eq UserDir_eq)
  from box_eq(2) [OF box_eq_files [OF this]] show ?thesis by (simp add: inbox_bodies_def)
qed

text \<open>
  C16. Accepted mail is stored. If all inboxes are well-formed with room for the message and
  \<^verbatim>\<open>DATA\<close> is answered positively, then, under any faults that occurred, every account has got
  exactly one copy for each recipient that resolved to it, with its trace header in front of the
  normalised (and on submission stamped and signed) message, after all mail it had before; and if
  there are remote recipients, the message is in the outbound queue with all of them.
\<close>

theorem DATA_stores:
  assumes "inboxes_ok srv (length (sessRcpts s)) fs" "entropy_ok qamb" "\<forall>n. \<not> prefix (accountsRoot srv) (queueDir srv @ [n])"
    "DATA srv amb qamb r s fs = (SmtpOK, fs')"
  shows "\<exists>raw. ReadAllLimited r (wrap64 (MaxMessageBytes (cfg srv) + 1)) = Some raw
    \<and> (\<forall>uid. inbox_bodies srv fs' uid =
          inbox_bodies srv fs uid @ copies_for srv s amb (prepared srv s amb raw) 0 (sessRcpts s) uid)
    \<and> (let remote = map rcptAddr (filter (\<lambda>r. rcptAccount r = None) (sessRcpts s)) in
        remote \<noteq> [] \<longrightarrow>
          file_at fs' (bodyPath (queueDir srv) (queue_id qamb)) =
            Some (Bytes (received srv s amb (length (sessRcpts s)) [] @ prepared srv s amb raw))
          \<and> (\<exists>c e. file_at fs' (entryPath (queueDir srv) (queue_id qamb)) = Some c \<and> decode_entry c = Some e
               \<and> qTo e = map json_str remote \<and> qFrom e = json_str (sessFrom s)))"
  using assms(4)
proof (cases rule: DATA_cases)
  case (local raw err)
  have d: "deliver_rcpts srv s amb (prepared srv s amb raw) 0 (sessRcpts s) fs = (None, [], fs')" using local(1,2) by simp
  have "\<not> prefix (accountsRoot srv) (queueDir srv @ [''x''])" using assms(3) by blast
  from deliver_files [OF d this] have "map rcptAddr (filter (\<lambda>r. rcptAccount r = None) (sessRcpts s)) = []" by simp
  then show ?thesis using local(3) deliver_stores [OF assms(1) d] by (auto simp: Let_def)
next
  case (queued raw err remote fs1 x)
  have d: "deliver_rcpts srv s amb (prepared srv s amb raw) 0 (sessRcpts s) fs = (None, remote, fs1)" using queued(1,4) by simp
  have "\<not> prefix (accountsRoot srv) (queueDir srv @ [''x''])" using assms(3) by blast
  from deliver_files [OF d this] have rem: "remote = map rcptAddr (filter (\<lambda>r. rcptAccount r = None) (sessRcpts s))" by simp
  obtain i where "x = Inr i" using queued(4) by (cases x) auto
  note sp = enqueue_effect [OF assms(2) queued(3) [unfolded this], simplified]
  have "file_at fs' p = file_at fs1 p" if "prefix (accountsRoot srv) p" for p
    using sp that assms(3) queue_paths [OF assms(2), of "queueDir srv"] by metis
  then have "inbox_bodies srv fs' uid = inbox_bodies srv fs1 uid" for uid by (rule box_root)
  then show ?thesis using queued(5) deliver_stores [OF assms(1) d] sp unfolding rem by (auto simp: Let_def)
qed simp

theorem DATA_stores_witness:
  "\<exists>fs'. DATA (demo_server (env_config Map.empty)) demo_amb demo_amb \<lparr>rdBytes = ''hi'', rdFails = False\<rparr>
      (NewSession False demo_conn\<lparr>sessRcpts := [demo_rcpt]\<rparr>) empty_fs = (SmtpOK, fs')
    \<and> length (inbox_bodies (demo_server (env_config Map.empty)) fs' 1) = 1"
proof -
  let ?srv = "demo_server (env_config Map.empty)" and ?s = "NewSession False demo_conn\<lparr>sessRcpts := [demo_rcpt]\<rparr>"
  let ?r = "\<lparr>rdBytes = ''hi'', rdFails = False\<rparr>"
  have lim: "MaxMessageBytes (cfg ?srv) = 26214400"
    by (simp add: demo_server_def env_config_def defaultMaxMessageBytes_def)
  have w: "wrap64 (MaxMessageBytes (cfg ?srv) + 1) = 26214401" using lim by (simp add: int64_def)
  then have rd: "ReadAllLimited ?r (wrap64 (MaxMessageBytes (cfg ?srv) + 1)) = Some ''hi''"
    by (simp add: ReadAllLimited_def ReadAll_def)
  obtain fs' u where ap: "Append (server_dir ?srv) (clock demo_amb (3 * 0 + 3)) 1 Inbox [] (clock demo_amb (3 * 0 + 2))
      (received ?srv ?s demo_amb 0 (rcptAddr demo_rcpt) @ prepared ?srv ?s demo_amb ''hi'') empty_fs = (Inr u, fs')"
    using Append_total [OF ready_empty] by blast
  have acct: "rcptAccount demo_rcpt = Some (accountOf demo_user)" "acctUID (accountOf demo_user) = 1"
    by (simp_all add: demo_rcpt_def accountOf_def demo_UID)
  have rs: "sessRcpts ?s = [demo_rcpt]" by simp
  have dl: "deliver_rcpts ?srv ?s demo_amb (prepared ?srv ?s demo_amb ''hi'') 0 [demo_rcpt] empty_fs = (None, [], fs')"
    unfolding deliver_rcpts.simps acct option.case ap by simp
  have d: "DATA ?srv demo_amb demo_amb ?r ?s empty_fs = (SmtpOK, fs')"
    unfolding DATA_def Let_def rd rs option.case dl by (simp add: lim)
  have ok: "inboxes_ok ?srv (length (sessRcpts ?s)) empty_fs"
    by (simp add: inboxes_ok_def box_empty newMailboxIndex_def)
  have q: "\<forall>n. \<not> prefix (accountsRoot ?srv) (queueDir ?srv @ [n])" by (simp add: demo_server_def)
  from DATA_stores [OF ok demo_amb_ok q d] obtain raw where
    "inbox_bodies ?srv fs' 1 = inbox_bodies ?srv empty_fs 1 @ copies_for ?srv ?s demo_amb (prepared ?srv ?s demo_amb raw) 0 (sessRcpts ?s) 1"
    by blast
  then have "length (inbox_bodies ?srv fs' 1) = 1" by (simp add: inbox_bodies_def box_empty acct)
  with d show ?thesis by blast
qed

end
