(* ===== verification/Pop3.thy ===== *)
theory Pop3
  imports SmtpSessions
begin

text \<open>
  POP3 sessions, \<^verbatim>\<open>mail/pop3.go\<close>: parsing a command line, every command, and
  multi-line answers with dot-stuffing. A command maps the session and the files
  to the bytes written, whether the session goes on, and the new session and
  files. Whether a TLS handshake succeeds and the time are arguments. Deadlines
  and failing writes to the client are left out: the code ignores their errors.
\<close>

section \<open>State\<close>

definition pop3IdleTimeout :: int where "pop3IdleTimeout = 10 * minute"

text \<open>The set of deleted UIDs is a Go map; its keys are listed in the order of insertion.\<close>

record pop3Session =
  popTLS :: bool
  popAccount :: "Account option"
  popUser :: string
  popSnapshot :: "Snapshot option"
  popDeleted :: "u32 list"

definition new_pop3 :: "bool \<Rightarrow> pop3Session" where
  "new_pop3 tls = \<lparr>popTLS = tls, popAccount = None, popUser = [], popSnapshot = None, popDeleted = []\<rparr>"

text \<open>The messages of the snapshot; it is there once an account is.\<close>

definition pop_messages :: "pop3Session \<Rightarrow> Message list" where
  "pop_messages p = (case popSnapshot p of None \<Rightarrow> [] | Some s \<Rightarrow> snapMessages s)"

section \<open>Answers\<close>

definition respond :: "string \<Rightarrow> string" where
  "respond line = line @ CRLF"

definition pop_ok :: "string \<Rightarrow> string" where
  "pop_ok message = (if message = [] then respond ''+OK'' else respond (''+OK '' @ message))"

definition pop_err :: "string \<Rightarrow> string" where
  "pop_err message = respond (''-ERR '' @ message)"

definition fmt_u32 :: "u32 \<Rightarrow> string" where
  "fmt_u32 w = nat_str (unat w)"

text \<open>The lines that \<^verbatim>\<open>ReadString('\n')\<close> returns, terminators included, the last one possibly without.\<close>

fun read_lines :: "string \<Rightarrow> string \<Rightarrow> string list" where
  "read_lines line [] = (if line = [] then [] else [line])"
| "read_lines line (c # cs) =
    (if c = CHR 0x0A then (line @ [c]) # read_lines [] cs else read_lines (line @ [c]) cs)"

definition trim_line :: "string \<Rightarrow> string" where
  "trim_line line = TrimRight line CRLF"

definition stuffed :: "string \<Rightarrow> string" where
  "stuffed trimmed = (if HasPrefix trimmed ''.'' then ''.'' @ trimmed else trimmed) @ CRLF"

text \<open>The loop of \<^verbatim>\<open>writeDotted\<close> over the lines.\<close>

fun dotted :: "int \<Rightarrow> bool \<Rightarrow> int \<Rightarrow> string list \<Rightarrow> string" where
  "dotted bodyLines headerDone emitted [] = []"
| "dotted bodyLines headerDone emitted (line # lines) =
    (let trimmed = trim_line line
     in if \<not> headerDone \<and> trimmed = [] then stuffed trimmed @ dotted bodyLines True emitted lines
        else if headerDone \<and> 0 \<le> bodyLines then
          if bodyLines \<le> emitted then [] else stuffed trimmed @ dotted bodyLines headerDone (emitted + 1) lines
        else stuffed trimmed @ dotted bodyLines headerDone emitted lines)"

definition writeDotted :: "string \<Rightarrow> int \<Rightarrow> string" where
  "writeDotted body bodyLines = dotted bodyLines (bodyLines < 0) 0 (read_lines [] body) @ ''.'' @ CRLF"

section \<open>Commands\<close>

type_synonym pop_result = "string \<times> pop3Session \<times> fsys"

definition capabilities :: "mail_server \<Rightarrow> pop3Session \<Rightarrow> string" where
  "capabilities srv p =
    pop_ok ''capability list follows''
    @ concat (map (\<lambda>line. line @ CRLF)
        ([''TOP'', ''USER'', ''UIDL''] @ (if tlsOn srv \<and> \<not> popTLS p then [''STLS''] else [])))
    @ ''.'' @ CRLF"

definition startTLS :: "mail_server \<Rightarrow> bool \<Rightarrow> pop3Session \<Rightarrow> string \<times> bool \<times> pop3Session" where
  "startTLS srv handshake p =
    (if \<not> tlsOn srv then (pop_err ''TLS not configured'', True, p)
     else if popTLS p then (pop_err ''already using TLS'', True, p)
     else if \<not> handshake then (pop_ok ''begin TLS negotiation'', False, p)
     else (pop_ok ''begin TLS negotiation'', True, p\<lparr>popTLS := True\<rparr>))"

definition pass :: "mail_server \<Rightarrow> time \<Rightarrow> string \<Rightarrow> pop3Session \<Rightarrow> fsys \<Rightarrow> pop_result" where
  "pass srv now password p fs =
    (if popAccount p \<noteq> None then (pop_err ''already authenticated'', p, fs)
     else if popUser p = [] then (pop_err ''send USER first'', p, fs)
     else if tlsOn srv \<and> \<not> popTLS p then (pop_err ''STLS required before authentication'', p, fs)
     else (case server_login srv (popUser p) password fs of
         (None, fs1) \<Rightarrow> (pop_err ''authentication failed'', p, fs1)
       | (Some account, fs1) \<Rightarrow>
           (case take_snapshot (server_dir srv) now (acctUID account) Inbox fs1 of
              (Inl _, fs2) \<Rightarrow> (pop_err ''mailbox unavailable'', p, fs2)
            | (Inr snapshot, fs2) \<Rightarrow>
                (pop_ok (''mailbox ready, '' @ Itoa (int (length (snapMessages snapshot))) @ '' messages''),
                 p\<lparr>popAccount := Some account, popSnapshot := Some snapshot\<rparr>, fs2))))"

text \<open>A 1-based message number against the snapshot: the error answer, or the number and the message.\<close>

definition pop_message :: "string \<Rightarrow> pop3Session \<Rightarrow> string + int \<times> Message" where
  "pop_message argument p =
    (if popAccount p = None then Inl (pop_err ''not authenticated'')
     else (case ParseInt argument of
         None \<Rightarrow> Inl (pop_err ''no such message'')
       | Some number \<Rightarrow>
           if number < 1 \<or> int (length (pop_messages p)) < number then Inl (pop_err ''no such message'')
           else
             let msg = pop_messages p ! nat (number - 1)
             in if msgUID msg \<in> set (popDeleted p) then Inl (pop_err ''message is deleted'')
                else Inr (number, msg)))"

definition pop_visible :: "pop3Session \<Rightarrow> (int \<times> Message) list" where
  "pop_visible p =
    filter (\<lambda>(i, msg). msgUID msg \<notin> set (popDeleted p)) (zip (map (\<lambda>i. int i + 1) [0..<length (pop_messages p)]) (pop_messages p))"

definition stat :: "pop3Session \<Rightarrow> string" where
  "stat p =
    (if popAccount p = None then pop_err ''not authenticated''
     else
       let (n, total) = foldl (\<lambda>(n, total) (i, msg). (n + 1, total + (ucast (msgSize msg) :: u64))) (0 :: int, 0) (pop_visible p)
       in pop_ok (Itoa n @ '' '' @ nat_str (unat total)))"

definition pop_listing :: "string \<Rightarrow> (Message \<Rightarrow> string) \<Rightarrow> string \<Rightarrow> pop3Session \<Rightarrow> string" where
  "pop_listing title column argument p =
    (if argument \<noteq> [] then
       (case pop_message argument p of
          Inl answer \<Rightarrow> answer
        | Inr (number, msg) \<Rightarrow> pop_ok (Itoa number @ '' '' @ column msg))
     else if popAccount p = None then pop_err ''not authenticated''
     else pop_ok title @ concat (map (\<lambda>(i, msg). Itoa i @ '' '' @ column msg @ CRLF) (pop_visible p)) @ ''.'' @ CRLF)"

definition pop_list :: "string \<Rightarrow> pop3Session \<Rightarrow> string" where
  "pop_list argument p = pop_listing ''scan listing follows'' (\<lambda>msg. fmt_u32 (msgSize msg)) argument p"

definition pop_uid :: "pop3Session \<Rightarrow> Message \<Rightarrow> string" where
  "pop_uid p msg =
    fmt_u32 (case popSnapshot p of None \<Rightarrow> 0 | Some s \<Rightarrow> snapUIDValidity s) @ ''.'' @ fmt_u32 (msgUID msg)"

definition uidl :: "string \<Rightarrow> pop3Session \<Rightarrow> string" where
  "uidl argument p = pop_listing ''unique-id listing follows'' (pop_uid p) argument p"

text \<open>The UID of the account of an authenticated session.\<close>

definition pop_owner :: "pop3Session \<Rightarrow> int" where
  "pop_owner p = (case popAccount p of None \<Rightarrow> 0 | Some a \<Rightarrow> acctUID a)"

definition retr :: "mail_server \<Rightarrow> time \<Rightarrow> string \<Rightarrow> pop3Session \<Rightarrow> fsys \<Rightarrow> pop_result" where
  "retr srv now argument p fs =
    (case pop_message argument p of
       Inl answer \<Rightarrow> (answer, p, fs)
     | Inr (number, msg) \<Rightarrow>
         (case Body (server_dir srv) (pop_owner p) Inbox msg fs of
            (Inl _, fs1) \<Rightarrow> (pop_err ''message unavailable'', p, fs1)
          | (Inr body, fs1) \<Rightarrow>
              (pop_ok (Itoa (int (length body)) @ '' octets'') @ writeDotted body (- 1), p,
               snd (SetFlags (server_dir srv) now (pop_owner p) Inbox [msgUID msg] [FlagSeen] FlagsAdd fs1))))"

definition pop_top :: "mail_server \<Rightarrow> string \<Rightarrow> pop3Session \<Rightarrow> fsys \<Rightarrow> pop_result" where
  "pop_top srv argument p fs =
    (case Fields argument of
       [number, limit] \<Rightarrow>
         (case ParseInt limit of
            None \<Rightarrow> (pop_err ''invalid line count'', p, fs)
          | Some lines \<Rightarrow>
              if lines < 0 then (pop_err ''invalid line count'', p, fs)
              else (case pop_message number p of
                  Inl answer \<Rightarrow> (answer, p, fs)
                | Inr (_, msg) \<Rightarrow>
                    (case Body (server_dir srv) (pop_owner p) Inbox msg fs of
                       (Inl _, fs1) \<Rightarrow> (pop_err ''message unavailable'', p, fs1)
                     | (Inr body, fs1) \<Rightarrow> (pop_ok ''top of message follows'' @ writeDotted body lines, p, fs1))))
     | _ \<Rightarrow> (pop_err ''usage: TOP msg lines'', p, fs))"

definition dele :: "string \<Rightarrow> pop3Session \<Rightarrow> string \<times> pop3Session" where
  "dele argument p =
    (case pop_message argument p of
       Inl answer \<Rightarrow> (answer, p)
     | Inr (_, msg) \<Rightarrow> (pop_ok ''message marked for deletion'', p\<lparr>popDeleted := List.insert (msgUID msg) (popDeleted p)\<rparr>))"

definition rset :: "pop3Session \<Rightarrow> string \<times> pop3Session" where
  "rset p =
    (if popAccount p = None then (pop_err ''not authenticated'', p)
     else (pop_ok ''deletions cleared'', p\<lparr>popDeleted := []\<rparr>))"

definition quit :: "mail_server \<Rightarrow> time \<Rightarrow> pop3Session \<Rightarrow> fsys \<Rightarrow> pop_result" where
  "quit srv now p fs =
    (if popAccount p = None \<or> popDeleted p = [] then (pop_ok ''bye'', p, fs)
     else (case Remove (server_dir srv) now (pop_owner p) Inbox (popDeleted p) fs of
         (Inl _, fs1) \<Rightarrow> (pop_err ''could not delete messages'', p, fs1)
       | (Inr _, fs1) \<Rightarrow> (pop_ok ''bye'', p, fs1)))"

section \<open>A session\<close>

definition handle :: "mail_server \<Rightarrow> bool \<Rightarrow> time \<Rightarrow> string \<Rightarrow> string \<Rightarrow> pop3Session \<Rightarrow> fsys
    \<Rightarrow> string \<times> bool \<times> pop3Session \<times> fsys" where
  "handle srv handshake now command argument p fs =
    (if command = ''CAPA'' then (capabilities srv p, True, p, fs)
     else if command = ''STLS'' then (case startTLS srv handshake p of (out, goesOn, p') \<Rightarrow> (out, goesOn, p', fs))
     else if command = ''USER'' then (pop_ok ''send PASS'', True, p\<lparr>popUser := argument\<rparr>, fs)
     else if command = ''PASS'' then (case pass srv now argument p fs of (out, p', fs') \<Rightarrow> (out, True, p', fs'))
     else if command = ''QUIT'' then (case quit srv now p fs of (out, p', fs') \<Rightarrow> (out, False, p', fs'))
     else if command = ''NOOP'' then (pop_ok [], True, p, fs)
     else if command = ''STAT'' then (stat p, True, p, fs)
     else if command = ''LIST'' then (pop_list argument p, True, p, fs)
     else if command = ''UIDL'' then (uidl argument p, True, p, fs)
     else if command = ''RETR'' then (case retr srv now argument p fs of (out, p', fs') \<Rightarrow> (out, True, p', fs'))
     else if command = ''TOP'' then (case pop_top srv argument p fs of (out, p', fs') \<Rightarrow> (out, True, p', fs'))
     else if command = ''DELE'' then (case dele argument p of (out, p') \<Rightarrow> (out, True, p', fs))
     else if command = ''RSET'' then (case rset p of (out, p') \<Rightarrow> (out, True, p', fs))
     else (pop_err ''unknown command'', True, p, fs))"

definition parse_command :: "string \<Rightarrow> string \<times> string" where
  "parse_command line0 =
    (let line = TrimRight line0 CRLF;
         index = IndexByte line (CHR '' '')
     in if 0 \<le> index then (ToUpper (take (nat index) line), TrimSpace (drop (nat index + 1) line))
        else (ToUpper line, []))"

text \<open>
  The loop of a session over the lines the client sends; each comes with the outcome of a TLS
  handshake, the time, and what the rest of the service does to the files before it.
\<close>

record pop_input =
  popLine :: string
  popHandshake :: bool
  popNow :: time
  popMeanwhile :: "fsys \<Rightarrow> fsys"

fun serve_lines :: "mail_server \<Rightarrow> pop_input list \<Rightarrow> pop3Session \<Rightarrow> fsys \<Rightarrow> string \<times> pop3Session \<times> fsys" where
  "serve_lines srv [] p fs = ([], p, fs)"
| "serve_lines srv (i # is) p fs =
    (case parse_command (popLine i) of (command, argument) \<Rightarrow>
     (case handle srv (popHandshake i) (popNow i) command argument p (popMeanwhile i fs) of (out, goesOn, p', fs') \<Rightarrow>
      if goesOn then (case serve_lines srv is p' fs' of (out', p'', fs'') \<Rightarrow> (out @ out', p'', fs''))
      else (out, p', fs')))"

definition pop_serve :: "mail_server \<Rightarrow> bool \<Rightarrow> pop_input list \<Rightarrow> fsys \<Rightarrow> string \<times> pop3Session \<times> fsys" where
  "pop_serve srv tls is fs =
    (case serve_lines srv is (new_pop3 tls) fs of (out, p, fs') \<Rightarrow> (pop_ok ''Astraccounts POP3 ready'' @ out, p, fs'))"

text \<open>
  The accept loop: a connection, which may come wrapped in TLS by its listener, starts a session;
  the first failing accept ends the loop.
\<close>

fun servePOP3 :: "bool \<Rightarrow> bool option list \<Rightarrow> pop3Session list" where
  "servePOP3 implicitTLS [] = []"
| "servePOP3 implicitTLS (None # conns) = []"
| "servePOP3 implicitTLS (Some wrapped # conns) = new_pop3 (wrapped \<or> implicitTLS) # servePOP3 implicitTLS conns"

end
