(* ===== verification/Imap.thy ===== *)
theory Imap
  imports SmtpSessions
begin

text \<open>
  The IMAP backend, \<^verbatim>\<open>mail/imap.go\<close>: what the protocol engine calls for a user and a
  mailbox. The engine, the parsers of messages and the matcher of search criteria
  are not under the repository: they are parameters, collected in a record. A
  sequence set is the test whether it contains a number. A method that calls the
  store more than once takes what the rest of the service does to the files in
  between as an argument.
\<close>

section \<open>The library\<close>

record ('h, 'env, 'str, 'sec, 'lit, 'ent, 'crit) imap_lib =
  libReadHeader :: "string \<Rightarrow> ('h \<times> string) option"
  libEnvelope :: "'h \<Rightarrow> 'env"
  libStructure :: "'h \<Rightarrow> string \<Rightarrow> bool \<Rightarrow> 'str"
  libSectionName :: "string \<Rightarrow> 'sec option"
  libSection :: "'h \<Rightarrow> string \<Rightarrow> 'sec \<Rightarrow> 'lit option"
  libRead :: "string \<Rightarrow> 'ent option"
  libMatch :: "'ent \<Rightarrow> u32 \<Rightarrow> u32 \<Rightarrow> time \<Rightarrow> string list \<Rightarrow> 'crit \<Rightarrow> bool option"

type_synonym seqset = "u32 \<Rightarrow> bool"

section \<open>Users and mailboxes\<close>

datatype imaperr = ImapNoSuchMailbox | ImapMailboxAlreadyExists | ImapInvalidCredentials | ImapRead | ImapStore mailerr

definition translateError :: "mailerr \<Rightarrow> imaperr" where
  "translateError err =
    (if err = ErrNoSuchMailbox then ImapNoSuchMailbox
     else if err = ErrMailboxExists then ImapMailboxAlreadyExists
     else ImapStore err)"

definition translated :: "(mailerr + 'a) \<times> fsys \<Rightarrow> (imaperr + 'a) \<times> fsys" where
  "translated p = (case p of (Inl e, fs) \<Rightarrow> (Inl (translateError e), fs) | (Inr v, fs) \<Rightarrow> (Inr v, fs))"

record imapUser =
  imapAccount :: Account

record imapMailbox =
  imapOwner :: imapUser
  imapName :: string

abbreviation imap_uid :: "imapMailbox \<Rightarrow> int" where
  "imap_uid m \<equiv> acctUID (imapAccount (imapOwner m))"

definition imap_login :: "mail_server \<Rightarrow> string \<Rightarrow> string \<Rightarrow> fsys \<Rightarrow> (imaperr + imapUser) \<times> fsys" where
  "imap_login srv username password fs =
    (case server_login srv username password fs of
       (None, fs') \<Rightarrow> (Inl ImapInvalidCredentials, fs')
     | (Some account, fs') \<Rightarrow> (Inr \<lparr>imapAccount = account\<rparr>, fs'))"

definition imap_username :: "mail_server \<Rightarrow> imapUser \<Rightarrow> string" where
  "imap_username srv u = Address (imapAccount u) (Domain (cfg srv))"

text \<open>The loop of \<^verbatim>\<open>ListMailboxes\<close> over the names.\<close>

fun keep_subscribed :: "mail_server \<Rightarrow> time \<Rightarrow> bool \<Rightarrow> imapUser \<Rightarrow> string list \<Rightarrow> fsys \<Rightarrow> imapMailbox list \<times> fsys" where
  "keep_subscribed srv now subscribed u [] fs = ([], fs)"
| "keep_subscribed srv now subscribed u (name # names) fs =
    (let (keep, fs1) =
       (if subscribed then
          (case take_snapshot (server_dir srv) now (acctUID (imapAccount u)) name fs of
             (Inl _, fs1) \<Rightarrow> (False, fs1)
           | (Inr snapshot, fs1) \<Rightarrow> (snapSubscribed snapshot, fs1))
        else (True, fs))
     in case keep_subscribed srv now subscribed u names fs1 of (boxes, fs2) \<Rightarrow>
          (if keep then \<lparr>imapOwner = u, imapName = name\<rparr> # boxes else boxes, fs2))"

definition imap_ListMailboxes :: "mail_server \<Rightarrow> time \<Rightarrow> bool \<Rightarrow> imapUser \<Rightarrow> fsys \<Rightarrow> (imaperr + imapMailbox list) \<times> fsys" where
  "imap_ListMailboxes srv now subscribed u fs =
    (case ListMailboxes (server_dir srv) (acctUID (imapAccount u)) fs of
       (Inl e, fs1) \<Rightarrow> (Inl (ImapStore e), fs1)
     | (Inr names, fs1) \<Rightarrow>
         (case keep_subscribed srv now subscribed u names fs1 of (boxes, fs2) \<Rightarrow> (Inr boxes, fs2)))"

definition GetMailbox :: "mail_server \<Rightarrow> time \<Rightarrow> string \<Rightarrow> imapUser \<Rightarrow> fsys \<Rightarrow> (imaperr + imapMailbox) \<times> fsys" where
  "GetMailbox srv now name u fs =
    (case take_snapshot (server_dir srv) now (acctUID (imapAccount u)) name fs of
       (Inl e, fs') \<Rightarrow> (Inl (translateError e), fs')
     | (Inr _, fs') \<Rightarrow> (Inr \<lparr>imapOwner = u, imapName = CanonicalMailbox name\<rparr>, fs'))"

definition imap_CreateMailbox :: "mail_server \<Rightarrow> time \<Rightarrow> string \<Rightarrow> imapUser \<Rightarrow> fsys \<Rightarrow> (imaperr + unit) \<times> fsys" where
  "imap_CreateMailbox srv now name u fs = translated (CreateMailbox (server_dir srv) now (acctUID (imapAccount u)) name fs)"

definition imap_DeleteMailbox :: "mail_server \<Rightarrow> string \<Rightarrow> imapUser \<Rightarrow> fsys \<Rightarrow> (imaperr + unit) \<times> fsys" where
  "imap_DeleteMailbox srv name u fs = translated (DeleteMailbox (server_dir srv) (acctUID (imapAccount u)) name fs)"

definition imap_RenameMailbox :: "mail_server \<Rightarrow> string \<Rightarrow> string \<Rightarrow> imapUser \<Rightarrow> fsys \<Rightarrow> (imaperr + unit) \<times> fsys" where
  "imap_RenameMailbox srv from to u fs = translated (RenameMailbox (server_dir srv) (acctUID (imapAccount u)) from to fs)"

section \<open>Status\<close>

definition imap_snapshot :: "mail_server \<Rightarrow> time \<Rightarrow> imapMailbox \<Rightarrow> fsys \<Rightarrow> (imaperr + Snapshot) \<times> fsys" where
  "imap_snapshot srv now m fs = translated (take_snapshot (server_dir srv) now (imap_uid m) (imapName m) fs)"

fun unseen_from :: "nat \<Rightarrow> Message list \<Rightarrow> u32" where
  "unseen_from i [] = 0"
| "unseen_from i (msg # msgs) = (if \<not> hasFlag (msgFlags msg) FlagSeen then word_of_nat (i + 1) else unseen_from (i + 1) msgs)"

definition unseenSeqNum :: "Snapshot \<Rightarrow> u32" where
  "unseenSeqNum snapshot = unseen_from 0 (snapMessages snapshot)"

datatype status_item = StatusMessages | StatusUidNext | StatusUidValidity | StatusRecent | StatusUnseen | StatusOther

record mailbox_status =
  statName :: string
  statFlags :: "string list"
  statPermanentFlags :: "string list"
  statUnseenSeqNum :: u32
  statMessages :: u32
  statUidNext :: u32
  statUidValidity :: u32
  statRecent :: u32
  statUnseen :: u32

definition status_item :: "Snapshot \<Rightarrow> mailbox_status \<Rightarrow> status_item \<Rightarrow> mailbox_status" where
  "status_item snapshot st item =
    (case item of
       StatusMessages \<Rightarrow> st\<lparr>statMessages := word_of_nat (length (snapMessages snapshot))\<rparr>
     | StatusUidNext \<Rightarrow> st\<lparr>statUidNext := snapUIDNext snapshot\<rparr>
     | StatusUidValidity \<Rightarrow> st\<lparr>statUidValidity := snapUIDValidity snapshot\<rparr>
     | StatusRecent \<Rightarrow> st\<lparr>statRecent := 0\<rparr>
     | StatusUnseen \<Rightarrow> st\<lparr>statUnseen := Unseen snapshot\<rparr>
     | StatusOther \<Rightarrow> st)"

definition Status :: "mail_server \<Rightarrow> time \<Rightarrow> status_item list \<Rightarrow> imapMailbox \<Rightarrow> fsys \<Rightarrow> (imaperr + mailbox_status) \<times> fsys" where
  "Status srv now items m fs =
    (case imap_snapshot srv now m fs of
       (Inl e, fs') \<Rightarrow> (Inl e, fs')
     | (Inr snapshot, fs') \<Rightarrow>
         let flags = [FlagSeen, FlagAnswered, FlagFlagged, FlagDeleted, FlagDraft];
             st = \<lparr>statName = imapName m, statFlags = flags, statPermanentFlags = flags @ [[CHR 0x5C, CHR ''*'']],
                   statUnseenSeqNum = unseenSeqNum snapshot, statMessages = 0, statUidNext = 0, statUidValidity = 0,
                   statRecent = 0, statUnseen = 0\<rparr>
         in (Inr (foldl (status_item snapshot) st items), fs'))"

definition imap_SetSubscribed :: "mail_server \<Rightarrow> time \<Rightarrow> bool \<Rightarrow> imapMailbox \<Rightarrow> fsys \<Rightarrow> (imaperr + unit) \<times> fsys" where
  "imap_SetSubscribed srv now subscribed m fs =
    translated (SetSubscribed (server_dir srv) now (imap_uid m) (imapName m) subscribed fs)"

section \<open>Reading messages\<close>

definition msg_identifier :: "bool \<Rightarrow> u32 \<Rightarrow> u32 \<Rightarrow> u32" where
  "msg_identifier uid seqNum u = (if uid then u else seqNum)"

datatype fetch_item = FetchFlags | FetchInternalDate | FetchRFC822Size | FetchUid | FetchEnvelope | FetchBody | FetchBodyStructure
  | FetchOther string

record ('env, 'str, 'sec, 'lit) fetched =
  fetSeqNum :: u32
  fetFlags :: "string list"
  fetDate :: time
  fetSize :: u32
  fetUid :: u32
  fetEnvelope :: "'env option"
  fetStructure :: "'str option"
  fetBody :: "('sec \<times> 'lit) list"

definition new_fetched :: "u32 \<Rightarrow> ('env, 'str, 'sec, 'lit) fetched" where
  "new_fetched seqNum = \<lparr>fetSeqNum = seqNum, fetFlags = [], fetDate = zeroTime, fetSize = 0, fetUid = 0, fetEnvelope = None,
     fetStructure = None, fetBody = []\<rparr>"

text \<open>The closure that reads the body at most once: the cached body is threaded through.\<close>

definition load :: "mail_server \<Rightarrow> imapMailbox \<Rightarrow> Message \<Rightarrow> string option \<Rightarrow> fsys \<Rightarrow> (mailerr + string) \<times> fsys" where
  "load srv m msg body fs =
    (case body of Some b \<Rightarrow> (Inr b, fs) | None \<Rightarrow> Body (server_dir srv) (imap_uid m) (imapName m) msg fs)"

text \<open>One item of a fetch from a loaded body: nothing if the header does not parse.\<close>

definition body_item :: "('h, 'env, 'str, 'sec, 'lit, 'ent, 'crit) imap_lib \<Rightarrow> fetch_item \<Rightarrow> string
    \<Rightarrow> ('env, 'str, 'sec, 'lit) fetched \<Rightarrow> ('env, 'str, 'sec, 'lit) fetched option" where
  "body_item lib item raw f =
    (case libReadHeader lib raw of
       None \<Rightarrow> None
     | Some (header, rest) \<Rightarrow>
         Some (case item of
             FetchEnvelope \<Rightarrow> f\<lparr>fetEnvelope := Some (libEnvelope lib header)\<rparr>
           | FetchBody \<Rightarrow> f\<lparr>fetStructure := Some (libStructure lib header rest False)\<rparr>
           | FetchBodyStructure \<Rightarrow> f\<lparr>fetStructure := Some (libStructure lib header rest True)\<rparr>
           | FetchOther name \<Rightarrow>
               (case libSectionName lib name of
                  None \<Rightarrow> f
                | Some sec \<Rightarrow>
                    (case libSection lib header rest sec of
                       None \<Rightarrow> f
                     | Some literal \<Rightarrow> f\<lparr>fetBody := fetBody f @ [(sec, literal)]\<rparr>))
           | _ \<Rightarrow> f))"

text \<open>Whether an item needs the body.\<close>

definition needs_body :: "('h, 'env, 'str, 'sec, 'lit, 'ent, 'crit) imap_lib \<Rightarrow> fetch_item \<Rightarrow> bool" where
  "needs_body lib item =
    (case item of FetchEnvelope \<Rightarrow> True | FetchBody \<Rightarrow> True | FetchBodyStructure \<Rightarrow> True
       | FetchOther name \<Rightarrow> libSectionName lib name \<noteq> None | _ \<Rightarrow> False)"

definition plain_item :: "fetch_item \<Rightarrow> Message \<Rightarrow> ('env, 'str, 'sec, 'lit) fetched \<Rightarrow> ('env, 'str, 'sec, 'lit) fetched" where
  "plain_item item msg f =
    (case item of FetchFlags \<Rightarrow> f\<lparr>fetFlags := msgFlags msg\<rparr> | FetchInternalDate \<Rightarrow> f\<lparr>fetDate := msgDate msg\<rparr>
       | FetchRFC822Size \<Rightarrow> f\<lparr>fetSize := msgSize msg\<rparr> | FetchUid \<Rightarrow> f\<lparr>fetUid := msgUID msg\<rparr> | _ \<Rightarrow> f)"

fun fetch_items :: "('h, 'env, 'str, 'sec, 'lit, 'ent, 'crit) imap_lib \<Rightarrow> mail_server \<Rightarrow> imapMailbox \<Rightarrow> Message \<Rightarrow> fetch_item list
    \<Rightarrow> string option \<Rightarrow> ('env, 'str, 'sec, 'lit) fetched \<Rightarrow> fsys \<Rightarrow> ('env, 'str, 'sec, 'lit) fetched option \<times> fsys" where
  "fetch_items lib srv m msg [] body f fs = (Some f, fs)"
| "fetch_items lib srv m msg (item # items) body f fs =
    (if needs_body lib item then
       (case load srv m msg body fs of
          (Inl _, fs1) \<Rightarrow> (None, fs1)
        | (Inr raw, fs1) \<Rightarrow>
            (case body_item lib item raw f of
               None \<Rightarrow> (None, fs1)
             | Some f' \<Rightarrow> fetch_items lib srv m msg items (Some raw) f' fs1))
     else fetch_items lib srv m msg items body (plain_item item msg f) fs)"

definition fetch :: "('h, 'env, 'str, 'sec, 'lit, 'ent, 'crit) imap_lib \<Rightarrow> mail_server \<Rightarrow> imapMailbox \<Rightarrow> Message \<Rightarrow> u32 \<Rightarrow> fetch_item list
    \<Rightarrow> fsys \<Rightarrow> ('env, 'str, 'sec, 'lit) fetched option \<times> fsys" where
  "fetch lib srv m msg seqNum items fs = fetch_items lib srv m msg items None (new_fetched seqNum) fs"

fun list_messages :: "('h, 'env, 'str, 'sec, 'lit, 'ent, 'crit) imap_lib \<Rightarrow> mail_server \<Rightarrow> imapMailbox \<Rightarrow> bool \<Rightarrow> seqset \<Rightarrow> fetch_item list
    \<Rightarrow> nat \<Rightarrow> Message list \<Rightarrow> fsys \<Rightarrow> ('env, 'str, 'sec, 'lit) fetched list \<times> fsys" where
  "list_messages lib srv m uid seqs items i [] fs = ([], fs)"
| "list_messages lib srv m uid seqs items i (msg # msgs) fs =
    (let seqNum = word_of_nat (i + 1)
     in if \<not> seqs (msg_identifier uid seqNum (msgUID msg)) then list_messages lib srv m uid seqs items (i + 1) msgs fs
        else (case fetch lib srv m msg seqNum items fs of (found, fs1) \<Rightarrow>
          (case list_messages lib srv m uid seqs items (i + 1) msgs fs1 of (rest, fs2) \<Rightarrow>
            (case found of None \<Rightarrow> rest | Some f \<Rightarrow> f # rest, fs2))))"

definition ListMessages :: "('h, 'env, 'str, 'sec, 'lit, 'ent, 'crit) imap_lib \<Rightarrow> mail_server \<Rightarrow> time \<Rightarrow> bool \<Rightarrow> seqset \<Rightarrow> fetch_item list
    \<Rightarrow> imapMailbox \<Rightarrow> fsys \<Rightarrow> (imaperr + ('env, 'str, 'sec, 'lit) fetched list) \<times> fsys" where
  "ListMessages lib srv now uid seqs items m fs =
    (case imap_snapshot srv now m fs of
       (Inl e, fs1) \<Rightarrow> (Inl e, fs1)
     | (Inr snapshot, fs1) \<Rightarrow>
         (case list_messages lib srv m uid seqs items 0 (snapMessages snapshot) fs1 of (found, fs2) \<Rightarrow> (Inr found, fs2)))"

fun search_messages :: "('h, 'env, 'str, 'sec, 'lit, 'ent, 'crit) imap_lib \<Rightarrow> mail_server \<Rightarrow> imapMailbox \<Rightarrow> bool \<Rightarrow> 'crit
    \<Rightarrow> nat \<Rightarrow> Message list \<Rightarrow> fsys \<Rightarrow> u32 list \<times> fsys" where
  "search_messages lib srv m uid criteria i [] fs = ([], fs)"
| "search_messages lib srv m uid criteria i (msg # msgs) fs =
    (let seqNum = word_of_nat (i + 1)
     in case Body (server_dir srv) (imap_uid m) (imapName m) msg fs of
          (Inl _, fs1) \<Rightarrow> search_messages lib srv m uid criteria (i + 1) msgs fs1
        | (Inr raw, fs1) \<Rightarrow>
            (case search_messages lib srv m uid criteria (i + 1) msgs fs1 of (ids, fs2) \<Rightarrow>
              (case libRead lib raw of
                 None \<Rightarrow> ids
               | Some entity \<Rightarrow>
                   if libMatch lib entity seqNum (msgUID msg) (msgDate msg) (msgFlags msg) criteria = Some True
                   then msg_identifier uid seqNum (msgUID msg) # ids else ids, fs2)))"

definition SearchMessages :: "('h, 'env, 'str, 'sec, 'lit, 'ent, 'crit) imap_lib \<Rightarrow> mail_server \<Rightarrow> time \<Rightarrow> bool \<Rightarrow> 'crit
    \<Rightarrow> imapMailbox \<Rightarrow> fsys \<Rightarrow> (imaperr + u32 list) \<times> fsys" where
  "SearchMessages lib srv now uid criteria m fs =
    (case imap_snapshot srv now m fs of
       (Inl e, fs1) \<Rightarrow> (Inl e, fs1)
     | (Inr snapshot, fs1) \<Rightarrow>
         (case search_messages lib srv m uid criteria 0 (snapMessages snapshot) fs1 of (ids, fs2) \<Rightarrow> (Inr ids, fs2)))"

section \<open>Changing messages\<close>

definition CreateMessage :: "mail_server \<Rightarrow> time \<Rightarrow> string list \<Rightarrow> time \<Rightarrow> reader \<Rightarrow> imapMailbox \<Rightarrow> fsys \<Rightarrow> (imaperr + u32) \<times> fsys" where
  "CreateMessage srv now flags date body m fs =
    (case ReadAll body of
       None \<Rightarrow> (Inl ImapRead, fs)
     | Some raw \<Rightarrow>
         translated (Append (server_dir srv) now (imap_uid m) (imapName m) flags date (normaliseLineEndings raw) fs))"

fun resolve_from :: "bool \<Rightarrow> seqset \<Rightarrow> nat \<Rightarrow> Message list \<Rightarrow> u32 list" where
  "resolve_from uid seqs i [] = []"
| "resolve_from uid seqs i (msg # msgs) =
    (if seqs (msg_identifier uid (word_of_nat (i + 1)) (msgUID msg)) then msgUID msg # resolve_from uid seqs (i + 1) msgs
     else resolve_from uid seqs (i + 1) msgs)"

definition resolve :: "mail_server \<Rightarrow> time \<Rightarrow> bool \<Rightarrow> seqset \<Rightarrow> imapMailbox \<Rightarrow> fsys \<Rightarrow> (imaperr + u32 list) \<times> fsys" where
  "resolve srv now uid seqs m fs =
    (case imap_snapshot srv now m fs of
       (Inl e, fs') \<Rightarrow> (Inl e, fs')
     | (Inr snapshot, fs') \<Rightarrow> (Inr (resolve_from uid seqs 0 (snapMessages snapshot)), fs'))"

datatype imap_flags_op = ImapSetFlags | ImapAddFlags | ImapRemoveFlags | ImapUnknownFlags

definition flag_op :: "imap_flags_op \<Rightarrow> FlagOp option" where
  "flag_op operation =
    (case operation of ImapSetFlags \<Rightarrow> Some FlagsSet | ImapAddFlags \<Rightarrow> Some FlagsAdd | ImapRemoveFlags \<Rightarrow> Some FlagsRemove
       | ImapUnknownFlags \<Rightarrow> None)"

definition UpdateMessagesFlags :: "mail_server \<Rightarrow> time \<Rightarrow> (fsys \<Rightarrow> fsys) \<Rightarrow> bool \<Rightarrow> seqset \<Rightarrow> imap_flags_op \<Rightarrow> string list
    \<Rightarrow> imapMailbox \<Rightarrow> fsys \<Rightarrow> (imaperr + unit) \<times> fsys" where
  "UpdateMessagesFlags srv now meanwhile uid seqs operation flags m fs =
    (case resolve srv now uid seqs m fs of
       (Inl e, fs1) \<Rightarrow> (Inl e, fs1)
     | (Inr uids, fs1) \<Rightarrow>
         (case flag_op operation of
            None \<Rightarrow> (Inr (), fs1)
          | Some op \<Rightarrow> translated (SetFlags (server_dir srv) now (imap_uid m) (imapName m) uids flags op (meanwhile fs1))))"

definition CopyMessages :: "mail_server \<Rightarrow> time \<Rightarrow> (fsys \<Rightarrow> fsys) \<Rightarrow> bool \<Rightarrow> seqset \<Rightarrow> string \<Rightarrow> imapMailbox \<Rightarrow> fsys
    \<Rightarrow> (imaperr + unit) \<times> fsys" where
  "CopyMessages srv now meanwhile uid seqs dest m fs =
    (case resolve srv now uid seqs m fs of
       (Inl e, fs1) \<Rightarrow> (Inl e, fs1)
     | (Inr uids, fs1) \<Rightarrow> translated (Copy (server_dir srv) now (imap_uid m) (imapName m) dest uids (meanwhile fs1)))"

definition Expunge :: "mail_server \<Rightarrow> time \<Rightarrow> (fsys \<Rightarrow> fsys) \<Rightarrow> imapMailbox \<Rightarrow> fsys \<Rightarrow> (imaperr + unit) \<times> fsys" where
  "Expunge srv now meanwhile m fs =
    (case imap_snapshot srv now m fs of
       (Inl e, fs1) \<Rightarrow> (Inl e, fs1)
     | (Inr snapshot, fs1) \<Rightarrow>
         let doomed = Deleted snapshot
         in if doomed = [] then (Inr (), fs1)
            else translated (Remove (server_dir srv) now (imap_uid m) (imapName m) doomed (meanwhile fs1)))"

end
