(* ===== verification/Relay.thy ===== *)
theory Relay
  imports SmtpSessions
begin

text \<open>
  The worker of the outbound queue, \<^verbatim>\<open>mail/relay.go\<close>: finding mail hosts, one SMTP
  transaction, an attempt for a spooled message, bounces and the pass over the
  queue. The DNS resolver and the SMTP client library are parameters: a peer is
  what each call of the client returns. Iteration over a Go map is in an
  unspecified order, a parameter too.
\<close>

section \<open>Errors\<close>

datatype senderr = PermanentError string | SMTPReply int string | OtherError string

fun err_text :: "senderr \<Rightarrow> string" where
  "err_text (PermanentError t) = t"
| "err_text (SMTPReply code t) = t"
| "err_text (OtherError t) = t"

definition permanent :: "senderr \<Rightarrow> bool" where
  "permanent e =
    (case e of PermanentError _ \<Rightarrow> True | SMTPReply code _ \<Rightarrow> 500 \<le> code \<and> code < 600 | OtherError _ \<Rightarrow> False)"

section \<open>Mail hosts\<close>

text \<open>The answer of the resolver: records with their preference, an authoritative error, another error.\<close>

datatype mx_answer = MXRecords "(nat \<times> string) list" | MXNotFound string | MXFailed string

record network =
  lookupMX :: "string \<Rightarrow> mx_answer"
  lookupHost :: "string \<Rightarrow> bool"

definition mxHosts :: "('a) network_scheme \<Rightarrow> string \<Rightarrow> senderr + string list" where
  "mxHosts net domain =
    (case lookupMX net domain of
       MXFailed t \<Rightarrow> Inl (OtherError t)
     | MXNotFound t \<Rightarrow>
         if lookupHost net domain then Inr [domain]
         else Inl (PermanentError (''no mail host for '' @ domain @ '': '' @ t))
     | MXRecords records \<Rightarrow>
         let hosts = filter (\<lambda>h. h \<noteq> []) (map (\<lambda>r. TrimSuffix (snd r) ''.'') (sort_key fst records))
         in if hosts = [] then
              if lookupHost net domain then Inr [domain]
              else Inl (PermanentError (''domain '' @ domain @ '' accepts no mail''))
            else Inr hosts)"

section \<open>One transaction\<close>

datatype channel = TLSVerified | TLSUnverified | Cleartext

record smtp_peer =
  dialTLS :: "senderr option"
  dialStartTLS :: "bool \<Rightarrow> senderr option"
  dialPlain :: "senderr option"
  callHello :: "senderr option"
  callAuth :: "senderr option"
  callMail :: "senderr option"
  callRcpt :: "string \<Rightarrow> senderr option"
  callData :: "senderr option"
  callWrite :: "senderr option"
  callClose :: "senderr option"
  callQuit :: "senderr option"

text \<open>Opening the connection; \<open>dialStartTLS\<close> is asked with whether the certificate is verified.\<close>

definition connect :: "smtp_peer \<Rightarrow> bool \<Rightarrow> bool \<Rightarrow> senderr + channel" where
  "connect peer hasAuth implicitTLS =
    (if implicitTLS then (case dialTLS peer of None \<Rightarrow> Inr TLSVerified | Some e \<Rightarrow> Inl e)
     else if hasAuth then (case dialStartTLS peer True of None \<Rightarrow> Inr TLSVerified | Some e \<Rightarrow> Inl e)
     else (case dialStartTLS peer False of
         None \<Rightarrow> Inr TLSUnverified
       | Some _ \<Rightarrow> (case dialPlain peer of None \<Rightarrow> Inr Cleartext | Some e \<Rightarrow> Inl e)))"

fun first_error :: "senderr option list \<Rightarrow> senderr option" where
  "first_error [] = None"
| "first_error (c # cs) = (case c of Some e \<Rightarrow> Some e | None \<Rightarrow> first_error cs)"

text \<open>
  The calls of a transaction up to the one that ends the message; when it returns without an
  error the peer has accepted sender, recipients and message.
\<close>

type_synonym transmission = "string \<times> string list \<times> string"

definition transaction :: "smtp_peer \<Rightarrow> bool \<Rightarrow> string list \<Rightarrow> senderr option list" where
  "transaction peer hasAuth rcpts =
    [callHello peer] @ (if hasAuth then [callAuth peer] else []) @ [callMail peer] @ map (callRcpt peer) rcpts
    @ [callData peer, callWrite peer, callClose peer]"

definition sendTo :: "smtp_peer \<Rightarrow> bool \<Rightarrow> string \<Rightarrow> string list \<Rightarrow> string \<Rightarrow> bool \<Rightarrow> senderr option \<times> transmission list" where
  "sendTo peer hasAuth from rcpts message implicitTLS =
    (case connect peer hasAuth implicitTLS of
       Inl e \<Rightarrow> (Some e, [])
     | Inr _ \<Rightarrow>
         (case first_error (transaction peer hasAuth rcpts) of
            Some e \<Rightarrow> (Some e, [])
          | None \<Rightarrow> (callQuit peer, [(from, rcpts, message)])))"

section \<open>Delivery to a domain\<close>

text \<open>The peers reached at an address, when delivering for a domain.\<close>

record relay_net = network +
  peer_at :: "string \<Rightarrow> string \<Rightarrow> smtp_peer"

fun try_hosts :: "(string \<Rightarrow> senderr option \<times> transmission list) \<Rightarrow> string list \<Rightarrow> senderr option \<Rightarrow> transmission list
    \<Rightarrow> senderr option option \<times> transmission list" where
  "try_hosts send [] lastErr sent = (Some lastErr, sent)"
| "try_hosts send (h # hs) lastErr sent =
    (case send h of
       (None, ts) \<Rightarrow> (None, sent @ ts)
     | (Some e, ts) \<Rightarrow>
         if permanent e then (Some (Some e), sent @ ts) else try_hosts send hs (Some e) (sent @ ts))"

definition deliverSmarthost :: "mail_server \<Rightarrow> relay_net \<Rightarrow> string \<Rightarrow> string \<Rightarrow> string list \<Rightarrow> string
    \<Rightarrow> senderr option \<times> transmission list" where
  "deliverSmarthost srv net domain from rcpts message =
    (let (host, port) = (case SplitHostPort (SmarthostAddr (cfg srv)) of
                           None \<Rightarrow> (SmarthostAddr (cfg srv), ''587'') | Some hp \<Rightarrow> hp)
     in sendTo (peer_at net domain (JoinHostPort host port)) (SmarthostUser (cfg srv) \<noteq> []) from rcpts message (port = ''465''))"

definition deliverDomain :: "mail_server \<Rightarrow> relay_net \<Rightarrow> string \<Rightarrow> string \<Rightarrow> string list \<Rightarrow> string
    \<Rightarrow> senderr option \<times> transmission list" where
  "deliverDomain srv net domain from rcpts message =
    (if SmarthostAddr (cfg srv) \<noteq> [] then deliverSmarthost srv net domain from rcpts message
     else (case mxHosts net domain of
         Inl e \<Rightarrow> (Some e, [])
       | Inr hosts \<Rightarrow>
           (case try_hosts (\<lambda>h. sendTo (peer_at net domain (JoinHostPort h ''25'')) False from rcpts message False) hosts None [] of
              (None, ts) \<Rightarrow> (None, ts)
            | (Some None, ts) \<Rightarrow> (Some (OtherError (''no usable MX host for '' @ domain)), ts)
            | (Some (Some e), ts) \<Rightarrow> (Some e, ts))))"

section \<open>Bounces\<close>

definition bounce_body :: "mail_server \<Rightarrow> ambient \<Rightarrow> queueEntry \<Rightarrow> string list \<Rightarrow> string \<Rightarrow> string" where
  "bounce_body srv amb e rcpts cause =
    ''Received: by '' @ Hostname (cfg srv) @ '' with internal id '' @ randomID amb 0 @ ''; ''
      @ FormatRFC1123Z (zone srv) (clock amb 0) @ CRLF
    @ ''From: <MAILER-DAEMON@'' @ Domain (cfg srv) @ ''>'' @ CRLF
    @ ''To: <'' @ qFrom e @ ''>'' @ CRLF
    @ ''Subject: Undelivered mail returned to sender'' @ CRLF
    @ ''Date: '' @ FormatRFC1123Z (zone srv) (clock amb 1) @ CRLF
    @ ''Message-ID: <'' @ randomID amb 1 @ ''@'' @ Domain (cfg srv) @ ''>'' @ CRLF
    @ ''Content-Type: text/plain; charset=utf-8'' @ CRLF
    @ CRLF
    @ ''This message could not be delivered to:'' @ CRLF @ CRLF
    @ concat (map (\<lambda>r. ''    '' @ r @ CRLF) rcpts)
    @ CRLF @ ''Reason: '' @ cause @ CRLF
    @ ''Queue id: '' @ qID e @ '', attempts: '' @ Itoa (qAttempts e) @ '', first tried ''
      @ FormatRFC1123Z (zone srv) (qFirstTry e) @ CRLF"

definition bounce :: "mail_server \<Rightarrow> ambient \<Rightarrow> queueEntry \<Rightarrow> string list \<Rightarrow> string \<Rightarrow> fsys \<Rightarrow> fsys" where
  "bounce srv amb e rcpts cause fs =
    (case SplitAddress (qFrom e) of (local, domain, ok) \<Rightarrow>
     if \<not> ok \<or> \<not> isLocalDomain (cfg srv) domain then fs
     else (case FindByID (accountsRoot srv) local fs of
         (None, fs1) \<Rightarrow> fs1
       | (Some account, fs1) \<Rightarrow>
           snd (Append (server_dir srv) (clock amb 3) (acctUID account) Inbox [] (clock amb 2) (bounce_body srv amb e rcpts cause) fs1)))"

section \<open>An attempt\<close>

text \<open>
  The loop over the domains: the recipients to try again, the last error, what peers have
  accepted, and the state.
\<close>

fun attempt_groups :: "mail_server \<Rightarrow> relay_net \<Rightarrow> (nat \<Rightarrow> ambient) \<Rightarrow> queueEntry \<Rightarrow> string \<Rightarrow> nat \<Rightarrow> (string \<times> string list) list
    \<Rightarrow> string list \<Rightarrow> senderr option \<Rightarrow> transmission list \<Rightarrow> fsys \<Rightarrow> string list \<times> senderr option \<times> transmission list \<times> fsys" where
  "attempt_groups srv net amb e message k [] deferred lastErr sent fs = (deferred, lastErr, sent, fs)"
| "attempt_groups srv net amb e message k ((domain, rcpts) # gs) deferred lastErr sent fs =
    (case deliverDomain srv net domain (qFrom e) rcpts message of
       (None, ts) \<Rightarrow> attempt_groups srv net amb e message (k + 1) gs deferred lastErr (sent @ ts) fs
     | (Some err, ts) \<Rightarrow>
         if permanent err
         then attempt_groups srv net amb e message (k + 1) gs deferred (Some err) (sent @ ts)
                (bounce srv (amb k) e rcpts (err_text err) fs)
         else attempt_groups srv net amb e message (k + 1) gs (deferred @ rcpts) (Some err) (sent @ ts) fs)"

text \<open>The text of an entry is not modelled: a spooled body that is a document reads as an error.\<close>

definition attempt :: "mail_server \<Rightarrow> relay_net \<Rightarrow> ((string \<times> string list) list \<Rightarrow> (string \<times> string list) list)
    \<Rightarrow> (nat \<Rightarrow> ambient) \<Rightarrow> time \<Rightarrow> queueEntry \<Rightarrow> fsys \<Rightarrow> transmission list \<times> fsys" where
  "attempt srv net order amb now entry fs =
    (case ReadFile (bodyPath (queueDir srv) (qID entry)) fs of
       (Inr (Bytes message), fs1) \<Rightarrow>
         let e = entry\<lparr>qAttempts := wrap64 (qAttempts entry + 1)\<rparr>
         in (case attempt_groups srv net amb e message 1 (order (groupByDomain (qTo entry))) [] None [] fs1 of
               (deferred, lastErr, sent, fs2) \<Rightarrow>
                 (sent,
                  if deferred = [] then queue_remove (queueDir srv) (qID entry) fs2
                  else if queueMaxAttempts \<le> qAttempts e then
                    queue_remove (queueDir srv) (qID entry)
                      (bounce srv (amb 0) e deferred (''gave up after '' @ Itoa (qAttempts e) @ '' attempts: ''
                         @ (case lastErr of None \<Rightarrow> ''<nil>'' | Some err \<Rightarrow> err_text err)) fs2)
                  else snd (writeEntry (queueDir srv)
                         (e\<lparr>qTo := deferred, qNextTry := now + backoff (qAttempts e),
                            qLastError := (case lastErr of None \<Rightarrow> qLastError e | Some err \<Rightarrow> err_text err)\<rparr>) fs2)))
     | (_, fs1) \<Rightarrow> ([], queue_remove (queueDir srv) (qID entry) fs1))"

section \<open>A pass over the queue\<close>

text \<open>
  What the environment is during a pass: whether the stop channel is closed before the \<open>k\<close>-th
  entry, the time, the network, the iteration order and the random source.
\<close>

record pass_env =
  stopAt :: "nat \<Rightarrow> bool"
  timeAt :: "nat \<Rightarrow> time"
  nextAt :: "nat \<Rightarrow> time"
  netAt :: "nat \<Rightarrow> relay_net"
  orderAt :: "nat \<Rightarrow> (string \<times> string list) list \<Rightarrow> (string \<times> string list) list"
  ambAt :: "nat \<Rightarrow> nat \<Rightarrow> ambient"

fun flush_files :: "mail_server \<Rightarrow> pass_env \<Rightarrow> nat \<Rightarrow> (string \<times> bool) list \<Rightarrow> transmission list \<Rightarrow> fsys \<Rightarrow> transmission list \<times> fsys" where
  "flush_files srv env k [] sent fs = (sent, fs)"
| "flush_files srv env k ((name, isDir) # entries) sent fs =
    (if isDir \<or> \<not> HasSuffix name ''.json'' then flush_files srv env (k + 1) entries sent fs
     else if stopAt env k then (sent, fs)
     else (case readEntry (queueDir srv) (TrimSuffix name ''.json'') fs of
         (Inl _, fs1) \<Rightarrow> flush_files srv env (k + 1) entries sent fs1
       | (Inr entry, fs1) \<Rightarrow>
           if timeAt env k < qNextTry entry then flush_files srv env (k + 1) entries sent fs1
           else (case attempt srv (netAt env k) (orderAt env k) (ambAt env k) (nextAt env k) entry fs1 of
               (ts, fs2) \<Rightarrow> flush_files srv env (k + 1) entries (sent @ ts) fs2)))"

definition flush :: "mail_server \<Rightarrow> pass_env \<Rightarrow> fsys \<Rightarrow> transmission list \<times> fsys" where
  "flush srv env fs =
    (case ReadDir (queueDir srv) fs of
       (Inl _, fs1) \<Rightarrow> ([], fs1)
     | (Inr entries, fs1) \<Rightarrow> flush_files srv env 0 entries [] fs1)"

text \<open>The worker: one pass at the start, then one for each wake-up or tick until it is stopped.\<close>

datatype queue_event = Stop | Wake pass_env | Tick pass_env

fun run_events :: "mail_server \<Rightarrow> queue_event list \<Rightarrow> fsys \<Rightarrow> fsys" where
  "run_events srv [] fs = fs"
| "run_events srv (Stop # evs) fs = fs"
| "run_events srv (Wake env # evs) fs = run_events srv evs (snd (flush srv env fs))"
| "run_events srv (Tick env # evs) fs = run_events srv evs (snd (flush srv env fs))"

definition run :: "mail_server \<Rightarrow> pass_env \<Rightarrow> queue_event list \<Rightarrow> fsys \<Rightarrow> fsys" where
  "run srv env evs fs = run_events srv evs (snd (flush srv env fs))"

end
