(* ===== verification/MailServer.thy ===== *)
theory MailServer
  imports Pop3 Imap Relay
begin

text \<open>
  The listeners of the mail server, \<^verbatim>\<open>mail/server.go\<close>: preparing a server, binding the
  configured addresses, starting the services and shutting down. The network is
  a parameter: binding an address, given the listeners already bound, gives the
  bound address or fails. A serving goroutine is an entry of the wait group; it
  ends when its listener is closed. Logging is left out.
\<close>

section \<open>State\<close>

record listener =
  lisRole :: string
  lisBound :: string
  lisTLS :: bool
  lisOpen :: bool

record smtp_service =
  svcSubmission :: bool
  svcDomain :: string
  svcMaxMessageBytes :: int
  svcMaxRecipients :: int
  svcReadTimeout :: int
  svcWriteTimeout :: int
  svcTLS :: bool
  svcAllowInsecureAuth :: bool

record imap_service =
  imapAddr :: string
  imapTLS :: bool
  imapAllowInsecureAuth :: bool
  imapLogout :: int

text \<open>What a goroutine of the wait group does: serve the listener of a role, or run the queue.\<close>

datatype routine = ServeSMTP string | ServePOP3 string | ServeIMAP string | RunQueue

record ('cert, 'key) Server =
  serverCfg :: Config
  serverTLS :: "'cert tls_config option"
  serverDKIM :: "'key option"
  serverQueueDir :: path
  closed :: bool
  listeners :: "listener list"
  addrs :: "(string \<times> string) list"
  smtpServers :: "smtp_service list"
  imapServers :: "imap_service list"
  wg :: "routine list"

definition New :: "(string \<Rightarrow> string \<Rightarrow> 'cert option) \<Rightarrow> (string \<Rightarrow> string option) \<Rightarrow> (string \<Rightarrow> string option) \<Rightarrow> (string \<Rightarrow> 'key option) \<Rightarrow>
    (string \<Rightarrow> 'key parsed_key option) \<Rightarrow> Config \<Rightarrow> path \<Rightarrow> config_error + ('cert, 'key) Server" where
  "New loadPair readKey pemDecode parsePKCS1 parsePKCS8 conf dataDir =
    (case tlsConfig loadPair conf of
       Inl e \<Rightarrow> Inl e
     | Inr tls \<Rightarrow>
         (case dkimSigner readKey pemDecode parsePKCS1 parsePKCS8 conf of
            Inl e \<Rightarrow> Inl e
          | Inr key \<Rightarrow>
              Inr \<lparr>serverCfg = conf, serverTLS = tls, serverDKIM = key,
                   serverQueueDir = (if QueueDir conf = [] then path_join dataDir ''queue'' else path_join [] (QueueDir conf)),
                   closed = False, listeners = [], addrs = [], smtpServers = [], imapServers = [], wg = []\<rparr>))"

definition Addr :: "string \<Rightarrow> ('cert, 'key) Server \<Rightarrow> string" where
  "Addr role s = (case map_of (addrs s) role of None \<Rightarrow> [] | Some a \<Rightarrow> a)"

definition closing :: "('cert, 'key) Server \<Rightarrow> bool" where
  "closing s = closed s"

section \<open>Starting\<close>

type_synonym binder_fun = "string \<Rightarrow> listener list \<Rightarrow> string option"

datatype listen_result = NoListener | ListenError string | Listening listener

definition listen :: "binder_fun \<Rightarrow> string \<Rightarrow> string \<Rightarrow> bool \<Rightarrow> ('cert, 'key) Server \<Rightarrow> listen_result \<times> ('cert, 'key) Server" where
  "listen bind role addr implicitTLS s =
    (if addr = [] then (NoListener, s)
     else if implicitTLS \<and> serverTLS s = None then (NoListener, s)
     else (case bind addr (listeners s) of
         None \<Rightarrow> (ListenError addr, s)
       | Some bound \<Rightarrow>
           let l = \<lparr>lisRole = role, lisBound = bound, lisTLS = implicitTLS, lisOpen = True\<rparr>
           in (Listening l, s\<lparr>listeners := listeners s @ [l], addrs := AList.update role bound (addrs s)\<rparr>)))"

definition startSMTP :: "binder_fun \<Rightarrow> string \<Rightarrow> string \<Rightarrow> bool \<Rightarrow> bool \<Rightarrow> ('cert, 'key) Server \<Rightarrow> string option \<times> ('cert, 'key) Server" where
  "startSMTP bind role addr sub implicitTLS s =
    (case listen bind role addr implicitTLS s of
       (NoListener, s') \<Rightarrow> (None, s')
     | (ListenError e, s') \<Rightarrow> (Some e, s')
     | (Listening l, s') \<Rightarrow>
         let svc = \<lparr>svcSubmission = sub, svcDomain = Hostname (serverCfg s'),
                    svcMaxMessageBytes = MaxMessageBytes (serverCfg s'), svcMaxRecipients = 100,
                    svcReadTimeout = smtpReadTimeout, svcWriteTimeout = smtpWriteTimeout,
                    svcTLS = (serverTLS s' \<noteq> None), svcAllowInsecureAuth = (serverTLS s' = None)\<rparr>
         in (None, s'\<lparr>smtpServers := smtpServers s' @ [svc], wg := wg s' @ [ServeSMTP role]\<rparr>))"

definition startPOP3 :: "binder_fun \<Rightarrow> string \<Rightarrow> string \<Rightarrow> bool \<Rightarrow> ('cert, 'key) Server \<Rightarrow> string option \<times> ('cert, 'key) Server" where
  "startPOP3 bind role addr implicitTLS s =
    (case listen bind role addr implicitTLS s of
       (NoListener, s') \<Rightarrow> (None, s')
     | (ListenError e, s') \<Rightarrow> (Some e, s')
     | (Listening l, s') \<Rightarrow> (None, s'\<lparr>wg := wg s' @ [ServePOP3 role]\<rparr>))"

definition startIMAP :: "binder_fun \<Rightarrow> string \<Rightarrow> string \<Rightarrow> bool \<Rightarrow> ('cert, 'key) Server \<Rightarrow> string option \<times> ('cert, 'key) Server" where
  "startIMAP bind role addr implicitTLS s =
    (case listen bind role addr implicitTLS s of
       (NoListener, s') \<Rightarrow> (None, s')
     | (ListenError e, s') \<Rightarrow> (Some e, s')
     | (Listening l, s') \<Rightarrow>
         let svc = \<lparr>imapAddr = addr, imapTLS = (serverTLS s' \<noteq> None), imapAllowInsecureAuth = (serverTLS s' = None),
                    imapLogout = imapAutoLogout\<rparr>
         in (None, s'\<lparr>imapServers := imapServers s' @ [svc], wg := wg s' @ [ServeIMAP role]\<rparr>))"

text \<open>The sequence of starts; the first error ends it.\<close>

fun start_all :: "(('cert, 'key) Server \<Rightarrow> string option \<times> ('cert, 'key) Server) list \<Rightarrow> ('cert, 'key) Server
    \<Rightarrow> string option \<times> ('cert, 'key) Server" where
  "start_all [] s = (None, s)"
| "start_all (f # fs) s = (case f s of (Some e, s') \<Rightarrow> (Some e, s') | (None, s') \<Rightarrow> start_all fs s')"

definition Start :: "binder_fun \<Rightarrow> ('cert, 'key) Server \<Rightarrow> string option \<times> ('cert, 'key) Server" where
  "Start bind s =
    (let c = serverCfg s
     in case start_all
          [startSMTP bind ''smtp'' (SMTPAddr c) False False,
           startSMTP bind ''submission'' (SubmissionAddr c) True False,
           startSMTP bind ''submission-tls'' (SubmissionTLSAddr c) True True,
           startPOP3 bind ''pop3'' (POP3Addr c) False,
           startPOP3 bind ''pop3-tls'' (POP3TLSAddr c) True,
           startIMAP bind ''imap'' (IMAPAddr c) False,
           startIMAP bind ''imap-tls'' (IMAPTLSAddr c) True] s of
          (Some e, s') \<Rightarrow> (Some e, s')
        | (None, s') \<Rightarrow> (None, if Relay c then s'\<lparr>wg := wg s' @ [RunQueue]\<rparr> else s'))"

section \<open>Stopping\<close>

text \<open>
  \<^verbatim>\<open>Shutdown\<close>: closing the listeners ends their goroutines; stopping the queue waits for its
  worker, which never comes if the worker was never started: then the call does not return.
\<close>

definition Shutdown :: "('cert, 'key) Server \<Rightarrow> ('cert, 'key) Server option" where
  "Shutdown s =
    (if closed s then Some s
     else
       let s' = s\<lparr>closed := True, listeners := map (\<lambda>l. l\<lparr>lisOpen := False\<rparr>) (listeners s)\<rparr>
       in if Relay (serverCfg s) \<and> RunQueue \<notin> set (wg s) then None
          else Some (s'\<lparr>wg := []\<rparr>))"


section \<open>What a start gives\<close>

text \<open>The configured listeners: role, address, implicit TLS.\<close>

definition listener_table :: "Config \<Rightarrow> (string \<times> string \<times> bool) list" where
  "listener_table c =
    [(''smtp'', SMTPAddr c, False), (''submission'', SubmissionAddr c, False), (''submission-tls'', SubmissionTLSAddr c, True),
     (''pop3'', POP3Addr c, False), (''pop3-tls'', POP3TLSAddr c, True), (''imap'', IMAPAddr c, False), (''imap-tls'', IMAPTLSAddr c, True)]"

text \<open>A listener is opened when it has an address and, for implicit TLS, there is a certificate.\<close>

definition wanted :: "bool \<Rightarrow> string \<times> string \<times> bool \<Rightarrow> bool" where
  "wanted tls row \<longleftrightarrow> (case row of (role, addr, implicitTLS) \<Rightarrow> addr \<noteq> [] \<and> (implicitTLS \<longrightarrow> tls))"

text \<open>The listeners that a server state has, and the policy of its services.\<close>

definition open_roles :: "('cert, 'key) Server \<Rightarrow> (string \<times> bool) list" where
  "open_roles s = map (\<lambda>l. (lisRole l, lisTLS l)) (filter lisOpen (listeners s))"

definition policy_ok :: "('cert, 'key) Server \<Rightarrow> bool" where
  "policy_ok s \<longleftrightarrow> (\<forall>svc\<in>set (smtpServers s). svcAllowInsecureAuth svc = (serverTLS s = None) \<and> svcTLS svc = (serverTLS s \<noteq> None)
      \<and> svcMaxMessageBytes svc = MaxMessageBytes (serverCfg s) \<and> svcMaxRecipients svc = 100)
    \<and> (\<forall>svc\<in>set (imapServers s). imapAllowInsecureAuth svc = (serverTLS s = None))"

text \<open>One start, of any kind: what it keeps and what it adds.\<close>

definition started :: "string \<times> string \<times> bool \<Rightarrow> bool option \<Rightarrow> string option \<Rightarrow> ('cert, 'key) Server \<Rightarrow> ('cert, 'key) Server \<Rightarrow> bool" where
  "started row kind err s s' \<longleftrightarrow>
    serverCfg s' = serverCfg s \<and> serverTLS s' = serverTLS s \<and> closed s' = closed s
    \<and> (RunQueue \<in> set (wg s') \<longleftrightarrow> RunQueue \<in> set (wg s)) \<and> (policy_ok s \<longrightarrow> policy_ok s')
    \<and> open_roles s' = open_roles s @ (if err = None \<and> wanted (serverTLS s \<noteq> None) row then [(fst row, snd (snd row))] else [])
    \<and> map svcSubmission (smtpServers s') = map svcSubmission (smtpServers s)
        @ (if err = None \<and> wanted (serverTLS s \<noteq> None) row then (case kind of Some sub \<Rightarrow> [sub] | None \<Rightarrow> []) else [])"


lemma started_one:
  "startSMTP bind role addr sub implicitTLS s = (err, s') \<Longrightarrow> started (role, addr, implicitTLS) (Some sub) err s s'"
  "startPOP3 bind role addr implicitTLS s = (err, s') \<Longrightarrow> started (role, addr, implicitTLS) None err s s'"
  "startIMAP bind role addr implicitTLS s = (err, s') \<Longrightarrow> started (role, addr, implicitTLS) None err s s'"
  by (auto simp: startSMTP_def startPOP3_def startIMAP_def listen_def started_def policy_ok_def open_roles_def wanted_def Let_def
      split: if_splits option.splits)

lemma start_all_None: "start_all (f # fs) s = (None, s') \<longleftrightarrow> (\<exists>s1. f s = (None, s1) \<and> start_all fs s1 = (None, s'))"
  by (auto split: prod.splits option.splits)

lemma start_all_Some:
  "start_all (f # fs) s = (Some e, s') \<longleftrightarrow> f s = (Some e, s') \<or> (\<exists>s1. f s = (None, s1) \<and> start_all fs s1 = (Some e, s'))"
  by (auto split: prod.splits option.splits)

text \<open>
  What a successful start gives. Starting a fresh server without an error opens exactly the
  configured listeners in their order: those with an address, the implicit-TLS ones only when
  there is a certificate. Only the first SMTP service takes mail from anybody, the others are for
  submission; no SMTP or IMAP service accepts a password in cleartext when there is a
  certificate; the queue runs exactly when relaying is on. Shutting down then returns, with every
  listener closed and no goroutine left.
\<close>

lemma Start_listeners:
  assumes "Start bind s = (None, s')" "listeners s = []" "smtpServers s = []" "imapServers s = []" "wg s = []" "\<not> closed s"
  shows "open_roles s' = map (\<lambda>(role, addr, tls). (role, tls)) (filter (wanted (serverTLS s \<noteq> None)) (listener_table (serverCfg s)))
    \<and> map svcSubmission (smtpServers s') = map (\<lambda>(role, addr, tls). role \<noteq> ''smtp'')
        (filter (wanted (serverTLS s \<noteq> None)) (take 3 (listener_table (serverCfg s))))
    \<and> policy_ok s' \<and> (RunQueue \<in> set (wg s') \<longleftrightarrow> Relay (serverCfg s))
    \<and> (\<exists>s2. Shutdown s' = Some s2 \<and> open_roles s2 = [] \<and> wg s2 = [])"
proof -
  let ?c = "serverCfg s"
  obtain sA sB sC sD sE sF sG where
    st: "startSMTP bind ''smtp'' (SMTPAddr ?c) False False s = (None, sA)"
      "startSMTP bind ''submission'' (SubmissionAddr ?c) True False sA = (None, sB)"
      "startSMTP bind ''submission-tls'' (SubmissionTLSAddr ?c) True True sB = (None, sC)"
      "startPOP3 bind ''pop3'' (POP3Addr ?c) False sC = (None, sD)" "startPOP3 bind ''pop3-tls'' (POP3TLSAddr ?c) True sD = (None, sE)"
      "startIMAP bind ''imap'' (IMAPAddr ?c) False sE = (None, sF)" "startIMAP bind ''imap-tls'' (IMAPTLSAddr ?c) True sF = (None, sG)"
    and s': "s' = (if Relay ?c then sG\<lparr>wg := wg sG @ [RunQueue]\<rparr> else sG)"
    using assms(1) unfolding Start_def Let_def
    by (auto simp del: start_all.simps(2) simp: start_all_None split: prod.splits option.splits)
  note eff = started_one(1) [OF st(1)] started_one(1) [OF st(2)] started_one(1) [OF st(3)] started_one(2) [OF st(4)] started_one(2) [OF st(5)]
    started_one(3) [OF st(6)] started_one(3) [OF st(7)]
  have pol: "policy_ok s" and rol: "open_roles s = []" using assms(2-4) by (simp_all add: policy_ok_def open_roles_def)
  have keep: "serverCfg sG = ?c" "serverTLS sG = serverTLS s" "\<not> closed sG" "RunQueue \<notin> set (wg sG)" "policy_ok sG"
    using eff assms(5,6) pol by (simp_all add: started_def)
  have roles: "open_roles sG = map (\<lambda>(role, addr, tls). (role, tls)) (filter (wanted (serverTLS s \<noteq> None)) (listener_table ?c))"
    using eff rol by (simp add: started_def listener_table_def)
  have subs: "map svcSubmission (smtpServers sG) = map (\<lambda>(role, addr, tls). role \<noteq> ''smtp'') (filter (wanted (serverTLS s \<noteq> None)) (take 3 (listener_table ?c)))"
    using eff assms(3) by (simp add: started_def listener_table_def)
  have "open_roles s' = open_roles sG" "smtpServers s' = smtpServers sG" "policy_ok s' = policy_ok sG" "RunQueue \<in> set (wg s') \<longleftrightarrow> Relay ?c"
    "serverCfg s' = ?c" "\<not> closed s'"
    using s' keep by (simp_all add: open_roles_def policy_ok_def)
  moreover from this have "\<exists>s2. Shutdown s' = Some s2 \<and> open_roles s2 = [] \<and> wg s2 = []"
    by (simp add: Shutdown_def Let_def open_roles_def filter_map comp_def)
  ultimately show ?thesis using roles subs keep(5) by simp
qed

lemma start_all_keeps:
  assumes "start_all fs s = (err, s')" "\<And>f a b er. f \<in> set fs \<Longrightarrow> f a = (er, b) \<Longrightarrow> \<exists>row kind. started row kind er a b"
    "RunQueue \<notin> set (wg s)"
  shows "serverCfg s' = serverCfg s \<and> closed s' = closed s \<and> RunQueue \<notin> set (wg s') \<and> prefix (open_roles s) (open_roles s')"
  using assms
proof (induction fs arbitrary: s)
  case (Cons f fs)
  obtain er s2 where f: "f s = (er, s2)" by fastforce
  obtain row kind where st: "started row kind er s s2" using Cons.prems(2) f by (meson list.set_intros(1))
  then have keep: "serverCfg s2 = serverCfg s" "closed s2 = closed s" "RunQueue \<notin> set (wg s2)" "prefix (open_roles s) (open_roles s2)"
    using Cons.prems(3) by (auto simp: started_def)
  show ?case
  proof (cases er)
    case None
    then have "start_all fs s2 = (err, s')" using Cons.prems(1) f by simp
    moreover have "\<exists>row kind. started row kind er a b" if "g \<in> set fs" "g a = (er, b)" for g a b er
      using Cons.prems(2) that by (meson list.set_intros(2))
    ultimately have "serverCfg s' = serverCfg s2 \<and> closed s' = closed s2 \<and> RunQueue \<notin> set (wg s') \<and> prefix (open_roles s2) (open_roles s')"
      using keep(3) by (intro Cons.IH)
    then show ?thesis using keep prefix_order.trans [OF keep(4)] by simp
  next
    case (Some x)
    then show ?thesis using keep Cons.prems(1) f by simp
  qed
qed simp


lemma Start_keeps:
  assumes "Start bind s = (None, s')"
  shows "serverCfg s' = serverCfg s \<and> serverTLS s' = serverTLS s \<and> serverQueueDir s' = serverQueueDir s"
proof -
  have one: "startSMTP bind role addr sub tls a = (err, b) \<Longrightarrow> serverCfg b = serverCfg a \<and> serverTLS b = serverTLS a \<and> serverQueueDir b = serverQueueDir a"
    "startPOP3 bind role addr tls a = (err, b) \<Longrightarrow> serverCfg b = serverCfg a \<and> serverTLS b = serverTLS a \<and> serverQueueDir b = serverQueueDir a"
    "startIMAP bind role addr tls a = (err, b) \<Longrightarrow> serverCfg b = serverCfg a \<and> serverTLS b = serverTLS a \<and> serverQueueDir b = serverQueueDir a"
    for role addr sub tls and a b :: "('a, 'b) Server" and err
    by (auto simp: startSMTP_def startPOP3_def startIMAP_def listen_def Let_def split: if_splits option.splits)
  show ?thesis
    using assms unfolding Start_def Let_def
    by (auto simp del: start_all.simps(2) simp: start_all_None split: prod.splits option.splits dest!: one)
qed

section \<open>Examples\<close>

definition demo_fresh :: "(string, string) Server" where
  "demo_fresh = \<lparr>serverCfg = env_config [''MAIL_DOMAIN'' \<mapsto> ''a.b''], serverTLS = None, serverDKIM = None, serverQueueDir = [''data'', ''queue''],
     closed = False, listeners = [], addrs = [], smtpServers = [], imapServers = [], wg = []\<rparr>"


end
