(* ===== verification/RelayQueue.thy ===== *)
theory RelayQueue
  imports Relay
begin

text \<open>
  What the relay guarantees: credentials are only sent to a verified peer, an
  attempt accounts for every recipient, and a spooled message leaves the queue
  after at most twelve attempts.
\<close>

section \<open>Transactions\<close>

lemma first_error_None: "first_error cs = None \<longleftrightarrow> (\<forall>c\<in>set cs. c = None)"
  by (induction cs) (auto split: option.splits)

lemma sendTo_sent: "sendTo peer a from rcpts message i = (r, ts) \<Longrightarrow> set ts \<subseteq> {(from, rcpts, message)} \<and> (r = None \<longrightarrow> ts \<noteq> [])"
  by (auto simp: sendTo_def split: sum.splits option.splits dest: sym)


definition demo_peer :: "senderr option \<Rightarrow> smtp_peer" where
  "demo_peer q = \<lparr>dialTLS = None, dialStartTLS = (\<lambda>_. None), dialPlain = None, callHello = None, callAuth = None, callMail = None,
     callRcpt = (\<lambda>_. None), callData = None, callWrite = None, callClose = None, callQuit = q\<rparr>"


lemma try_hosts_sent:
  assumes "\<And>h. set (snd (send h)) \<subseteq> {t} \<and> (fst (send h) = None \<longrightarrow> snd (send h) \<noteq> [])" "set sent \<subseteq> {t}"
    "try_hosts send hs lastErr sent = (r, ts)"
  shows "set ts \<subseteq> {t} \<and> (r = None \<longrightarrow> t \<in> set ts)"
  using assms(2,3)
proof (induction hs arbitrary: lastErr sent)
  case (Cons h hs)
  obtain x us where s: "send h = (x, us)" by fastforce
  have us: "set us \<subseteq> {t}" "x = None \<longrightarrow> us \<noteq> []" using assms(1) [of h] s by auto
  then have sub: "set (sent @ us) \<subseteq> {t}" using Cons.prems(1) by auto
  show ?case
  proof (cases x)
    case None
    then have "ts = sent @ us" using Cons.prems(2) s by simp
    moreover have "t \<in> set us" using us None by (cases us) auto
    ultimately show ?thesis using sub by simp
  next
    case (Some e)
    then show ?thesis using Cons.IH [OF sub] Cons.prems(2) s sub by (auto split: if_splits)
  qed
qed auto

lemma deliverDomain_sent:
  assumes "deliverDomain srv net d from rcpts message = (r, ts)"
  shows "set ts \<subseteq> {(from, rcpts, message)} \<and> (r = None \<longrightarrow> (from, rcpts, message) \<in> set ts)"
proof -
  have st: "set (snd (sendTo p a from rcpts message i)) \<subseteq> {(from, rcpts, message)}
      \<and> (fst (sendTo p a from rcpts message i) = None \<longrightarrow> snd (sendTo p a from rcpts message i) \<noteq> [])" for p a i
    using sendTo_sent [of p a "from" rcpts message i] by (cases "sendTo p a from rcpts message i") auto
  show ?thesis
  proof (cases "SmarthostAddr (cfg srv) \<noteq> []")
    case True
    then obtain p a i where "sendTo p a from rcpts message i = (r, ts)"
      using assms by (auto simp: deliverDomain_def deliverSmarthost_def Let_def split: prod.splits)
    with st [of p a i] show ?thesis by (cases ts) auto
  next
    case False
    let ?send = "\<lambda>h. sendTo (peer_at net d (JoinHostPort h ''25'')) False from rcpts message False"
    show ?thesis
    proof (cases "mxHosts net d")
      case (Inl e)
      then show ?thesis using assms False by (auto simp: deliverDomain_def)
    next
      case (Inr hosts)
      obtain y us where th: "try_hosts ?send hosts None [] = (y, us)" by fastforce
      have "ts = us" "r = None \<longrightarrow> y = None" using assms False Inr th by (auto simp: deliverDomain_def split: option.splits)
      then show ?thesis using try_hosts_sent [OF st _ th] by auto
    qed
  qed
qed

section \<open>Calls without faults\<close>

text \<open>An empty fault plan stays empty, and calls that read change nothing at all.\<close>

lemma calm_reads:
  "ReadFile p fs = (r, fs') \<Longrightarrow> faults fs = [] \<Longrightarrow> fs' = fs"
  "ReadDir p fs = (r', fs') \<Longrightarrow> faults fs = [] \<Longrightarrow> fs' = fs"
  by (auto simp: ReadFile_def ReadDir_def split: option.splits node.splits)

lemma calm_writes:
  "faults fs = [] \<Longrightarrow> faults (snd (WriteFile p c fs)) = []" "faults fs = [] \<Longrightarrow> faults (snd (MkdirAll p fs)) = []"
  "faults fs = [] \<Longrightarrow> faults (snd (Remove_file p fs)) = []"
  by (auto simp: WriteFile_def MkdirAll_def Remove_file_def split: option.splits node.splits)

lemma calm_put_file: "faults fs = [] \<Longrightarrow> faults (snd (put_file p c fs)) = []"
  unfolding put_file_def using calm_writes by (intro call_cases [where P = "\<lambda>fs. faults fs = []"]) simp_all

lemma calm_readIndex: "readIndex userDir now uid name fs = (r, fs') \<Longrightarrow> faults fs = [] \<Longrightarrow> fs' = fs"
  unfolding readIndex_def Let_def mailboxDir_canonical
  by (auto dest: calm_reads(1) split: prod.splits sum.splits oserr.splits option.splits if_splits)

lemma calm_writeIndex: "faults fs = [] \<Longrightarrow> faults (snd (writeIndex userDir uid name ix fs)) = []"
  using calm_put_file [of fs "indexPath userDir uid name" "Json (marshal_index ix)"]
  by (auto simp: writeIndex_put lift_os_def split: prod.splits sum.splits)

lemma calm_Append:
  assumes "faults fs = []"
  shows "faults (snd (Append userDir now uid name flags date body fs)) = []"
proof -
  have run: "faults (snd (case put_file p c fs of (Inl e, fs3) \<Rightarrow> (Inl (MailOS e), fs3)
      | (Inr _, fs3) \<Rightarrow> (case writeIndex userDir uid name ix fs3 of (Inl e, fs4) \<Rightarrow> (Inl e, fs4) | (Inr _, fs4) \<Rightarrow> (Inr (u :: u32), fs4)))) = []"
    for p c ix u
    by (intro call_cases [where P = "\<lambda>fs. faults fs = []"] calm_put_file calm_writeIndex assms) simp_all
  obtain x fs1 where rd: "readIndex userDir now uid name fs = (x, fs1)" by fastforce
  have "fs1 = fs" by (rule calm_readIndex [OF rd assms])
  then show ?thesis using run assms rd unfolding Append_eq Let_def by (simp split: sum.splits mailerr.splits)
qed

lemma calm_load_entries: "faults fs = [] \<Longrightarrow> snd (load_entries rootDir es fs) = fs"
proof (induction es)
  case (Cons e es)
  obtain name isDir where e: "e = (name, isDir)" by fastforce
  obtain x fs1 where rd: "ReadFile (path_join (path_join rootDir name) ''user.json'') fs = (x, fs1)" by fastforce
  have "fs1 = fs" by (rule calm_reads(1) [OF rd Cons.prems])
  then show ?case using Cons rd by (auto simp: e split: prod.splits sum.splits oserr.splits option.splits)
qed simp

lemma calm_FindByID: "faults fs = [] \<Longrightarrow> snd (FindByID rootDir ident fs) = fs"
proof -
  assume c: "faults fs = []"
  obtain x fs1 where rd: "ReadDir rootDir fs = (x, fs1)" by fastforce
  have "fs1 = fs" by (rule calm_reads(2) [OF rd c])
  then have "snd (loadUsers rootDir fs) = fs"
    using calm_load_entries [OF c] rd by (auto simp: loadUsers_def split: sum.splits oserr.splits)
  then show ?thesis by (auto simp: FindByID_def Let_def split: prod.splits sum.splits option.splits)
qed

section \<open>Effects on the queue\<close>

lemma bounce_files:
  assumes "\<not> prefix (accountsRoot srv) p"
  shows "file_at (bounce srv amb e rcpts cause fs) p = file_at fs p"
proof -
  obtain local domain okay where sp: "SplitAddress (qFrom e) = (local, domain, okay)" by (cases "SplitAddress (qFrom e)") auto
  obtain a fs1 where f: "FindByID (accountsRoot srv) local fs = (a, fs1)" by fastforce
  have f1: "file_at fs1 = file_at fs"
    using FindByID_lookup [of "accountsRoot srv" local fs] f by (intro file_at_cong) simp
  have "file_at (snd (Append (server_dir srv) now uid Inbox [] date body fs1)) p = file_at fs1 p" for now uid date body
  proof -
    obtain x fs2 where ap: "Append (server_dir srv) now uid Inbox [] date body fs1 = (x, fs2)" by fastforce
    have "\<not> prefix (mailboxDir (server_dir srv) uid Inbox) p"
      using assms by (auto simp: mailboxDir_eq UserDir_eq dest: append_prefixD)
    then show ?thesis using Append_files [OF ap] ap by simp
  qed
  then show ?thesis using f1 by (simp add: bounce_def sp f split: option.splits)
qed

lemma calm_bounce: "faults fs = [] \<Longrightarrow> faults (bounce srv amb e rcpts cause fs) = []"
proof -
  assume c: "faults fs = []"
  obtain local domain okay where sp: "SplitAddress (qFrom e) = (local, domain, okay)" by (cases "SplitAddress (qFrom e)") auto
  obtain a fs1 where f: "FindByID (accountsRoot srv) local fs = (a, fs1)" by fastforce
  have "fs1 = fs" using calm_FindByID [OF c, of "accountsRoot srv" local] f by simp
  then show ?thesis using c calm_Append by (simp add: bounce_def sp f split: option.splits)
qed

lemma wf_fs_bounce:
  assumes "wf_fs fs" "clean_path (accountsRoot srv)"
  shows "wf_fs (bounce srv amb e rcpts cause fs)"
proof -
  obtain local domain okay where sp: "SplitAddress (qFrom e) = (local, domain, okay)" by (cases "SplitAddress (qFrom e)") auto
  obtain a fs1 where f: "FindByID (accountsRoot srv) local fs = (a, fs1)" by fastforce
  have w1: "wf_fs fs1" using wf_fs_cong [OF FindByID_lookup [of "accountsRoot srv" local fs]] f assms(1) by simp
  have "wf_fs (snd (Append (server_dir srv) now uid Inbox [] date body fs1))" for now uid date body
    using wf_fs_Append [OF w1 clean_mailboxDir [OF assms(2) inside_Inbox]] by (metis prod.collapse)
  then show ?thesis using assms(1) w1 by (simp add: bounce_def sp f split: option.splits)
qed

text \<open>The result for a group of recipients and the recipients with a given kind of result.\<close>

definition group_result :: "mail_server \<Rightarrow> relay_net \<Rightarrow> queueEntry \<Rightarrow> string \<Rightarrow> string \<times> string list \<Rightarrow> senderr option" where
  "group_result srv net e message g = fst (deliverDomain srv net (fst g) (qFrom e) (snd g) message)"

definition rcpts_with :: "mail_server \<Rightarrow> relay_net \<Rightarrow> queueEntry \<Rightarrow> string \<Rightarrow> (senderr option \<Rightarrow> bool) \<Rightarrow> (string \<times> string list) list \<Rightarrow> string list" where
  "rcpts_with srv net e message P gs = concat (map snd (filter (\<lambda>g. P (group_result srv net e message g)) gs))"

definition temporary :: "senderr option \<Rightarrow> bool" where
  "temporary r \<longleftrightarrow> (\<exists>err. r = Some err \<and> \<not> permanent err)"

definition rejected :: "senderr option \<Rightarrow> bool" where
  "rejected r \<longleftrightarrow> (\<exists>err. r = Some err \<and> permanent err)"

lemma attempt_groups_effect:
  "attempt_groups srv net amb e message k gs deferred lastErr sent fs = (d, l, s, fs') \<Longrightarrow>
   d = deferred @ rcpts_with srv net e message temporary gs
   \<and> s = sent @ concat (map (\<lambda>g. snd (deliverDomain srv net (fst g) (qFrom e) (snd g) message)) gs)
   \<and> (\<forall>p. \<not> prefix (accountsRoot srv) p \<longrightarrow> file_at fs' p = file_at fs p)
   \<and> (faults fs = [] \<longrightarrow> faults fs' = []) \<and> (wf_fs fs \<and> clean_path (accountsRoot srv) \<longrightarrow> wf_fs fs')"
proof (induction gs arbitrary: k deferred lastErr sent fs)
  case (Cons g gs)
  obtain domain rcpts where g: "g = (domain, rcpts)" by fastforce
  obtain r ts where dd: "deliverDomain srv net domain (qFrom e) rcpts message = (r, ts)" by fastforce
  have res: "group_result srv net e message g = r" by (simp add: group_result_def g dd)
  show ?case
  proof (cases r)
    case None
    then have "attempt_groups srv net amb e message (k + 1) gs deferred lastErr (sent @ ts) fs = (d, l, s, fs')"
      using Cons.prems dd by (simp add: g)
    from Cons.IH [OF this] show ?thesis using None dd res by (simp add: g rcpts_with_def temporary_def)
  next
    case (Some err)
    show ?thesis
    proof (cases "permanent err")
      case True
      have "attempt_groups srv net amb e message (k + 1) gs deferred (Some err) (sent @ ts) (bounce srv (amb k) e rcpts (err_text err) fs) = (d, l, s, fs')"
        using Cons.prems Some True dd by (simp add: g)
      from Cons.IH [OF this] show ?thesis
        using Some True dd res bounce_files [of srv _ "amb k" e rcpts "err_text err" fs] calm_bounce [of fs srv "amb k" e rcpts "err_text err"]
          wf_fs_bounce [of fs srv "amb k" e rcpts "err_text err"]
        by (simp add: g rcpts_with_def temporary_def)
    next
      case False
      have "attempt_groups srv net amb e message (k + 1) gs (deferred @ rcpts) (Some err) (sent @ ts) fs = (d, l, s, fs')"
        using Cons.prems Some False dd by (simp add: g)
      from Cons.IH [OF this] show ?thesis
        using Some False dd res by (simp add: g rcpts_with_def temporary_def)
    qed
  qed
qed (simp add: rcpts_with_def)

lemma rcpts_with_Cons:
  "rcpts_with srv net e message P (g # gs) =
    (if P (group_result srv net e message g) then snd g else []) @ rcpts_with srv net e message P gs"
  by (simp add: rcpts_with_def)

lemma mset_rcpts_with:
  "mset (rcpts_with srv net e message (\<lambda>r. r = None) gs) + mset (rcpts_with srv net e message rejected gs)
   + mset (rcpts_with srv net e message temporary gs) = mset (concat (map snd gs))"
proof (induction gs)
  case (Cons g gs)
  have "mset (concat (map snd (g # gs))) = mset (snd g) + mset (concat (map snd gs))" by simp
  moreover have "(\<lambda>r. r = None) r = (\<not> rejected r \<and> \<not> temporary r)" "\<not> (rejected r \<and> temporary r)" for r
    by (cases r; auto simp: rejected_def temporary_def)+
  ultimately show ?case unfolding rcpts_with_Cons Cons.IH [symmetric] by (auto simp: ac_simps)
qed (simp add: rcpts_with_def)


section \<open>An attempt\<close>

lemma mset_concat_snd: "mset gs = mset hs \<Longrightarrow> mset (concat (map snd gs)) = mset (concat (map snd hs))"
  by (metis mset_concat mset_map sum_mset_sum_list)


lemma calm_Remove_file:
  assumes "wf_fs fs" "faults fs = []" "fs_lookup fs p \<noteq> Some Dir"
  shows "file_at (snd (Remove_file p fs)) = (file_at fs)(p := None)" "fs_lookup (snd (Remove_file p fs)) q \<noteq> Some Dir \<longleftrightarrow> fs_lookup fs q \<noteq> Some Dir"
proof -
  have nc: "\<not> has_children fs p"
  proof
    assume "has_children fs p"
    then obtain x r where "fs_lookup fs (p @ x # r) \<noteq> None" by (auto simp: has_children_lookup elim!: strict_prefixE')
    then show False using wf_fs_no_children [OF assms(1,3), of "x # r"] by simp
  qed
  show "file_at (snd (Remove_file p fs)) = (file_at fs)(p := None)"
    using nc assms(2) by (intro ext) (auto simp: Remove_file_def file_at_def split: option.splits)
  show "fs_lookup (snd (Remove_file p fs)) q \<noteq> Some Dir \<longleftrightarrow> fs_lookup fs q \<noteq> Some Dir"
    using nc assms(2,3) by (auto simp: Remove_file_def split: option.splits)
qed


text \<open>
  Where the queue is: outside the directory of the accounts. An entry is spooled when its two
  files are there and the entry file decodes to it.
\<close>

definition queue_place :: "mail_server \<Rightarrow> bool" where
  "queue_place srv \<longleftrightarrow> clean_path (accountsRoot srv) \<and> \<not> prefix (accountsRoot srv) (queueDir srv) \<and> \<not> prefix (queueDir srv) (accountsRoot srv)"

definition queue_ident :: "string \<Rightarrow> bool" where
  "queue_ident i \<longleftrightarrow> plain_name (i @ ''.json'') \<and> plain_name (i @ ''.eml'')"

definition entry_at :: "mail_server \<Rightarrow> fsys \<Rightarrow> string \<Rightarrow> queueEntry option" where
  "entry_at srv fs i = Option.bind (file_at fs (entryPath (queueDir srv) i)) decode_entry"

lemma ident_paths:
  "queue_ident i \<Longrightarrow> entryPath dir i = dir @ [i @ ''.json'']" "queue_ident i \<Longrightarrow> bodyPath dir i = dir @ [i @ ''.eml'']"
  by (simp_all add: queue_ident_def entryPath_def bodyPath_def plain_name_join)

lemma place_outside: "queue_place srv \<Longrightarrow> \<not> prefix (accountsRoot srv) (queueDir srv @ [x])"
  by (auto simp: queue_place_def prefix_snoc)

lemma calm_queue_remove:
  assumes "wf_fs fs" "faults fs = []" "queue_ident i" "fs_lookup fs (entryPath dir i) \<noteq> Some Dir" "fs_lookup fs (bodyPath dir i) \<noteq> Some Dir"
  shows "file_at (queue_remove dir i fs) = (file_at fs)(entryPath dir i := None, bodyPath dir i := None)
    \<and> wf_fs (queue_remove dir i fs) \<and> faults (queue_remove dir i fs) = []"
proof -
  let ?fs = "snd (Remove_file (entryPath dir i) fs)"
  have "wf_fs ?fs" "faults ?fs = []" "fs_lookup ?fs (bodyPath dir i) \<noteq> Some Dir"
    using assms calm_writes(3) calm_Remove_file(2) [OF assms(1,2,4)] by (simp_all add: wf_fs_Remove_file)
  then show ?thesis
    using calm_Remove_file(1) [OF assms(1,2,4)] calm_Remove_file(1) [of ?fs "bodyPath dir i"] calm_writes(3)
    by (simp add: queue_remove_def wf_fs_Remove_file)
qed


lemma calm_writeEntry:
  assumes "wf_fs fs" "faults fs = []" "queue_ident (qID e)" "fs_lookup fs (entryPath dir (qID e)) = Some (File c)"
  shows "file_at (snd (writeEntry dir e fs)) = (file_at fs)(entryPath dir (qID e) \<mapsto> Json (marshal_entry e))
    \<and> wf_fs (snd (writeEntry dir e fs)) \<and> faults (snd (writeEntry dir e fs)) = []"
proof -
  note paths = ident_paths [OF assms(3), of dir]
  have "fs_lookup fs dir = Some Dir" using wf_fs_parent [OF assms(1), of dir "qID e @ ''.json''"] assms(4) by (simp add: paths)
  then have we: "WriteFile (entryPath dir (qID e)) (Json (marshal_entry e)) fs
      = (Inr (), fs_put (entryPath dir (qID e)) (File (Json (marshal_entry e))) fs)"
    using assms(2,4) by (simp add: WriteFile_ok paths)
  have "clean_path (entryPath dir (qID e))" using assms(1,4) by (auto simp: wf_fs_def paths)
  then show ?thesis
    using file_at_WriteFile_Inr [OF we] wf_fs_WriteFile [OF assms(1)] calm_writes(1) [OF assms(2)] we by (metis snd_conv writeEntry_def)
qed

definition retried :: "mail_server \<Rightarrow> relay_net \<Rightarrow> queueEntry \<Rightarrow> string \<Rightarrow> time \<Rightarrow> (string \<times> string list) list \<Rightarrow> string \<Rightarrow> queueEntry" where
  "retried srv net e message now gs err =
    e\<lparr>qAttempts := qAttempts e + 1, qTo := rcpts_with srv net e message temporary gs,
      qNextTry := now + backoff (qAttempts e + 1), qLastError := err\<rparr>"

lemma rcpts_with_attempts [simp]: "rcpts_with srv net (e\<lparr>qAttempts := n\<rparr>) message P gs = rcpts_with srv net e message P gs"
  by (simp add: rcpts_with_def group_result_def)

lemma attempt_effect:
  fixes srv net order entry message
  defines "gs \<equiv> order (groupByDomain (qTo entry))"
  assumes place: "queue_place srv" and ident: "queue_ident (qID entry)" and wf: "wf_fs fs" and calm: "faults fs = []"
    and ent: "file_at fs (entryPath (queueDir srv) (qID entry)) = Some c"
    and body: "file_at fs (bodyPath (queueDir srv) (qID entry)) = Some (Bytes message)"
    and range: "0 \<le> qAttempts entry" "qAttempts entry < 2 ^ 63 - 1"
    and att: "attempt srv net order amb now entry fs = (sent, fs')"
  shows "sent = concat (map (\<lambda>g. snd (deliverDomain srv net (fst g) (qFrom entry) (snd g) message)) gs)
    \<and> wf_fs fs' \<and> faults fs' = []
    \<and> (\<forall>p. \<not> prefix (accountsRoot srv) p \<and> p \<noteq> entryPath (queueDir srv) (qID entry) \<and> p \<noteq> bodyPath (queueDir srv) (qID entry) \<longrightarrow>
         file_at fs' p = file_at fs p)
    \<and> (if rcpts_with srv net entry message temporary gs = [] \<or> queueMaxAttempts \<le> qAttempts entry + 1
       then file_at fs' (entryPath (queueDir srv) (qID entry)) = None \<and> file_at fs' (bodyPath (queueDir srv) (qID entry)) = None
       else file_at fs' (bodyPath (queueDir srv) (qID entry)) = Some (Bytes message)
         \<and> (\<exists>err. file_at fs' (entryPath (queueDir srv) (qID entry)) = Some (Json (marshal_entry (retried srv net entry message now gs err)))))"
proof -
  let ?Q = "queueDir srv" and ?i = "qID entry" and ?e = "entry\<lparr>qAttempts := qAttempts entry + 1\<rparr>"
  note paths = ident_paths [OF ident, of ?Q]
  have w: "wrap64 (qAttempts entry + 1) = qAttempts entry + 1" using range by (intro wrap64_id) (simp add: int64_def)
  have rd: "ReadFile (bodyPath ?Q ?i) fs = (Inr (Bytes message), fs)" using body calm by (simp add: ReadFile_ok file_at_Some)
  obtain d l s fs2 where run: "attempt_groups srv net amb ?e message 1 gs [] None [] fs = (d, l, s, fs2)" by (metis prod_cases4)
  note eff = attempt_groups_effect [OF run]
  have w2: "wf_fs fs2" "faults fs2 = []" using eff wf calm place by (auto simp: queue_place_def)
  have out: "\<not> prefix (accountsRoot srv) (entryPath ?Q ?i)" "\<not> prefix (accountsRoot srv) (bodyPath ?Q ?i)"
    using place_outside [OF place] by (simp_all add: paths)
  have f2: "file_at fs2 p = file_at fs p" if "\<not> prefix (accountsRoot srv) p" for p using eff that by blast
  have l2: "fs_lookup fs2 (entryPath ?Q ?i) = Some (File c)" "fs_lookup fs2 (bodyPath ?Q ?i) = Some (File (Bytes message))"
    using f2 out ent body by (simp_all add: file_at_Some [symmetric])
  have rm: "file_at (queue_remove ?Q ?i fs3) = (file_at fs3)(entryPath ?Q ?i := None, bodyPath ?Q ?i := None)
      \<and> wf_fs (queue_remove ?Q ?i fs3) \<and> faults (queue_remove ?Q ?i fs3) = []"
    if "wf_fs fs3" "faults fs3 = []" "\<And>p. \<not> prefix (accountsRoot srv) p \<Longrightarrow> file_at fs3 p = file_at fs p" for fs3
    using that(3) [OF out(1)] that(3) [OF out(2)] ent body
    by (intro calm_queue_remove [OF that(1,2) ident]) (simp_all add: file_at_Some)
  note unf = att [unfolded attempt_def rd prod.case sum.case content.case Let_def w gs_def [symmetric] run]
  have d: "d = rcpts_with srv net entry message temporary gs" using eff by simp
  have s: "sent = s" using unf by simp
  have sent: "sent = concat (map (\<lambda>g. snd (deliverDomain srv net (fst g) (qFrom entry) (snd g) message)) gs)" using eff s by simp
  show ?thesis
  proof (cases "d = [] \<or> queueMaxAttempts \<le> qAttempts entry + 1")
    case True
    define cause where "cause = ''gave up after '' @ Itoa (qAttempts ?e) @ '' attempts: '' @ (case l of None \<Rightarrow> ''<nil>'' | Some err \<Rightarrow> err_text err)"
    define fs3 where "fs3 = (if d = [] then fs2 else bounce srv (amb 0) ?e d cause fs2)"
    have f3: "wf_fs fs3" "faults fs3 = []" "\<And>p. \<not> prefix (accountsRoot srv) p \<Longrightarrow> file_at fs3 p = file_at fs p"
      using w2 f2 place wf_fs_bounce calm_bounce bounce_files by (auto simp: fs3_def queue_place_def)
    have "fs' = queue_remove ?Q ?i fs3" using unf True by (auto simp: fs3_def cause_def)
    then show ?thesis using sent rm [OF f3] f3(3) True d by simp
  next
    case False
    define err where "err = (case l of None \<Rightarrow> qLastError ?e | Some err \<Rightarrow> err_text err)"
    let ?r = "retried srv net entry message now gs err"
    have "fs' = snd (writeEntry ?Q ?r fs2)" using unf False d by (simp add: err_def retried_def)
    moreover have "qID ?r = ?i" by (simp add: retried_def)
    ultimately show ?thesis
      using sent False d f2 l2 paths calm_writeEntry [OF w2, of ?r ?Q c] ident by (auto simp: file_at_Some)
  qed
qed


text \<open>
  C17. An attempt without file system faults accounts for every recipient. Whatever the network
  answers and in whatever order the domains are tried, the recipients whose address splits are
  exactly those delivered, those rejected for good and those to try again, each as often as it is
  listed; a peer has accepted the message for each delivered one, and peers are only ever given
  this message, from this sender, for recipients of the entry. The entry is kept, with exactly the
  recipients to try again, one attempt more and the next time of the retry ladder, if there are
  such recipients and this is not the twelfth attempt; otherwise both its files are gone. No
  other file outside the accounts changes.
\<close>

theorem attempt_accounts:
  fixes srv net order entry message
  defines "gs \<equiv> order (groupByDomain (qTo entry))"
  assumes "queue_place srv" "queue_ident (qID entry)" "wf_fs fs" "faults fs = []"
    "file_at fs (entryPath (queueDir srv) (qID entry)) = Some c"
    "file_at fs (bodyPath (queueDir srv) (qID entry)) = Some (Bytes message)"
    "0 \<le> qAttempts entry" "qAttempts entry < 2 ^ 63 - 1"
    "mset gs = mset (groupByDomain (qTo entry))"
    "attempt srv net order amb now entry fs = (sent, fs')"
  shows "mset (rcpts_with srv net entry message (\<lambda>r. r = None) gs) + mset (rcpts_with srv net entry message rejected gs)
      + mset (rcpts_with srv net entry message temporary gs) = filter_mset deliverable (mset (qTo entry))
    \<and> (\<forall>r\<in>set (rcpts_with srv net entry message (\<lambda>r. r = None) gs). \<exists>rs. r \<in> set rs \<and> (qFrom entry, rs, message) \<in> set sent)
    \<and> (\<forall>(f, rs, m)\<in>set sent. f = qFrom entry \<and> m = message \<and> set rs \<subseteq> set (qTo entry))
    \<and> (if rcpts_with srv net entry message temporary gs = [] \<or> queueMaxAttempts \<le> qAttempts entry + 1
      then file_at fs' (entryPath (queueDir srv) (qID entry)) = None \<and> file_at fs' (bodyPath (queueDir srv) (qID entry)) = None
      else file_at fs' (bodyPath (queueDir srv) (qID entry)) = Some (Bytes message)
        \<and> (\<exists>err. file_at fs' (entryPath (queueDir srv) (qID entry)) = Some (Json (marshal_entry (retried srv net entry message now gs err)))))
    \<and> (\<forall>p. \<not> prefix (accountsRoot srv) p \<and> p \<noteq> entryPath (queueDir srv) (qID entry) \<and> p \<noteq> bodyPath (queueDir srv) (qID entry) \<longrightarrow>
      file_at fs' p = file_at fs p)"
  (is "?account \<and> ?delivered \<and> ?honest \<and> ?kept \<and> ?frame")
proof -
  note eff = attempt_effect [OF assms(2-9,11), folded gs_def]
  have part: "mset (concat (map snd gs)) = filter_mset deliverable (mset (qTo entry))"
    using mset_concat_snd [OF assms(10)] by (simp add: groupByDomain_mset)
  have sent: "sent = concat (map (\<lambda>g. snd (deliverDomain srv net (fst g) (qFrom entry) (snd g) message)) gs)" using eff by blast
  have one: "set (snd (deliverDomain srv net d f rs m)) \<subseteq> {(f, rs, m)}"
    "fst (deliverDomain srv net d f rs m) = None \<Longrightarrow> (f, rs, m) \<in> set (snd (deliverDomain srv net d f rs m))" for d f rs m
    using deliverDomain_sent [of srv net d f rs m] by (metis prod.collapse)+
  have in_to: "set rs \<subseteq> set (qTo entry)" if "(d, rs) \<in> set gs" for d rs
  proof -
    have "set rs \<subseteq> set (concat (map snd gs))" using that by force
    also have "\<dots> = set_mset (filter_mset deliverable (mset (qTo entry)))" unfolding part [symmetric] by simp
    finally show ?thesis by auto
  qed
  have ?account using part by (simp only: mset_rcpts_with)
  moreover have ?delivered
  proof
    fix r assume "r \<in> set (rcpts_with srv net entry message (\<lambda>r. r = None) gs)"
    then obtain g where "g \<in> set gs" "r \<in> set (snd g)" "fst (deliverDomain srv net (fst g) (qFrom entry) (snd g) message) = None"
      by (auto simp: rcpts_with_def group_result_def)
    then show "\<exists>rs. r \<in> set rs \<and> (qFrom entry, rs, message) \<in> set sent"
      using one(2) [of "fst g" "qFrom entry" "snd g" message] unfolding sent by (intro exI [of _ "snd g"]) auto
  qed
  moreover have ?honest unfolding sent using one(1) in_to by fastforce
  ultimately show ?thesis using eff by blast
qed


definition demo_entry :: queueEntry where
  "demo_entry = \<lparr>qID = ''1'', qFrom = ''bob@a.b'', qTo = [''c@d.e''], qAttempts = 0, qFirstTry = 0, qNextTry = 0, qLastError = []\<rparr>"

definition demo_spool :: fsys where
  "demo_spool = \<lparr>tree = [([''queue''], Dir), ([''queue'', ''1.json''], File (Json (marshal_entry demo_entry))), ([''queue'', ''1.eml''], File (Bytes ''hi''))],
     faults = []\<rparr>"

definition demo_net :: relay_net where
  "demo_net = \<lparr>lookupMX = (\<lambda>_. MXFailed ''timeout''), lookupHost = (\<lambda>_. False), peer_at = (\<lambda>_ _. demo_peer None)\<rparr>"

lemma demo_queue:
  "queue_place (demo_server (env_config Map.empty))" "queue_ident ''1''" "faults demo_spool = []"
  "entryPath [''queue''] ''1'' = [''queue'', ''1.json'']" "bodyPath [''queue''] ''1'' = [''queue'', ''1.eml'']"
  "file_at demo_spool [''queue'', ''1.json''] = Some (Json (marshal_entry demo_entry))" "file_at demo_spool [''queue'', ''1.eml''] = Some (Bytes ''hi'')"
  by (simp_all add: queue_place_def demo_server_def queue_ident_def plain_name_def demo_spool_def entryPath_def bodyPath_def plain_name_join
      file_at_def fs_lookup_def)

lemma wf_demo_spool: "wf_fs demo_spool"
  by (auto simp: wf_fs_def demo_spool_def fs_lookup_def plain_name_def split: if_splits)

lemma demo_groups: "groupByDomain [''c@d.e''] = [(''d.e'', [''c@d.e''])]"
  using SplitAddress_plain(1) [of "''c''" "''d.e''"]
  by (simp add: groupByDomain_def id_char_def domain_char_def is_alnum_def is_lower_def is_upper_def)

lemma demo_smarthost: "SmarthostAddr (cfg (demo_server (env_config Map.empty))) = []" "queueDir (demo_server (env_config Map.empty)) = [''queue'']"
  by (simp_all add: demo_server_def env_config_def Getenv_def TrimSpace_id)

lemma demo_deferred:
  "rcpts_with (demo_server (env_config Map.empty)) demo_net demo_entry message temporary [(''d.e'', [''c@d.e''])] = [''c@d.e'']"
  by (simp add: rcpts_with_def group_result_def deliverDomain_def demo_smarthost temporary_def demo_net_def mxHosts_def permanent_def)

theorem attempt_accounts_witness:
  "\<exists>err. file_at (snd (attempt (demo_server (env_config Map.empty)) demo_net (\<lambda>gs. gs) (\<lambda>_. demo_amb) 3 demo_entry demo_spool)) [''queue'', ''1.json'']
     = Some (Json (marshal_entry (demo_entry\<lparr>qAttempts := 1, qNextTry := 3 + backoff 1, qLastError := err\<rparr>)))"
proof -
  let ?srv = "demo_server (env_config Map.empty)"
  obtain sent fs' where att: "attempt ?srv demo_net (\<lambda>gs. gs) (\<lambda>_. demo_amb) 3 demo_entry demo_spool = (sent, fs')" by fastforce
  have e: "qID demo_entry = ''1''" "qTo demo_entry = [''c@d.e'']" "qAttempts demo_entry = 0" by (simp_all add: demo_entry_def)
  show ?thesis
    using attempt_accounts [of ?srv demo_entry demo_spool "Json (marshal_entry demo_entry)" "''hi''" "\<lambda>gs. gs" demo_net "\<lambda>_. demo_amb" 3 sent fs']
    by (simp add: e demo_queue wf_demo_spool demo_smarthost att demo_groups demo_deferred queueMaxAttempts_def retried_def)
       (simp add: demo_entry_def)
qed

end
