(* ===== verification/Startup.thy ===== *)
theory Startup
  imports HttpApi MailServer RelayQueue
begin

text \<open>
  Starting and stopping the service, \<^verbatim>\<open>main.go\<close>: what is read from the environment, in
  which order the parts are set up, which errors end the process, and the order of
  a shutdown. The libraries behind certificates and keys, the random source and
  the network are parameters. Logging is left out.
\<close>

section \<open>Configuration\<close>

definition defaultTokenValidSecs :: int where "defaultTokenValidSecs = 3600"

datatype startup_error = BadTokenSecs string | NoRandom | BadSchema schema_error | BadMail config_error | MailListen string | BadProxies

text \<open>The random source gives 32 bytes or fails.\<close>

definition tokenIssuerFromEnv :: "environ \<Rightarrow> string option \<Rightarrow> startup_error + TokenIssuer" where
  "tokenIssuerFromEnv env random =
    (let raw = TrimSpace (Getenv env ''TOKEN_VALID_SECS'');
         secs = (if raw = [] then Inr defaultTokenValidSecs
                 else (case ParseInt raw of
                     None \<Rightarrow> Inl (BadTokenSecs raw)
                   | Some parsed \<Rightarrow> if parsed \<le> 0 then Inl (BadTokenSecs raw) else Inr parsed))
     in case secs of
          Inl e \<Rightarrow> Inl e
        | Inr n \<Rightarrow>
            if Getenv env ''TOKEN_SECRET'' = [] then
              (case random of None \<Rightarrow> Inl NoRandom | Some bytes \<Rightarrow> Inr (NewTokenIssuer bytes n))
            else Inr (NewTokenIssuer (Getenv env ''TOKEN_SECRET'') n))"

datatype gin_mode = DebugMode | ReleaseMode | TestMode

definition configureGinMode :: "environ \<Rightarrow> gin_mode" where
  "configureGinMode env =
    (let mode = ToLower (TrimSpace (Getenv env ''GIN_MODE''))
     in if mode = ''release'' then ReleaseMode else if mode = ''test'' then TestMode else DebugMode)"

text \<open>What is handed to \<^verbatim>\<open>SetTrustedProxies\<close>, and whether the library accepts it.\<close>

definition trusted_proxies :: "environ \<Rightarrow> string list" where
  "trusted_proxies env =
    (let value = TrimSpace (Getenv env ''GIN_TRUSTED_PROXIES'')
     in if value = [] then [] else filter (\<lambda>p. p \<noteq> []) (map TrimSpace (Split value (CHR '',''))))"

definition configureTrustedProxies :: "(string list \<Rightarrow> bool) \<Rightarrow> environ \<Rightarrow> startup_error + string list" where
  "configureTrustedProxies accepted env =
    (let proxies = trusted_proxies env in if accepted proxies then Inr proxies else Inl BadProxies)"

section \<open>Mail\<close>

text \<open>The world the service starts in.\<close>

record ('cert, 'key) world =
  wLoadPair :: "string \<Rightarrow> string \<Rightarrow> 'cert option"
  wReadKey :: "string \<Rightarrow> string option"
  wPem :: "string \<Rightarrow> string option"
  wPKCS1 :: "string \<Rightarrow> 'key option"
  wPKCS8 :: "string \<Rightarrow> 'key parsed_key option"
  wBind :: binder_fun
  wRandom :: "string option"
  wProxies :: "string list \<Rightarrow> bool"

definition startMail :: "('cert, 'key) world \<Rightarrow> Config \<Rightarrow> path \<Rightarrow> startup_error + ('cert, 'key) Server option" where
  "startMail wld config dataDir =
    (if \<not> Enabled config then Inr None
     else (case New (wLoadPair wld) (wReadKey wld) (wPem wld) (wPKCS1 wld) (wPKCS8 wld) config dataDir of
         Inl e \<Rightarrow> Inl (BadMail e)
       | Inr server \<Rightarrow>
           (case Start (wBind wld) server of
              (Some e, _) \<Rightarrow> Inl (MailListen e)
            | (None, server') \<Rightarrow> Inr (Some server'))))"

section \<open>The process\<close>

text \<open>A service that is set up: the environment of the HTTP handlers and the mail server.\<close>

record ('cert, 'key) service =
  svcApi :: api_env
  svcMail :: "('cert, 'key) Server option"
  svcMode :: gin_mode
  svcProxies :: "string list"

definition main_setup :: "('cert, 'key) world \<Rightarrow> environ \<Rightarrow> startup_error + ('cert, 'key) service" where
  "main_setup wld env =
    (let dataDir = [''data'']
     in case tokenIssuerFromEnv env (wRandom wld) of
          Inl e \<Rightarrow> Inl e
        | Inr issuer \<Rightarrow>
            (case ParseProfileSchema (Getenv env ''ALLOWED_PROFILE_KEY'') of
               Inl e \<Rightarrow> Inl (BadSchema e)
             | Inr schema \<Rightarrow>
                 (case ConfigFromEnv env of
                    Inl e \<Rightarrow> Inl (BadMail e)
                  | Inr mailConfig \<Rightarrow>
                      (case startMail wld mailConfig dataDir of
                         Inl e \<Rightarrow> Inl e
                       | Inr mailServer \<Rightarrow>
                           (case configureTrustedProxies (wProxies wld) env of
                              Inl e \<Rightarrow> Inl e
                            | Inr proxies \<Rightarrow>
                                Inr \<lparr>svcApi = \<lparr>apiRoot = path_join dataDir ''user'', apiMailDomain = Domain mailConfig,
                                               apiIssuer = issuer, apiSchema = schema\<rparr>,
                                     svcMail = mailServer, svcMode = configureGinMode env, svcProxies = proxies\<rparr>)))))"

text \<open>
  What \<^verbatim>\<open>serve\<close> does after the HTTP server has stopped or a signal has come: the HTTP server is
  shut down first, then the mail server, whose shutdown may not return.
\<close>

datatype serve_step = ShutdownHTTP | ShutdownMail

definition serve :: "('cert, 'key) service \<Rightarrow> serve_step list \<times> bool" where
  "serve svc =
    (case svcMail svc of
       None \<Rightarrow> ([ShutdownHTTP], True)
     | Some server \<Rightarrow> ([ShutdownHTTP, ShutdownMail], Shutdown server \<noteq> None))"


section \<open>A service that is set up\<close>

lemma tokenIssuerFromEnv_Inr:
  "tokenIssuerFromEnv env random = Inr issuer \<Longrightarrow> 0 < validSecs issuer \<and> int64 (validSecs issuer)
    \<and> (secret issuer = Getenv env ''TOKEN_SECRET'' \<or> Getenv env ''TOKEN_SECRET'' = [] \<and> random = Some (secret issuer))"
  using ParseInt_int64 [of "TrimSpace (Getenv env ''TOKEN_VALID_SECS'')"]
  by (auto simp: tokenIssuerFromEnv_def NewTokenIssuer_def defaultTokenValidSecs_def int64_def Let_def split: if_splits option.splits sum.splits)

lemma New_fresh:
  "New loadPair readKey pemDecode parsePKCS1 parsePKCS8 conf dataDir = Inr s \<Longrightarrow>
   serverCfg s = conf \<and> listeners s = [] \<and> smtpServers s = [] \<and> imapServers s = [] \<and> wg s = [] \<and> \<not> closed s
   \<and> (serverTLS s = None \<longleftrightarrow> TLSCertFile conf = [])
   \<and> serverQueueDir s = (if QueueDir conf = [] then path_join dataDir ''queue'' else path_join [] (QueueDir conf))"
  by (auto simp: New_def tlsConfig_def split: sum.splits if_splits option.splits)


lemma ConfigFromEnv_QueueDir: "ConfigFromEnv env = Inr conf \<Longrightarrow> QueueDir conf = []"
proof -
  assume c: "ConfigFromEnv env = Inr conf"
  have "QueueDir (env_config env) = []" by (simp add: env_config_def)
  then show ?thesis using c by (auto simp: ConfigFromEnv_def Let_def split: if_splits sum.splits)
qed

lemma startMail_Some:
  assumes "startMail wld conf dataDir = Inr (Some s)"
  shows "Enabled conf \<and> serverCfg s = conf \<and> policy_ok s \<and> (serverTLS s = None \<longleftrightarrow> TLSCertFile conf = [])
    \<and> serverQueueDir s = (if QueueDir conf = [] then path_join dataDir ''queue'' else path_join [] (QueueDir conf))
    \<and> open_roles s = map (\<lambda>(role, addr, tls). (role, tls)) (filter (wanted (TLSCertFile conf \<noteq> [])) (listener_table conf))
    \<and> Shutdown s \<noteq> None"
proof -
  obtain s0 where new: "New (wLoadPair wld) (wReadKey wld) (wPem wld) (wPKCS1 wld) (wPKCS8 wld) conf dataDir = Inr s0"
    and st: "Start (wBind wld) s0 = (None, s)" and en: "Enabled conf"
    using assms by (auto simp: startMail_def split: if_splits sum.splits prod.splits option.splits)
  note fresh = New_fresh [OF new]
  have keep: "serverCfg s = serverCfg s0 \<and> serverTLS s = serverTLS s0 \<and> serverQueueDir s = serverQueueDir s0" by (rule Start_keeps [OF st])
  from Start_listeners [OF st] fresh keep en show ?thesis by auto
qed


definition demo_world :: "(string, string) world" where
  "demo_world = \<lparr>wLoadPair = (\<lambda>c k. None), wReadKey = (\<lambda>_. None), wPem = (\<lambda>_. None), wPKCS1 = (\<lambda>_. None), wPKCS8 = (\<lambda>_. None),
     wBind = (\<lambda>addr ls. Some addr), wRandom = Some ''0123456789abcdef0123456789abcdef'', wProxies = (\<lambda>_. True)\<rparr>"


end
