(* ===== verification/QueueDrain.thy ===== *)
theory QueueDrain
  imports RelayQueue
begin

text \<open>
  The worker over a whole run: passes that are at least six hours apart empty the
  queue, because every entry a pass finds is removed or has one attempt more, and
  the twelfth attempt is the last.
\<close>

section \<open>The state of the spool\<close>

definition spool_ok :: "mail_server \<Rightarrow> fsys \<Rightarrow> bool" where
  "spool_ok srv fs \<longleftrightarrow> wf_fs fs \<and> faults fs = []
    \<and> (\<forall>i e. queue_ident i \<and> entry_at srv fs i = Some e \<longrightarrow>
         qID e = i \<and> json_str i = i \<and> 0 \<le> qAttempts e \<and> qAttempts e < queueMaxAttempts
         \<and> (\<exists>m. file_at fs (bodyPath (queueDir srv) i) = Some (Bytes m)))"

text \<open>Every entry has been attempted \<open>n\<close> times and is due at \<open>t\<close>.\<close>

definition ladder :: "mail_server \<Rightarrow> nat \<Rightarrow> time \<Rightarrow> fsys \<Rightarrow> bool" where
  "ladder srv n t fs \<longleftrightarrow> (\<forall>i e. queue_ident i \<and> entry_at srv fs i = Some e \<longrightarrow> int n \<le> qAttempts e \<and> qNextTry e \<le> t)"

lemma queue_ident_iff: "queue_ident i \<longleftrightarrow> CHR ''/'' \<notin> set i"
  by (auto simp: queue_ident_def plain_name_def append_eq_Cons_conv)

lemma paths_inj:
  assumes "queue_ident i" "queue_ident j"
  shows "entryPath dir j = entryPath dir i \<longleftrightarrow> j = i" "bodyPath dir j = bodyPath dir i \<longleftrightarrow> j = i"
    "entryPath dir j \<noteq> bodyPath dir i" "bodyPath dir j \<noteq> entryPath dir i"
  by (auto simp: ident_paths assms)

section \<open>One attempt\<close>

definition advanced :: "mail_server \<Rightarrow> string set \<Rightarrow> time \<Rightarrow> fsys \<Rightarrow> fsys \<Rightarrow> bool" where
  "advanced srv I t fs fs' \<longleftrightarrow> (\<forall>i e'. queue_ident i \<and> entry_at srv fs' i = Some e' \<longrightarrow>
     (\<exists>e. entry_at srv fs i = Some e
       \<and> (if i \<in> I then qAttempts e' = qAttempts e + 1 \<and> qNextTry e' \<le> t else e' = e)))"

lemma advanced_trans:
  "advanced srv I t fs fs1 \<Longrightarrow> advanced srv J t fs1 fs2 \<Longrightarrow> I \<inter> J = {} \<Longrightarrow> advanced srv (I \<union> J) t fs fs2"
  unfolding advanced_def by (smt (verit, ccfv_threshold) Int_iff Un_iff empty_iff)

lemma advanced_refl: "advanced srv {} t fs fs"
  by (simp add: advanced_def)

lemma attempt_advances:
  assumes place: "queue_place srv" and ok: "spool_ok srv fs" and i: "queue_ident i" "entry_at srv fs i = Some e"
    and att: "attempt srv net order amb now e fs = (sent, fs')"
  shows "spool_ok srv fs' \<and> advanced srv {i} (now + 6 * hour) fs fs'"
proof -
  let ?Q = "queueDir srv"
  from ok i obtain m where e: "qID e = i" "json_str i = i" "0 \<le> qAttempts e" "qAttempts e < queueMaxAttempts"
    and m: "file_at fs (bodyPath ?Q i) = Some (Bytes m)" and fs: "wf_fs fs" "faults fs = []" by (auto simp: spool_ok_def)
  obtain c where c: "file_at fs (entryPath ?Q i) = Some c" "decode_entry c = Some e"
    using i(2) by (auto simp: entry_at_def bind_eq_Some_conv)
  have lim: "qAttempts e < 2 ^ 63 - 1" using e(4) by (simp add: queueMaxAttempts_def)
  note eff = attempt_effect [OF place _ fs _ _ e(3) lim att, unfolded e(1), OF i(1) c(1) m]
  have other: "entry_at srv fs' j = entry_at srv fs j" "file_at fs' (bodyPath ?Q j) = file_at fs (bodyPath ?Q j)"
    if "queue_ident j" "j \<noteq> i" for j
    using eff that paths_inj [OF i(1) that(1), of ?Q] place_outside [OF place] by (auto simp: entry_at_def ident_paths)
  let ?sound = "\<lambda>j e'. qID e' = j \<and> json_str j = j \<and> 0 \<le> qAttempts e' \<and> qAttempts e' < queueMaxAttempts
      \<and> (\<exists>m. file_at fs' (bodyPath ?Q j) = Some (Bytes m))"
  have here: "?sound i e' \<and> qAttempts e' = qAttempts e + 1 \<and> qNextTry e' \<le> now + 6 * hour" if "entry_at srv fs' i = Some e'" for e'
    using eff e that backoff_le [of "qAttempts e + 1"]
    by (auto simp: entry_at_def decode_entry_def dec_marshal_entry retried_def norm_entry_def int64_def queueMaxAttempts_def split: if_splits)
  have new: "?sound j e' \<and> (\<exists>e0. entry_at srv fs j = Some e0
      \<and> (if j \<in> {i} then qAttempts e' = qAttempts e0 + 1 \<and> qNextTry e' \<le> now + 6 * hour else e' = e0))"
    if j: "queue_ident j" "entry_at srv fs' j = Some e'" for j e'
  proof (cases "j = i")
    case True
    then show ?thesis using here [of e'] j i(2) by simp
  next
    case False
    then have "entry_at srv fs j = Some e'" using other [OF j(1)] j(2) by simp
    with False show ?thesis using other [OF j(1)] ok j(1) by (auto simp: spool_ok_def)
  qed
  have "wf_fs fs'" "faults fs' = []" using eff by blast+
  then show ?thesis using new unfolding spool_ok_def advanced_def by blast
qed


section \<open>One pass\<close>

lemma spool_read:
  assumes "faults fs = []"
  shows "entry_at srv fs i = Some e \<Longrightarrow> readEntry (queueDir srv) i fs = (Inr e, fs)"
    "entry_at srv fs i = None \<Longrightarrow> \<exists>err. readEntry (queueDir srv) i fs = (Inl err, fs)"
  by (auto simp: readEntry_def ReadFile_ok assms entry_at_def file_at_def split: option.splits node.splits)

lemma flush_files_advances:
  assumes place: "queue_place srv" and env: "\<And>k. \<not> stopAt env k \<and> nextAt env k \<le> u"
  shows "spool_ok srv fs \<Longrightarrow> distinct (map fst es) \<Longrightarrow> \<forall>x\<in>set es. plain_name (fst x) \<Longrightarrow>
    \<forall>k i e. (i @ ''.json'', False) \<in> set es \<and> entry_at srv fs i = Some e \<longrightarrow> qNextTry e \<le> timeAt env k \<Longrightarrow>
    flush_files srv env k es sent fs = (ts, fs') \<Longrightarrow>
    spool_ok srv fs' \<and> advanced srv {i. (i @ ''.json'', False) \<in> set es} (u + 6 * hour) fs fs'"
proof (induction es arbitrary: k sent fs)
  case Nil
  then show ?case using advanced_refl [of srv] by simp
next
  case (Cons x es)
  obtain name isDir where x: "x = (name, isDir)" by fastforce
  let ?J = "{i. (i @ ''.json'', False) \<in> set es}"
  show ?case
  proof (cases "isDir \<or> \<not> HasSuffix name ''.json''")
    case True
    then have "{i. (i @ ''.json'', False) \<in> set (x # es)} = ?J" by (auto simp: x HasSuffix_append)
    moreover have "flush_files srv env (k + 1) es sent fs = (ts, fs')" using Cons.prems(5) True by (simp add: x)
    moreover have "\<forall>x\<in>set es. plain_name (fst x)" using Cons.prems(3) by simp
    moreover have "\<forall>k i e. (i @ ''.json'', False) \<in> set es \<and> entry_at srv fs i = Some e \<longrightarrow> qNextTry e \<le> timeAt env k"
      using Cons.prems(4) by auto
    ultimately show ?thesis using Cons.IH [OF Cons.prems(1)] Cons.prems(2) by (simp del: list.set)
  next
    case False
    then obtain i where n: "name = i @ ''.json''" by (auto simp: HasSuffix_append)
    have J: "{i. (i @ ''.json'', False) \<in> set (x # es)} = {i} \<union> ?J" "{i} \<inter> ?J = {}"
      using Cons.prems(2) False by (auto simp: x n image_iff)
    have qi: "queue_ident i" using Cons.prems(3) by (simp add: x n queue_ident_iff plain_name_def)
    have ts: "TrimSuffix name ''.json'' = i" by (simp add: n TrimSuffix_append)
    have no: "\<not> stopAt env k" using env by blast
    have calm: "faults fs = []" using Cons.prems(1) by (simp add: spool_ok_def)
    obtain sent1 fs1 where step: "flush_files srv env (k + 1) es sent1 fs1 = (ts, fs')"
      and one: "spool_ok srv fs1" "advanced srv {i} (u + 6 * hour) fs fs1"
    proof (cases "entry_at srv fs i")
      case None
      then have "advanced srv {i} (u + 6 * hour) fs fs" by (auto simp: advanced_def)
      then show ?thesis using that [of sent fs] Cons.prems(1,5) None False no spool_read(2) [OF calm None] by (auto simp: x ts)
    next
      case (Some e)
      obtain us fs1 where att: "attempt srv (netAt env k) (orderAt env k) (ambAt env k) (nextAt env k) e fs = (us, fs1)" by fastforce
      have "\<not> timeAt env k < qNextTry e" using Cons.prems(4) False Some by (auto simp: not_less x n)
      then have "flush_files srv env (k + 1) es (sent @ us) fs1 = (ts, fs')"
        using Cons.prems(5) False no spool_read(1) [OF calm Some] att by (simp add: x ts)
      moreover have "spool_ok srv fs1" "advanced srv {i} (nextAt env k + 6 * hour) fs fs1"
        using attempt_advances [OF place Cons.prems(1) qi Some att] by blast+
      moreover have "advanced srv {i} (u + 6 * hour) fs fs1"
        using calculation(3) env [of k] unfolding advanced_def by fastforce
      ultimately show ?thesis using that by blast
    qed
    have due: "qNextTry e \<le> timeAt env k" if "(j @ ''.json'', False) \<in> set es" "entry_at srv fs1 j = Some e" for k j e
    proof -
      have "queue_ident j" "j \<noteq> i" using that(1) Cons.prems(3) J(2) by (auto simp: queue_ident_iff plain_name_def)
      then have "entry_at srv fs j = Some e" using one(2) that(2) unfolding advanced_def by fastforce
      then show ?thesis using Cons.prems(4) that(1) by auto
    qed
    have "spool_ok srv fs' \<and> advanced srv ?J (u + 6 * hour) fs1 fs'"
      using Cons.prems(2,3) due by (intro Cons.IH [OF one(1) _ _ _ step]) auto
    then show ?thesis using advanced_trans [OF one(2) _ J(2)] unfolding J(1) by blast
  qed
qed

lemma flush_advances:
  assumes place: "queue_place srv" and ok: "spool_ok srv fs" and lad: "ladder srv n t fs"
    and env: "\<And>k. \<not> stopAt env k \<and> t \<le> timeAt env k \<and> nextAt env k \<le> u"
  shows "spool_ok srv (snd (flush srv env fs)) \<and> ladder srv (Suc n) (u + 6 * hour) (snd (flush srv env fs))"
proof -
  let ?Q = "queueDir srv"
  have calm: "faults fs = []" "wf_fs fs" using ok by (auto simp: spool_ok_def)
  show ?thesis
  proof (cases "fs_lookup fs ?Q = Some Dir")
    case True
    let ?es = "map (\<lambda>n. (n, fs_lookup fs (?Q @ [n]) = Some Dir)) (dir_names fs ?Q)"
    obtain ts fs' where fl: "flush_files srv env 0 ?es [] fs = (ts, fs')" by fastforce
    have fs': "snd (flush srv env fs) = fs'" using fl by (simp add: flush_def ReadDir_ok [OF calm(1) True])
    have plain: "\<forall>x\<in>set ?es. plain_name (fst x)" using wf_fs_plain [OF calm(2), of ?Q] by (auto simp: set_dir_names)
    have due: "\<forall>k i e. (i @ ''.json'', False) \<in> set ?es \<and> entry_at srv fs i = Some e \<longrightarrow> qNextTry e \<le> timeAt env k"
    proof (intro allI impI, elim conjE)
      fix k i e assume i: "(i @ ''.json'', False) \<in> set ?es" and e: "entry_at srv fs i = Some e"
      from bspec [OF plain i] have "plain_name (i @ ''.json'')" by simp
      then have "queue_ident i" by (simp add: queue_ident_iff plain_name_def)
      with e lad have "qNextTry e \<le> t" by (simp add: ladder_def)
      then show "qNextTry e \<le> timeAt env k" using env [of k] by linarith
    qed
    have dst: "distinct (map fst ?es)" by (simp add: comp_def)
    have adv: "spool_ok srv fs'" "advanced srv {i. (i @ ''.json'', False) \<in> set ?es} (u + 6 * hour) fs fs'"
      using flush_files_advances [OF place _ ok dst plain due fl] env by blast+
    have "int (Suc n) \<le> qAttempts e' \<and> qNextTry e' \<le> u + 6 * hour" if j: "queue_ident j" "entry_at srv fs' j = Some e'" for j e'
    proof -
      obtain e where e: "entry_at srv fs j = Some e"
        and r: "if (j @ ''.json'', False) \<in> set ?es then qAttempts e' = qAttempts e + 1 \<and> qNextTry e' \<le> u + 6 * hour else e' = e"
        using adv(2) j unfolding advanced_def by auto
      then have "fs_lookup fs (?Q @ [j @ ''.json'']) \<noteq> None" "fs_lookup fs (?Q @ [j @ ''.json'']) \<noteq> Some Dir"
        by (auto simp: entry_at_def bind_eq_Some_conv file_at_Some ident_paths [OF j(1)])
      then have "(j @ ''.json'', False) \<in> set ?es" by (auto simp: set_dir_names image_iff)
      then show ?thesis using r e lad j(1) unfolding ladder_def by fastforce
    qed
    then show ?thesis using adv(1) unfolding fs' ladder_def by blast
  next
    case False
    have none: "entry_at srv fs j = None" if "queue_ident j" for j
      using False wf_fs_parent [OF calm(2), of ?Q "j @ ''.json''"] by (auto simp: entry_at_def ident_paths [OF that] file_at_def split: option.splits)
    have "snd (flush srv env fs) = fs" using False calm(1) by (auto simp: flush_def ReadDir_def split: option.splits node.splits)
    then show ?thesis using ok none by (auto simp: ladder_def)
  qed
qed

section \<open>A run\<close>

text \<open>Passes from time \<open>t\<close> on, each beginning six hours or more after the one before has ended.\<close>

fun spaced :: "time \<Rightarrow> queue_event list \<Rightarrow> bool" where
  "spaced t [] = True"
| "spaced t (Stop # evs) = False"
| "spaced t (Wake env # evs) = (\<exists>u. (\<forall>k. \<not> stopAt env k \<and> t \<le> timeAt env k \<and> nextAt env k \<le> u) \<and> spaced (u + 6 * hour) evs)"
| "spaced t (Tick env # evs) = (\<exists>u. (\<forall>k. \<not> stopAt env k \<and> t \<le> timeAt env k \<and> nextAt env k \<le> u) \<and> spaced (u + 6 * hour) evs)"

lemma run_events_ladder:
  assumes "queue_place srv"
  shows "spaced t evs \<Longrightarrow> spool_ok srv fs \<Longrightarrow> ladder srv n t fs \<Longrightarrow>
    \<exists>t'. spool_ok srv (run_events srv evs fs) \<and> ladder srv (n + length evs) t' (run_events srv evs fs)"
proof (induction t evs arbitrary: fs n rule: spaced.induct)
  case (1 t)
  then show ?case by auto
next
  case (3 t env evs)
  from "3.prems"(1) obtain u where u: "\<And>k. \<not> stopAt env k \<and> t \<le> timeAt env k \<and> nextAt env k \<le> u" "spaced (u + 6 * hour) evs" by auto
  with "3.IH" [OF u(2)] flush_advances [OF assms "3.prems"(2,3) u(1)] show ?case by fastforce
next
  case (4 t env evs)
  from "4.prems"(1) obtain u where u: "\<And>k. \<not> stopAt env k \<and> t \<le> timeAt env k \<and> nextAt env k \<le> u" "spaced (u + 6 * hour) evs" by auto
  with "4.IH" [OF u(2)] flush_advances [OF assms "4.prems"(2,3) u(1)] show ?case by fastforce
qed simp

text \<open>
  C18. The queue drains. Whatever the network answers, twelve passes of the worker without file
  system faults, each beginning six hours or more after the one before has ended, leave no entry
  that decodes in the spool: every message has been delivered, rejected or given up, and no
  message is retried forever.
\<close>

theorem queue_drains:
  assumes "queue_place srv" "spool_ok srv fs" "\<forall>i e. queue_ident i \<and> entry_at srv fs i = Some e \<longrightarrow> qNextTry e \<le> t"
    "spaced t evs" "queueMaxAttempts \<le> int (length evs)" "queue_ident i"
  shows "entry_at srv (run_events srv evs fs) i = None"
proof -
  have "ladder srv 0 t fs" using assms(2,3) by (auto simp: ladder_def spool_ok_def)
  then obtain t' where "spool_ok srv (run_events srv evs fs)" "ladder srv (length evs) t' (run_events srv evs fs)"
    using run_events_ladder [OF assms(1,4,2)] by fastforce
  then show ?thesis
    using assms(5,6) by (cases "entry_at srv (run_events srv evs fs) i") (fastforce simp: ladder_def spool_ok_def)+
qed

definition demo_pass :: "nat \<Rightarrow> pass_env" where
  "demo_pass n = \<lparr>stopAt = (\<lambda>_. False), timeAt = (\<lambda>_. int n * 6 * hour), nextAt = (\<lambda>_. int n * 6 * hour), netAt = (\<lambda>_. demo_net),
     orderAt = (\<lambda>_ gs. gs), ambAt = (\<lambda>_ _. demo_amb)\<rparr>"

lemma demo_entry_at:
  assumes "queue_ident i"
  shows "entry_at (demo_server (env_config Map.empty)) demo_spool i = (if i = ''1'' then Some demo_entry else None)"
proof -
  have "i @ ''.json'' = ''1.json'' \<longleftrightarrow> i = ''1''" using append_same_eq [of i "''.json''" "''1''"] by simp
  moreover have "i @ ''.json'' \<noteq> ''1.eml''" using arg_cong [where f = last, of "i @ ''.json''" "''1.eml''"] by auto
  moreover have "decode_entry (Json (marshal_entry demo_entry)) = Some demo_entry"
    by (simp add: decode_entry_def dec_marshal_entry norm_entry_def demo_entry_def int64_def ascii_def)
  ultimately show ?thesis
    using assms by (simp add: entry_at_def demo_smarthost ident_paths demo_spool_def file_at_def fs_lookup_def)
qed

lemma demo_spool_ok: "spool_ok (demo_server (env_config Map.empty)) demo_spool"
  using wf_demo_spool demo_queue
  by (auto simp: spool_ok_def demo_entry_at demo_smarthost demo_entry_def queueMaxAttempts_def ascii_def split: if_splits)

lemma demo_spaced: "spaced (int a * 6 * hour) (map (\<lambda>n. Tick (demo_pass n)) [a..<a + k])"
proof (induction k arbitrary: a)
  case (Suc k)
  have "spaced (int a * 6 * hour + 6 * hour) (map (\<lambda>n. Tick (demo_pass n)) [Suc a..<Suc a + k])"
    using Suc [of "Suc a"] by (simp add: algebra_simps)
  then have "\<exists>u. (\<forall>j. \<not> stopAt (demo_pass a) j \<and> int a * 6 * hour \<le> timeAt (demo_pass a) j \<and> nextAt (demo_pass a) j \<le> u)
      \<and> spaced (u + 6 * hour) (map (\<lambda>n. Tick (demo_pass n)) [Suc a..<Suc a + k])"
    by (intro exI [of _ "int a * 6 * hour"]) (simp add: demo_pass_def)
  then show ?case by (simp add: upt_conv_Cons del: upt_Suc)
qed simp

theorem queue_drains_witness:
  "entry_at (demo_server (env_config Map.empty))
     (run_events (demo_server (env_config Map.empty)) (map (\<lambda>n. Tick (demo_pass n)) [0..<12]) demo_spool) ''1'' = None"
proof (rule queue_drains [OF demo_queue(1) demo_spool_ok])
  show "\<forall>i e. queue_ident i \<and> entry_at (demo_server (env_config Map.empty)) demo_spool i = Some e \<longrightarrow> qNextTry e \<le> 0"
    by (auto simp: demo_entry_at demo_entry_def split: if_splits)
  show "spaced 0 (map (\<lambda>n. Tick (demo_pass n)) [0..<12])" using demo_spaced [of 0 12] by simp
qed (simp_all add: demo_queue(2) queueMaxAttempts_def)

end
