(* ===== verification/QueueWorker.thy ===== *)
theory QueueWorker
  imports Relay
begin

text \<open>
  The worker of the outbound queue and the channels of \<^verbatim>\<open>mail/relay.go\<close>: how submissions wake
  it and how a shutdown ends it. The mutex of \<^verbatim>\<open>enqueue\<close> is not taken by a pass, so a
  submission is two steps for the worker, the entry on disk and the signal, and a
  pass is one step for the listing and one for each entry. What an attempt does
  to an entry is the subject of \<^verbatim>\<open>RelayQueue\<close>; here an entry counts as visited once
  the pass has come to it. The listing of the spool is assumed to succeed.
\<close>

section \<open>Channels\<close>

text \<open>
  \<open>chanWake\<close> is the buffer of capacity one of \<^verbatim>\<open>wake\<close>; \<open>chanStop\<close> and \<open>chanDone\<close> tell whether
  \<^verbatim>\<open>stop\<close> and \<^verbatim>\<open>done\<close> are closed.
\<close>

record queue =
  chanWake :: bool
  chanStop :: bool
  chanDone :: bool

definition newQueue :: queue where
  "newQueue = \<lparr>chanWake = False, chanStop = False, chanDone = False\<rparr>"

text \<open>A send that does not block: on a full buffer nothing happens.\<close>

definition signal :: "queue \<Rightarrow> queue" where
  "signal q = (if chanWake q then q else q\<lparr>chanWake := True\<rparr>)"

text \<open>The first half of \<^verbatim>\<open>shutdown\<close>; the second waits until \<open>chanDone\<close> holds.\<close>

definition close_stop :: "queue \<Rightarrow> queue" where
  "close_stop q = q\<lparr>chanStop := True\<rparr>"

section \<open>The worker and the submissions\<close>

datatype worker = NotStarted | Listing | Passing "string list" | Waiting | Finished

record queue_world =
  qchan :: queue
  worker :: worker
  spool :: "string list"
  signalling :: "string list"
  visited :: "string set"

definition world_init :: "queue_world \<Rightarrow> bool" where
  "world_init w \<longleftrightarrow> qchan w = newQueue \<and> worker w = NotStarted \<and> signalling w = [] \<and> visited w = {}"

text \<open>
  The steps of submissions (\<open>Spool\<close>, \<open>Signal\<close>), of the worker, and of a shutdown. Where \<^verbatim>\<open>select\<close>
  has several cases ready it may take any of them. An entry leaves the spool only after it has
  been visited.
\<close>

inductive worker_step :: "queue_world \<Rightarrow> queue_world \<Rightarrow> bool" where
  Start: "worker w = NotStarted \<Longrightarrow> worker_step w (w\<lparr>worker := Listing\<rparr>)"
| List: "worker w = Listing \<Longrightarrow> worker_step w (w\<lparr>worker := Passing (spool w)\<rparr>)"
| Visit: "worker w = Passing (i # is) \<Longrightarrow> \<not> chanStop (qchan w) \<Longrightarrow>
    worker_step w (w\<lparr>worker := Passing is, visited := insert i (visited w)\<rparr>)"
| StopPass: "worker w = Passing (i # is) \<Longrightarrow> chanStop (qchan w) \<Longrightarrow> worker_step w (w\<lparr>worker := Waiting\<rparr>)"
| EndPass: "worker w = Passing [] \<Longrightarrow> worker_step w (w\<lparr>worker := Waiting\<rparr>)"
| WakeUp: "worker w = Waiting \<Longrightarrow> chanWake (qchan w) \<Longrightarrow>
    worker_step w (w\<lparr>worker := Listing, qchan := (qchan w)\<lparr>chanWake := False\<rparr>\<rparr>)"
| TickUp: "worker w = Waiting \<Longrightarrow> worker_step w (w\<lparr>worker := Listing\<rparr>)"
| Halt: "worker w = Waiting \<Longrightarrow> chanStop (qchan w) \<Longrightarrow>
    worker_step w (w\<lparr>worker := Finished, qchan := (qchan w)\<lparr>chanDone := True\<rparr>\<rparr>)"

inductive world_step :: "queue_world \<Rightarrow> queue_world \<Rightarrow> bool" where
  Spool: "i \<notin> set (spool w) \<Longrightarrow> i \<notin> visited w \<Longrightarrow>
    world_step w (w\<lparr>spool := spool w @ [i], signalling := i # signalling w\<rparr>)"
| Signal: "signalling w = xs @ i # ys \<Longrightarrow> world_step w (w\<lparr>signalling := xs @ ys, qchan := signal (qchan w)\<rparr>)"
| Unspool: "i \<in> visited w \<Longrightarrow> world_step w (w\<lparr>spool := removeAll i (spool w)\<rparr>)"
| Close: "world_step w (w\<lparr>qchan := close_stop (qchan w)\<rparr>)"
| Worker: "worker_step w w' \<Longrightarrow> world_step w w'"

inductive_cases worker_stepE: "worker_step w w'"
inductive_cases world_stepE: "world_step w w'"

section \<open>No wake-up is lost\<close>

text \<open>An entry that is taken care of: visited, or a visit is certain to be caused.\<close>

definition covered :: "queue_world \<Rightarrow> string \<Rightarrow> bool" where
  "covered w i \<longleftrightarrow> i \<in> visited w \<or> worker w \<in> {NotStarted, Listing} \<or> chanWake (qchan w) \<or> i \<in> set (signalling w)
    \<or> (\<exists>is. worker w = Passing is \<and> i \<in> set is)"

definition world_inv :: "queue_world \<Rightarrow> bool" where
  "world_inv w \<longleftrightarrow> (\<not> chanStop (qchan w) \<longrightarrow> (\<forall>i\<in>set (spool w). covered w i))
    \<and> (chanDone (qchan w) \<longleftrightarrow> worker w = Finished) \<and> (worker w = Finished \<longrightarrow> chanStop (qchan w))"

lemma world_inv_worker: "world_inv w \<Longrightarrow> worker_step w w' \<Longrightarrow> world_inv w'"
  by (erule worker_stepE) (auto simp: world_inv_def covered_def)

lemma world_inv_step: "world_inv w \<Longrightarrow> world_step w w' \<Longrightarrow> world_inv w'"
  by (erule world_stepE, simp_all add: world_inv_worker) (auto simp: world_inv_def covered_def signal_def close_stop_def)

lemma world_inv_init: "world_init w \<Longrightarrow> world_inv w"
  by (simp add: world_init_def world_inv_def covered_def newQueue_def)

interpretation queue_worker: counted_invariant world_init world_step "\<lambda>_. world_inv" n for n
  by unfold_locales (rule world_inv_init, assumption, rule world_inv_step)

section \<open>A shutdown ends\<close>

text \<open>The steps the worker still has to take after the stop channel is closed, and one of them.\<close>

definition remaining :: "worker \<Rightarrow> nat" where
  "remaining p = (case p of NotStarted \<Rightarrow> 4 | Listing \<Rightarrow> 3 | Passing _ \<Rightarrow> 2 | Waiting \<Rightarrow> 1 | Finished \<Rightarrow> 0)"

lemma worker_progress:
  assumes "chanStop (qchan w)" "remaining (worker w) = Suc k"
  shows "\<exists>w'. worker_step w w' \<and> remaining (worker w') = k \<and> chanStop (qchan w')"
proof (cases "worker w")
  case NotStarted
  from Start [OF this] show ?thesis by (intro exI conjI) (assumption, use assms in \<open>simp_all add: remaining_def NotStarted\<close>)
next
  case Listing
  from List [OF this] show ?thesis by (intro exI conjI) (assumption, use assms in \<open>simp_all add: remaining_def Listing\<close>)
next
  case (Passing names)
  then have "worker_step w (w\<lparr>worker := Waiting\<rparr>)" using assms(1) by (cases names) (auto intro: EndPass StopPass)
  then show ?thesis by (intro exI conjI) (assumption, use assms in \<open>simp_all add: remaining_def Passing\<close>)
next
  case Waiting
  from Halt [OF this assms(1)] show ?thesis by (intro exI conjI) (assumption, use assms in \<open>simp_all add: remaining_def Waiting\<close>)
next
  case Finished
  with assms show ?thesis by (simp add: remaining_def)
qed

lemma stopped_visits: "worker_step w w' \<Longrightarrow> chanStop (qchan w) \<Longrightarrow> visited w' = visited w"
  by (auto elim!: worker_stepE)

lemma worker_ends:
  "chanStop (qchan w) \<Longrightarrow> world_inv w \<Longrightarrow> remaining (worker w) = k \<Longrightarrow>
   \<exists>w'. (worker_step ^^ k) w w' \<and> chanDone (qchan w') \<and> visited w' = visited w"
proof (induction k arbitrary: w)
  case 0
  then have "worker w = Finished" by (simp add: remaining_def split: worker.splits)
  with 0 show ?case by (simp add: world_inv_def)
next
  case (Suc k)
  then obtain v where v: "worker_step w v" "remaining (worker v) = k" "chanStop (qchan v)" using worker_progress by blast
  with Suc.IH [of v] world_inv_worker [OF Suc.prems(2)]
  obtain w' where "(worker_step ^^ k) v w'" "chanDone (qchan w')" "visited w' = visited v" by blast
  with v(1) stopped_visits [OF v(1) Suc.prems(1)] show ?case by (metis relpowp_Suc_I2)
qed

text \<open>
  C19. No wake-up is lost, and a shutdown ends. In every state that submissions, the worker and a
  shutdown can reach together: while the queue is not stopped, an entry on disk that no pass has
  come to yet is in the running pass, or a wake-up is buffered, or its submission is about to
  signal, so the worker never sleeps on a new entry. The worker is done only after a stop. Once
  the queue is stopped, no further entry is visited, whichever cases the worker selects, and it
  can always finish within four steps.
\<close>

theorem queue_no_lost_wakeup:
  assumes "reach world_init world_step n w"
  shows "(\<not> chanStop (qchan w) \<and> worker w = Waiting \<longrightarrow>
      (\<forall>i\<in>set (spool w) - visited w. chanWake (qchan w) \<or> i \<in> set (signalling w)))
    \<and> (\<not> chanStop (qchan w) \<and> worker w = Passing is \<longrightarrow>
      (\<forall>i\<in>set (spool w) - visited w. i \<in> set is \<or> chanWake (qchan w) \<or> i \<in> set (signalling w)))
    \<and> (chanDone (qchan w) \<longrightarrow> chanStop (qchan w))
    \<and> (chanStop (qchan w) \<longrightarrow> (\<forall>w'. worker_step w w' \<longrightarrow> visited w' = visited w)
        \<and> (\<exists>k\<le>4. \<exists>w'. (worker_step ^^ k) w w' \<and> chanDone (qchan w') \<and> visited w' = visited w))"
proof -
  have inv: "world_inv w" by (rule queue_worker.reach_inv [OF assms order_refl])
  have "remaining (worker w) \<le> 4" by (simp add: remaining_def split: worker.splits)
  then have ends: "\<exists>k\<le>4. \<exists>w'. (worker_step ^^ k) w w' \<and> chanDone (qchan w') \<and> visited w' = visited w" if "chanStop (qchan w)"
    using worker_ends [OF that inv refl] by blast
  have "visited w' = visited w" if "chanStop (qchan w)" "worker_step w w'" for w'
    using stopped_visits [OF that(2,1)] .
  with ends inv show ?thesis by (auto simp: world_inv_def covered_def)
qed

theorem queue_no_lost_wakeup_witness:
  "\<exists>w. reach world_init world_step 4 w \<and> set (spool w) = {''a''} \<and> worker w = Waiting \<and> visited w = {} \<and> ''a'' \<in> set (signalling w)"
proof -
  let ?a = "\<lparr>qchan = newQueue, worker = NotStarted, spool = [], signalling = [], visited = {}\<rparr>"
  let ?b = "?a\<lparr>worker := Listing\<rparr>" and ?c = "?a\<lparr>worker := Passing []\<rparr>"
  let ?e = "?a\<lparr>worker := Passing [], spool := [''a''], signalling := [''a'']\<rparr>"
  let ?d = "?a\<lparr>worker := Waiting, spool := [''a''], signalling := [''a'']\<rparr>"
  have "reach world_init world_step 0 ?a" by (rule reach_init) (simp add: world_init_def)
  moreover have "world_step ?a ?b" using Worker [OF Start [of ?a]] by simp
  ultimately have "reach world_init world_step (Suc 0) ?b" by (rule reach_step)
  moreover have "world_step ?b ?c" using Worker [OF List [of ?b]] by simp
  ultimately have "reach world_init world_step (Suc (Suc 0)) ?c" by (rule reach_step)
  moreover have "world_step ?c ?e" using Spool [of "''a''" ?c] by simp
  ultimately have "reach world_init world_step (Suc (Suc (Suc 0))) ?e" by (rule reach_step)
  moreover have "world_step ?e ?d" using Worker [OF EndPass [of ?e]] by simp
  ultimately have r: "reach world_init world_step (Suc (Suc (Suc (Suc 0)))) ?d" by (rule reach_step)
  have "chanWake (qchan ?d) \<or> ''a'' \<in> set (signalling ?d)" using queue_no_lost_wakeup [OF r] by (simp add: newQueue_def)
  with r show ?thesis by (intro exI [of _ ?d]) (simp add: newQueue_def eval_nat_numeral)
qed

end
