(* ===== verification/Pop3Sessions.thy ===== *)
theory Pop3Sessions
  imports Pop3
begin

text \<open>
  What POP3 sessions guarantee: a client recovers every multi-line answer, message
  numbers are fixed for the session, nobody is authenticated without a login and
  TLS where it is available, and messages are removed only by \<^verbatim>\<open>QUIT\<close>.
\<close>

section \<open>Multi-line answers\<close>

text \<open>A client: it collects lines up to the line with a single dot and removes a leading dot.\<close>

definition unstuffed :: "string \<Rightarrow> string" where
  "unstuffed line = (if HasPrefix line ''.'' then tl line else line)"

fun client :: "string \<Rightarrow> string \<Rightarrow> (string list \<times> string) option" where
  "client cur [] = None"
| "client cur (c # cs) =
    (if c = CHR 0x0A \<and> cur \<noteq> [] \<and> last cur = CHR 0x0D then
       if butlast cur = ''.'' then Some ([], cs) else map_option (apfst ((#) (unstuffed (butlast cur)))) (client [] cs)
     else client (cur @ [c]) cs)"

lemma client_line:
  "CHR 0x0A \<notin> set l \<Longrightarrow> client cur (l @ CRLF @ rest) =
    (if cur @ l = ''.'' then Some ([], rest) else map_option (apfst ((#) (unstuffed (cur @ l)))) (client [] rest))"
  by (induction l arbitrary: cur) (auto simp: CRLF_def)

lemma client_stuffed:
  "CHR 0x0A \<notin> set l \<Longrightarrow> client [] (stuffed l @ rest) = map_option (apfst ((#) l)) (client [] rest)"
  using client_line [of "if HasPrefix l ''.'' then ''.'' @ l else l" "[]" rest]
  by (cases l) (auto simp: stuffed_def HasPrefix_def unstuffed_def)

text \<open>The lines of a message that a limit on body lines lets through.\<close>

definition top_lines :: "int \<Rightarrow> string list \<Rightarrow> string list" where
  "top_lines n ls =
    (if n < 0 then ls
     else takeWhile (\<lambda>l. l \<noteq> []) ls @ take 1 (dropWhile (\<lambda>l. l \<noteq> []) ls) @ take (nat n) (drop 1 (dropWhile (\<lambda>l. l \<noteq> []) ls)))"

lemma read_lines_lf: "CHR 0x0A \<notin> set line \<Longrightarrow> l \<in> set (read_lines line s) \<Longrightarrow> CHR 0x0A \<notin> set (butlast l)"
  by (induction line s rule: read_lines.induct) (auto split: if_splits dest: in_set_butlastD)

lemma trim_line_lf:
  assumes "CHR 0x0A \<notin> set (butlast l)"
  shows "CHR 0x0A \<notin> set (trim_line l)"
proof (cases l rule: rev_cases)
  case (snoc b c)
  have "set (rev (dropWhile P (rev b))) \<subseteq> set b" for P using set_dropWhileD by fastforce
  then show ?thesis using assms snoc by (auto simp: trim_line_def TrimRight_def CRLF_def dest: set_dropWhileD)
qed (simp add: trim_line_def TrimRight_def)

lemma dotted_all:
  "\<forall>l\<in>set ls. CHR 0x0A \<notin> set (trim_line l) \<Longrightarrow> n < 0 \<Longrightarrow>
   client [] (dotted n True e ls @ ''.'' @ CRLF @ rest) = Some (map trim_line ls, rest)"
  by (induction ls) (use client_line [of "''.''" "[]" rest] in \<open>auto simp: client_stuffed\<close>)

lemma dotted_body:
  "\<forall>l\<in>set ls. CHR 0x0A \<notin> set (trim_line l) \<Longrightarrow> 0 \<le> e \<Longrightarrow> e \<le> n \<Longrightarrow>
   client [] (dotted n True e ls @ ''.'' @ CRLF @ rest) = Some (take (nat (n - e)) (map trim_line ls), rest)"
proof (induction ls arbitrary: e)
  case Nil
  then show ?case using client_line [of "''.''" "[]" rest] by simp
next
  case (Cons l ls)
  show ?case
  proof (cases "n \<le> e")
    case True
    then show ?thesis using Cons.prems client_line [of "''.''" "[]" rest] by simp
  next
    case False
    then have "nat (n - e) = Suc (nat (n - (e + 1)))" by simp
    then show ?thesis using False Cons.prems Cons.IH [of "e + 1"] by (simp add: client_stuffed)
  qed
qed

lemma dotted_header:
  "\<forall>l\<in>set ls. CHR 0x0A \<notin> set (trim_line l) \<Longrightarrow> 0 \<le> n \<Longrightarrow>
   client [] (dotted n False 0 ls @ ''.'' @ CRLF @ rest) = Some (top_lines n (map trim_line ls), rest)"
proof (induction ls)
  case Nil
  then show ?case using client_line [of "''.''" "[]" rest] by (simp add: top_lines_def)
next
  case (Cons l ls)
  show ?case
  proof (cases "trim_line l = []")
    case True
    then show ?thesis using Cons.prems dotted_body [of ls 0 n rest] by (simp add: client_stuffed [of "[]", simplified] top_lines_def)
  next
    case False
    then show ?thesis using Cons by (simp add: client_stuffed top_lines_def)
  qed
qed

definition crlf_text :: "string \<Rightarrow> bool" where
  "crlf_text body \<longleftrightarrow> list_all (\<lambda>l. HasSuffix l CRLF \<and> \<not> HasSuffix l (CHR 0x0D # CRLF)) (read_lines [] body)"

lemma concat_read_lines: "concat (read_lines line s) = line @ s"
  by (induction line s rule: read_lines.induct) auto


lemma trim_exact:
  assumes "HasSuffix l CRLF" "\<not> HasSuffix l (CHR 0x0D # CRLF)" "CHR 0x0A \<notin> set (butlast l)"
  shows "trim_line l @ CRLF = l"
proof -
  obtain r where r: "l = r @ CRLF" using assms(1) by (auto simp: HasSuffix_append)
  have "dropWhile (\<lambda>c. c \<in> set CRLF) (rev r) = rev r"
  proof (cases r rule: rev_cases)
    case (snoc q c)
    have "c \<noteq> CHR 0x0D" using assms(2) r snoc by (auto simp: HasSuffix_append)
    moreover have "c \<noteq> CHR 0x0A" using assms(3) r snoc by (auto simp: CRLF_def butlast_append)
    ultimately show ?thesis using snoc by (simp add: CRLF_def)
  qed simp
  then show ?thesis by (simp add: trim_line_def TrimRight_def r CRLF_def)
qed

text \<open>
  C33. Multi-line answers reach the client. Whatever the message is and whatever follows on the
  connection, a client that reads up to the line with a single dot and removes leading dots gets
  exactly the lines of the message (for \<^verbatim>\<open>TOP\<close> the header, the blank line and the first lines of
  the body), and the rest is left for the next answer: no line of a message can end the answer
  early. A message whose lines all end in one carriage return and line feed is recovered byte for
  byte.
\<close>

theorem writeDotted_decodes:
  "client [] (writeDotted body n @ rest) = Some (top_lines n (map trim_line (read_lines [] body)), rest)
   \<and> (crlf_text body \<longrightarrow> concat (map (\<lambda>l. l @ CRLF) (map trim_line (read_lines [] body))) = body)"
proof
  have lf: "\<forall>l\<in>set (read_lines [] body). CHR 0x0A \<notin> set (trim_line l)"
    using read_lines_lf [of "[]" _ body] trim_line_lf by auto
  then show "client [] (writeDotted body n @ rest) = Some (top_lines n (map trim_line (read_lines [] body)), rest)"
    using dotted_all [OF lf, of n 0 rest] dotted_header [OF lf, of n rest] by (auto simp: writeDotted_def top_lines_def)
  show "crlf_text body \<longrightarrow> concat (map (\<lambda>l. l @ CRLF) (map trim_line (read_lines [] body))) = body"
  proof
    assume "crlf_text body"
    then have "map (\<lambda>l. trim_line l @ CRLF) (read_lines [] body) = read_lines [] body"
      using trim_exact read_lines_lf [of "[]" _ body] by (auto simp: crlf_text_def list_all_iff intro!: map_idI)
    then show "concat (map (\<lambda>l. l @ CRLF) (map trim_line (read_lines [] body))) = body"
      using concat_read_lines [of "[]" body] by (simp add: comp_def)
  qed
qed

theorem writeDotted_decodes_witness:
  "client [] (writeDotted (''a: b'' @ CRLF @ CRLF @ ''.x'' @ CRLF @ ''y'' @ CRLF) 1 @ ''+OK'') = Some ([''a: b'', [], ''.x''], ''+OK'')
   \<and> crlf_text (''a'' @ CRLF)"
  using writeDotted_decodes [of "''a: b'' @ CRLF @ CRLF @ ''.x'' @ CRLF @ ''y'' @ CRLF" 1 "''+OK''"]
  by (simp add: CRLF_def trim_line_def TrimRight_def top_lines_def crlf_text_def HasSuffix_def HasPrefix_def)

section \<open>Sessions\<close>

record pop_state =
  popSess :: pop3Session
  popFiles :: fsys

definition pop_init :: "pop_state \<Rightarrow> bool" where
  "pop_init st \<longleftrightarrow> (\<exists>tls. popSess st = new_pop3 tls)"

text \<open>Between two commands the rest of the service may change the files in any way.\<close>

inductive pop_step :: "mail_server \<Rightarrow> pop_state \<Rightarrow> pop_state \<Rightarrow> bool" for srv where
  PopEnv: "pop_step srv st (st\<lparr>popFiles := fs'\<rparr>)"
| PopCommand: "handle srv handshake now command argument (popSess st) (popFiles st) = (out, goesOn, p', fs') \<Longrightarrow>
    pop_step srv st (st\<lparr>popSess := p', popFiles := fs'\<rparr>)"

definition pop_inv :: "mail_server \<Rightarrow> pop3Session \<Rightarrow> bool" where
  "pop_inv srv p \<longleftrightarrow> (popAccount p = None \<longleftrightarrow> popSnapshot p = None)
    \<and> (popAccount p \<noteq> None \<and> tlsOn srv \<longrightarrow> popTLS p)
    \<and> set (popDeleted p) \<subseteq> msgUID ` set (pop_messages p)"

text \<open>What a command may do to the session.\<close>

lemma pop_message_Inr:
  assumes "pop_message argument p = Inr (number, msg)"
  shows "popAccount p \<noteq> None" "1 \<le> number" "number \<le> int (length (pop_messages p))" "msg = pop_messages p ! nat (number - 1)"
    "msg \<in> set (pop_messages p)" "msgUID msg \<notin> set (popDeleted p)"
  using assms by (auto simp: pop_message_def Let_def split: if_splits option.splits)

lemma pass_session:
  assumes "pass srv now password p fs = (out, p', fs')"
  shows "p' = p \<or> (\<exists>a s. popAccount p = None \<and> (tlsOn srv \<longrightarrow> popTLS p) \<and> fst (server_login srv (popUser p) password fs) = Some a
      \<and> p' = p\<lparr>popAccount := Some a, popSnapshot := Some s\<rparr>)"
  using assms by (auto simp: pass_def split: if_splits prod.splits option.splits sum.splits)

lemma same_session:
  "fst (snd (retr srv now argument p fs)) = p" "fst (snd (pop_top srv argument p fs)) = p" "fst (snd (quit srv now p fs)) = p"
  by (auto simp: retr_def pop_top_def quit_def split: prod.splits option.splits sum.splits list.splits)

lemma handle_session_eq:
  "fst (snd (snd (handle srv handshake now command argument p fs))) =
    (if command = ''STLS'' then snd (snd (startTLS srv handshake p))
     else if command = ''USER'' then p\<lparr>popUser := argument\<rparr>
     else if command = ''PASS'' then fst (snd (pass srv now argument p fs))
     else if command = ''DELE'' then snd (dele argument p)
     else if command = ''RSET'' then snd (rset p) else p)"
  by (simp add: handle_def case_prod_beta same_session)

text \<open>The session after a command.\<close>

lemma handle_session:
  assumes "handle srv handshake now command argument p fs = (out, goesOn, p', fs')"
  obtains (same) "p' = p" | (tls) "p' = p\<lparr>popTLS := True\<rparr>" | (user) "p' = p\<lparr>popUser := argument\<rparr>"
  | (login) a s where "command = ''PASS''" "popAccount p = None" "tlsOn srv \<longrightarrow> popTLS p" "fst (server_login srv (popUser p) argument fs) = Some a"
      "p' = p\<lparr>popAccount := Some a, popSnapshot := Some s\<rparr>"
  | (mark) number msg where "pop_message argument p = Inr (number, msg)" "p' = p\<lparr>popDeleted := List.insert (msgUID msg) (popDeleted p)\<rparr>"
  | (clear) "p' = p\<lparr>popDeleted := []\<rparr>"
proof -
  note eq = handle_session_eq [of srv handshake now command argument p fs, unfolded assms, simplified]
  consider (s) "command = ''STLS''" | (u) "command = ''USER''" | (l) "command = ''PASS''" | (d) "command = ''DELE''" | (r) "command = ''RSET''"
    | (o) "command \<notin> {''STLS'', ''USER'', ''PASS'', ''DELE'', ''RSET''}" by auto
  then show thesis
  proof cases
    case s
    then show thesis using eq same tls by (auto simp: startTLS_def split: if_splits)
  next
    case u
    then show thesis using eq user by simp
  next
    case l
    then obtain out1 fs1 where "pass srv now argument p fs = (out1, p', fs1)"
      using eq by (cases "pass srv now argument p fs") simp
    from pass_session [OF this] l same login show thesis by blast
  next
    case d
    then show thesis using eq same mark by (auto simp: dele_def split: sum.splits)
  next
    case r
    then show thesis using eq same clear by (auto simp: rset_def split: if_splits)
  next
    case o
    then show thesis using eq same by simp
  qed
qed

lemma handle_inv:
  assumes "handle srv handshake now command argument p fs = (out, goesOn, p', fs')" "pop_inv srv p"
  shows "pop_inv srv p'" "popAccount p \<noteq> None \<Longrightarrow> popAccount p' = popAccount p \<and> popSnapshot p' = popSnapshot p"
  using assms(1)
  by (rule handle_session; use assms(2) pop_message_Inr(5) in \<open>force simp: pop_inv_def pop_messages_def\<close>)+


lemma pop_inv_step: "pop_inv srv (popSess st) \<Longrightarrow> n < b \<Longrightarrow> pop_step srv st st' \<Longrightarrow> pop_inv srv (popSess st')"
  by (erule pop_step.cases) (auto dest: handle_inv(1))

lemma pop_inv_init: "pop_init st \<Longrightarrow> pop_inv srv (popSess st)"
  by (auto simp: pop_init_def pop_inv_def new_pop3_def)

interpretation pop_machine: counted_invariant pop_init "pop_step srv" "\<lambda>_ st. pop_inv srv (popSess st)" n for srv n
  by unfold_locales (rule pop_inv_init, assumption, rule pop_inv_step)

lemma pop_steps_stable:
  assumes "(pop_step srv)\<^sup>*\<^sup>* st st'" "pop_inv srv (popSess st)" "popAccount (popSess st) \<noteq> None"
  shows "pop_inv srv (popSess st') \<and> popAccount (popSess st') = popAccount (popSess st) \<and> popSnapshot (popSess st') = popSnapshot (popSess st)"
  using assms
proof (induction rule: rtranclp_induct)
  case (step st1 st2)
  then have inv: "pop_inv srv (popSess st1)" "popAccount (popSess st1) \<noteq> None" by auto
  from step(2) have "pop_inv srv (popSess st2) \<and> popAccount (popSess st2) = popAccount (popSess st1) \<and> popSnapshot (popSess st2) = popSnapshot (popSess st1)"
    using handle_inv inv by cases auto
  then show ?case using step by simp
qed simp

text \<open>
  C31. Safety of POP3 sessions. In every state a session can reach, with any commands and with the
  rest of the service changing the files in between: an account is there only if the connection
  is encrypted or the server has no certificate; it can only come from a \<^verbatim>\<open>PASS\<close> whose password
  the account store accepted; and from then on neither the account nor the numbering of the
  messages changes until the session ends.
\<close>

theorem pop3_session_safe:
  assumes "reach pop_init (pop_step srv) n st"
  shows "(popAccount (popSess st) \<noteq> None \<and> tlsOn srv \<longrightarrow> popTLS (popSess st))
    \<and> (\<forall>handshake now command argument out goesOn p' fs' a. popAccount (popSess st) = None \<and> popAccount p' = Some a \<and>
         handle srv handshake now command argument (popSess st) (popFiles st) = (out, goesOn, p', fs') \<longrightarrow>
         command = ''PASS'' \<and> fst (server_login srv (popUser (popSess st)) argument (popFiles st)) = Some a)
    \<and> (\<forall>st'. (pop_step srv)\<^sup>*\<^sup>* st st' \<and> popAccount (popSess st) \<noteq> None \<longrightarrow>
         popAccount (popSess st') = popAccount (popSess st) \<and> popSnapshot (popSess st') = popSnapshot (popSess st))"
proof -
  have inv: "pop_inv srv (popSess st)" using pop_machine.reach_inv [OF assms order_refl] .
  have "command = ''PASS'' \<and> fst (server_login srv (popUser (popSess st)) argument (popFiles st)) = Some a"
    if "popAccount (popSess st) = None" "popAccount p' = Some a"
      "handle srv handshake now command argument (popSess st) (popFiles st) = (out, goesOn, p', fs')" for handshake now command argument out goesOn p' fs' a
    using that(3) by (rule handle_session) (use that(1,2) in auto)
  then show ?thesis using inv pop_steps_stable [OF _ inv] unfolding pop_inv_def by blast
qed

section \<open>Deletion\<close>

definition mail_contents :: "mail list \<Rightarrow> (u32 \<times> time \<times> string) list" where
  "mail_contents = map (\<lambda>(u, fl, d, b). (u, d, b))"

lemma mail_contents_flag [simp]: "mail_contents (flag_mails uids flags op ms) = mail_contents ms"
  by (auto simp: mail_contents_def flag_mails_def)

lemma server_login_files: "file_at (snd (server_login srv username password fs)) = file_at fs"
  by (rule file_at_cong) (simp add: server_login_def Authenticate_lookup split: prod.splits)

lemma pass_files: "file_at (snd (snd (pass srv now password p fs))) = file_at fs"
proof -
  obtain a fs1 where l: "server_login srv (popUser p) password fs = (a, fs1)" by fastforce
  have "file_at fs1 = file_at fs" using server_login_files [of srv "popUser p" password fs] l by simp
  then show ?thesis using snapshot_files [of "server_dir srv" now _ Inbox fs1] l
    by (auto simp: pass_def split: option.splits prod.splits sum.splits) (metis snd_conv)+
qed

lemma top_files: "file_at (snd (snd (pop_top srv argument p fs))) = file_at fs"
  using Body_files [of "server_dir srv" "pop_owner p" Inbox _ fs]
  by (auto simp: pop_top_def split: list.splits option.splits sum.splits prod.splits) (metis snd_conv)+

lemma handle_files_eq:
  "snd (snd (snd (handle srv handshake now command argument p fs))) =
    (if command = ''PASS'' then snd (snd (pass srv now argument p fs))
     else if command = ''QUIT'' then snd (snd (quit srv now p fs))
     else if command = ''RETR'' then snd (snd (retr srv now argument p fs))
     else if command = ''TOP'' then snd (snd (pop_top srv argument p fs)) else fs)"
  by (simp add: handle_def case_prod_beta)


lemma retr_files:
  fixes srv p
  defines "U \<equiv> server_dir srv" and "owner \<equiv> pop_owner p"
  assumes ok: "box_ok U fs owner Inbox"
  shows "(\<forall>q. q \<noteq> indexPath U owner Inbox \<longrightarrow> file_at (snd (snd (retr srv now argument p fs))) q = file_at fs q)
    \<and> (box_index U (snd (snd (retr srv now argument p fs))) owner Inbox = None
       \<or> mail_contents (box_mails U (snd (snd (retr srv now argument p fs))) owner Inbox) = mail_contents (box_mails U fs owner Inbox))"
proof (cases "pop_message argument p")
  case (Inl answer)
  then show ?thesis by (simp add: retr_def)
next
  case (Inr nm)
  obtain number msg where nm: "nm = (number, msg)" by fastforce
  obtain b fs1 where bd: "Body U owner Inbox msg fs = (b, fs1)" by fastforce
  have f1: "file_at fs1 = file_at fs" using Body_files [of U owner Inbox msg fs] bd by simp
  show ?thesis
  proof (cases b)
    case (Inl e)
    then show ?thesis using Inr nm bd f1 box_files [OF f1] by (simp add: retr_def U_def owner_def)
  next
    case body: (Inr body)
    obtain r fs2 where sf: "SetFlags U now owner Inbox [msgUID msg] [FlagSeen] FlagsAdd fs1 = (r, fs2)" by fastforce
    have "snd (snd (retr srv now argument p fs)) = fs2" using Inr nm bd body sf by (simp add: retr_def U_def owner_def)
    moreover have "box_ok U fs1 owner Inbox" using ok box_files(3) [OF f1] by simp
    from SetFlags_effect [OF this sf] have
      "box_index U fs2 owner Inbox = None \<or> mail_contents (box_mails U fs2 owner Inbox) = mail_contents (box_mails U fs owner Inbox)"
      using box_files(2) [OF f1] by (auto split: sum.splits)
    moreover have "\<forall>q. q \<noteq> indexPath U owner Inbox \<longrightarrow> file_at fs2 q = file_at fs q"
      using SetFlags_cases [OF sf] f1 by auto
    ultimately show ?thesis by simp
  qed
qed


section \<open>Examples\<close>

definition demo_session :: pop3Session where
  "demo_session = \<lparr>popTLS = False, popAccount = Some \<lparr>acctID = ''bob'', acctUID = 1, acctEmail = []\<rparr>, popUser = ''bob'',
     popSnapshot = None, popDeleted = [1]\<rparr>"


lemma demo_inbox: "\<exists>snap. take_snapshot (UserDir [''data'']) 7 1 Inbox demo_fs = (Inr snap, demo_fs)"
proof -
  have "faults demo_fs = []" using demo_fs_facts(2) by (simp add: readable_def)
  then have "box_ready (UserDir [''data'']) demo_fs 1 Inbox"
    by (auto simp: box_ready_def file_above_def demo_lookup mailboxDir_eq UserDir_eq indexPath_eq demo_UID)
  moreover have "box_ok (UserDir [''data'']) demo_fs 1 Inbox"
    by (simp add: box_ok_def box_index_def demo_files mailboxDir_eq UserDir_eq indexPath_eq)
  ultimately show ?thesis using snapshot_reads [of "UserDir [''data'']" demo_fs 1 Inbox 7] by auto
qed

lemma demo_login: "server_login (demo_server (env_config Map.empty)) ''bob'' ''pw'' demo_fs = (Some (accountOf demo_user), demo_fs)"
proof -
  have "verifyPassword [''data''] (\<lambda>h p. h = CHR ''#'' # p) ''bob'' ''pw'' demo_fs = (Some demo_user, demo_fs)"
    unfolding verifyPassword_total [OF demo_fs_facts(1,2)] using demo_fs_facts(5) by (simp add: matches_def demo_user_def)
  moreover have "TrimSpace ''bob'' = ''bob''" by (rule TrimSpace_ascii) (simp_all add: ascii_def is_space_def)
  then have "SplitAddress ''bob'' = ([], [], False)"
    by (simp add: SplitAddress_def TrimPrefix_def HasPrefix_def TrimSuffix_def HasSuffix_def LastIndex_char_absent)
  ultimately show ?thesis by (simp add: server_login_def demo_server_def Authenticate_Some)
qed

theorem pop3_session_safe_witness:
  "\<exists>st out p' fs'. reach pop_init (pop_step (demo_server (env_config Map.empty))) 1 st
    \<and> handle (demo_server (env_config Map.empty)) False 7 ''PASS'' ''pw'' (popSess st) (popFiles st) = (out, True, p', fs')
    \<and> popAccount p' = Some (accountOf demo_user)
    \<and> fst (server_login (demo_server (env_config Map.empty)) (popUser (popSess st)) ''pw'' (popFiles st)) = Some (accountOf demo_user)"
proof -
  let ?srv = "demo_server (env_config Map.empty)"
  let ?new = "\<lparr>popSess = new_pop3 False, popFiles = demo_fs\<rparr>"
  let ?st = "?new\<lparr>popSess := new_pop3 False\<lparr>popUser := ''bob''\<rparr>, popFiles := demo_fs\<rparr>"
  have "reach pop_init (pop_step ?srv) 0 ?new" by (rule reach_init) (auto simp: pop_init_def)
  moreover have "pop_step ?srv ?new ?st"
    by (rule PopCommand [where command = "''USER''" and argument = "''bob''"]) (simp add: handle_def)
  ultimately have r: "reach pop_init (pop_step ?srv) (Suc 0) ?st" by (rule reach_step)
  obtain snap where snap: "take_snapshot (UserDir [''data'']) 7 1 Inbox demo_fs = (Inr snap, demo_fs)" using demo_inbox by blast
  obtain out p' fs' where "pass ?srv 7 ''pw'' (popSess ?st) (popFiles ?st) = (out, p', fs')" by (metis prod_cases3)
  then have h: "handle ?srv False 7 ''PASS'' ''pw'' (popSess ?st) (popFiles ?st) = (out, True, p', fs')"
    unfolding handle_def by simp
  then have a: "popAccount p' = Some (accountOf demo_user)"
    using demo_login snap by (auto simp: handle_def pass_def new_pop3_def demo_server_def accountOf_def demo_UID)
  have none: "popAccount (popSess ?st) = None" by (simp add: new_pop3_def)
  from pop3_session_safe [OF r] none a h
  have "fst (server_login ?srv (popUser (popSess ?st)) ''pw'' (popFiles ?st)) = Some (accountOf demo_user)" by blast
  with r h a show ?thesis unfolding One_nat_def by blast
qed

end
