(* ===== verification/ImapSessions.thy ===== *)
theory ImapSessions
  imports Imap
begin

text \<open>
  What the IMAP backend guarantees: a command changes exactly the messages its
  sequence set selected, \<^verbatim>\<open>EXPUNGE\<close> removes exactly the messages marked as deleted,
  \<^verbatim>\<open>FETCH\<close> answers from the abstract mailbox. Sequence numbers are resolved against the
  mailbox as it is when the command runs, not as the session last saw it.
\<close>

section \<open>Selection\<close>

definition selected :: "bool \<Rightarrow> seqset \<Rightarrow> u32 list \<Rightarrow> u32 list" where
  "selected uid seqs us =
    map snd (filter (\<lambda>(i, u). seqs (msg_identifier uid (word_of_nat i) u)) (zip [1..<length us + 1] us))"

lemma resolve_from_selected:
  "resolve_from uid seqs i msgs =
    map snd (filter (\<lambda>(k, u). seqs (msg_identifier uid (word_of_nat k) u)) (zip [i + 1..<i + 1 + length msgs] (map msgUID msgs)))"
  by (induction msgs arbitrary: i) (simp_all add: upt_conv_Cons del: upt_Suc)

lemma resolve_from_0: "resolve_from uid seqs 0 msgs = selected uid seqs (map msgUID msgs)"
  by (simp add: resolve_from_selected selected_def del: upt_Suc)

lemma imap_snapshot_Inr:
  assumes "imap_snapshot srv now m fs = (Inr snap, fs')" "box_ok (server_dir srv) fs (imap_uid m) (imapName m)"
  shows "file_at fs' = file_at fs"
    "map (\<lambda>msg. (msgUID msg, msgFlags msg, msgDate msg)) (snapMessages snap)
      = map (\<lambda>(u, fl, d, b). (u, fl, d)) (box_mails (server_dir srv) fs (imap_uid m) (imapName m))"
    "map msgUID (snapMessages snap) = map fst (box_mails (server_dir srv) fs (imap_uid m) (imapName m))"
    "snapMessages snap = Messages (cur_index (server_dir srv) now fs (imap_uid m) (imapName m))"
proof -
  have sn: "take_snapshot (server_dir srv) now (imap_uid m) (imapName m) fs = (Inr snap, fs')"
    using assms(1) by (auto simp: imap_snapshot_def translated_def split: prod.splits sum.splits)
  then show "file_at fs' = file_at fs" using snapshot_files [of "server_dir srv" now "imap_uid m" "imapName m" fs] by simp
  show ms: "snapMessages snap = Messages (cur_index (server_dir srv) now fs (imap_uid m) (imapName m))"
    using sn by (auto simp: take_snapshot_def dest!: readIndex_Inr split: prod.splits sum.splits)
  show "map (\<lambda>msg. (msgUID msg, msgFlags msg, msgDate msg)) (snapMessages snap)
      = map (\<lambda>(u, fl, d, b). (u, fl, d)) (box_mails (server_dir srv) fs (imap_uid m) (imapName m))"
    "map msgUID (snapMessages snap) = map fst (box_mails (server_dir srv) fs (imap_uid m) (imapName m))"
    by (simp_all add: cur_index_ok(2) [OF assms(2), of now] ms)
qed

lemma translated_Inr: "translated p = (Inr v, fs') \<longleftrightarrow> p = (Inr v, fs')"
  by (auto simp: translated_def split: prod.splits sum.splits)

text \<open>
  C34. Changing flags over IMAP. When the command succeeds, under any faults and with anything
  happening between its two calls of the store: exactly the messages that the sequence set
  selected when the command began, by UID or by position, get the new flags, and only if they
  are still there; all other messages, and everything else of the mailbox, are as they were when
  the second call began. An unknown operation changes nothing.
\<close>

theorem UpdateMessagesFlags_correct:
  fixes srv m
  defines "U \<equiv> server_dir srv" and "w \<equiv> imap_uid m" and "name \<equiv> imapName m"
  assumes "box_ok U fs w name" "UpdateMessagesFlags srv now meanwhile uid seqs operation flags m fs = (Inr (), fs')"
  shows "\<exists>fs1. file_at fs1 = file_at fs \<and>
    (case flag_op operation of
       None \<Rightarrow> fs' = fs1
     | Some op \<Rightarrow> box_ok U (meanwhile fs1) w name \<longrightarrow>
         box_ok U fs' w name
         \<and> box_mails U fs' w name = flag_mails (selected uid seqs (map fst (box_mails U fs w name))) flags op (box_mails U (meanwhile fs1) w name))"
proof -
  obtain x fs1 where r: "resolve srv now uid seqs m fs = (x, fs1)" by fastforce
  then obtain uids where x: "x = Inr uids" using assms(5) by (cases x) (auto simp: UpdateMessagesFlags_def)
  then obtain snap where sn: "imap_snapshot srv now m fs = (Inr snap, fs1)" and uids: "uids = resolve_from uid seqs 0 (snapMessages snap)"
    using r by (auto simp: resolve_def split: prod.splits sum.splits)
  note snap = imap_snapshot_Inr [OF sn assms(4) [unfolded U_def w_def name_def], folded U_def w_def name_def]
  have uids: "uids = selected uid seqs (map fst (box_mails U fs w name))" by (simp add: uids resolve_from_0 snap(3))
  have "case flag_op operation of None \<Rightarrow> fs' = fs1
      | Some op \<Rightarrow> box_ok U (meanwhile fs1) w name \<longrightarrow> box_ok U fs' w name \<and> box_mails U fs' w name = flag_mails uids flags op (box_mails U (meanwhile fs1) w name)"
  proof (cases "flag_op operation")
    case None
    then show ?thesis using assms(5) r x by (simp add: UpdateMessagesFlags_def)
  next
    case (Some op)
    then have "SetFlags U now w name uids flags op (meanwhile fs1) = (Inr (), fs')"
      using assms(5) r x by (simp add: UpdateMessagesFlags_def translated_Inr U_def w_def name_def)
    from SetFlags_effect [OF _ this] show ?thesis using Some by simp
  qed
  then show ?thesis using snap(1) unfolding uids by blast
qed

text \<open>
  C35. \<^verbatim>\<open>EXPUNGE\<close>. When it succeeds, under any faults and with anything happening between its two
  calls of the store, exactly the messages that had the deleted flag when the command began are
  gone; undisturbed, the messages without that flag are what is left.
\<close>

theorem Expunge_correct:
  fixes srv m
  defines "U \<equiv> server_dir srv" and "w \<equiv> imap_uid m" and "name \<equiv> imapName m"
  defines "doomed \<equiv> \<lambda>fs. map fst (filter (\<lambda>(u, fl, d, b). hasFlag fl FlagDeleted) (box_mails U fs w name))"
  assumes "box_ok U fs w name" "Expunge srv now meanwhile m fs = (Inr (), fs')"
  shows "\<exists>fs1. file_at fs1 = file_at fs \<and>
    (if doomed fs = [] then fs' = fs1
     else box_ok U (meanwhile fs1) w name \<longrightarrow>
       box_ok U fs' w name \<and> box_mails U fs' w name = filter (\<lambda>ml. fst ml \<notin> set (doomed fs)) (box_mails U (meanwhile fs1) w name)
       \<and> (meanwhile fs1 = fs1 \<longrightarrow> box_mails U fs' w name = filter (\<lambda>(u, fl, d, b). \<not> hasFlag fl FlagDeleted) (box_mails U fs w name)))"
proof -
  obtain snap fs1 where sn: "imap_snapshot srv now m fs = (Inr snap, fs1)"
    using assms(6) by (auto simp: Expunge_def split: prod.splits sum.splits)
  note snap = imap_snapshot_Inr [OF sn assms(5) [unfolded U_def w_def name_def], folded U_def w_def name_def]
  have d: "Deleted snap = doomed fs"
    unfolding Deleted_def doomed_def snap(4) cur_index_ok(2) [OF assms(5), of now] by (simp add: filter_map comp_def)
  have dist: "distinct (map fst (box_mails U fs w name))"
    using cur_index_ok(1) [OF assms(5), of now] unfolding cur_index_ok(2) [OF assms(5), of now]
    by (simp add: comp_def index_ok_def strict_sorted_iff)
  have left: "filter (\<lambda>ml. fst ml \<notin> set (doomed fs)) (box_mails U fs w name) = filter (\<lambda>(u, fl, d, b). \<not> hasFlag fl FlagDeleted) (box_mails U fs w name)"
    using dist by (intro filter_cong) (auto simp: doomed_def distinct_map inj_on_def)
  show ?thesis
  proof (cases "doomed fs = []")
    case True
    then show ?thesis using assms(6) sn snap(1) d by (auto simp: Expunge_def)
  next
    case False
    then have "Remove U now w name (doomed fs) (meanwhile fs1) = (Inr (), fs')"
      using assms(6) sn d by (simp add: Expunge_def translated_Inr U_def w_def name_def)
    from Remove_effect [OF _ this] have
      "box_ok U (meanwhile fs1) w name \<Longrightarrow> box_ok U fs' w name \<and> box_mails U fs' w name = filter (\<lambda>ml. fst ml \<notin> set (doomed fs)) (box_mails U (meanwhile fs1) w name)"
      by simp
    moreover have "box_mails U fs1 w name = box_mails U fs w name" by (rule box_files(2) [OF snap(1)])
    ultimately show ?thesis using False snap(1) left by auto
  qed
qed


section \<open>Sequence numbers\<close>

lemma resolve_ready:
  assumes "box_ready (server_dir srv) fs (imap_uid m) (imapName m)" "box_ok (server_dir srv) fs (imap_uid m) (imapName m)"
    "box_index (server_dir srv) fs (imap_uid m) (imapName m) \<noteq> None"
  shows "imap_snapshot srv now m fs = (Inr \<lparr>snapName = CanonicalMailbox (imapName m),
      snapUIDValidity = UIDValidity (cur_index (server_dir srv) now fs (imap_uid m) (imapName m)),
      snapUIDNext = UIDNext (cur_index (server_dir srv) now fs (imap_uid m) (imapName m)),
      snapSubscribed = Subscribed (cur_index (server_dir srv) now fs (imap_uid m) (imapName m)),
      snapMessages = Messages (cur_index (server_dir srv) now fs (imap_uid m) (imapName m))\<rparr>, fs)"
    "resolve srv now uid seqs m fs = (Inr (selected uid seqs (map fst (box_mails (server_dir srv) fs (imap_uid m) (imapName m)))), fs)"
proof -
  show sn: "imap_snapshot srv now m fs = (Inr \<lparr>snapName = CanonicalMailbox (imapName m),
      snapUIDValidity = UIDValidity (cur_index (server_dir srv) now fs (imap_uid m) (imapName m)),
      snapUIDNext = UIDNext (cur_index (server_dir srv) now fs (imap_uid m) (imapName m)),
      snapSubscribed = Subscribed (cur_index (server_dir srv) now fs (imap_uid m) (imapName m)),
      snapMessages = Messages (cur_index (server_dir srv) now fs (imap_uid m) (imapName m))\<rparr>, fs)"
    using assms(3) by (simp add: imap_snapshot_def translated_def take_snapshot_def ready_read [OF assms(1)])
  show "resolve srv now uid seqs m fs = (Inr (selected uid seqs (map fst (box_mails (server_dir srv) fs (imap_uid m) (imapName m)))), fs)"
    using imap_snapshot_Inr(3) [OF sn assms(2)] by (simp add: resolve_def sn resolve_from_0)
qed

lemma selected_uids: "selected True seqs us = filter seqs us"
proof -
  have "map snd (filter (\<lambda>(i, u). seqs u) (zip ks us)) = filter seqs us" if "length ks = length us" for ks :: "nat list"
    using that by (induction ks us rule: list_induct2) auto
  then show ?thesis by (simp add: selected_def msg_identifier_def del: upt_Suc)
qed

lemma selected_one:
  assumes "distinct (u # us)"
  shows "selected False (\<lambda>n. n = 1) (u # us) = [u]"
proof -
  have "length (u # us) = card (set (u # us))" using distinct_card [OF assms] by simp
  also have "\<dots> \<le> card (UNIV :: u32 set)" by (rule card_mono) simp_all
  finally have len: "length us < 2 ^ 32" by (simp add: card_word)
  have one: "word_of_nat k \<noteq> (1 :: u32)" if "2 \<le> k" "k \<le> 2 ^ 32" for k
  proof (cases "k = 2 ^ 32")
    case False
    then have "unat (word_of_nat k :: u32) = k" using that(2) by (simp add: unsigned_of_nat take_bit_nat_eq_self)
    then show ?thesis using that(1) by auto
  next
    case True
    then have "unat (word_of_nat k :: u32) = 0" by (simp add: unsigned_of_nat take_bit_nat_def)
    then show ?thesis by auto
  qed
  have "word_of_nat k \<noteq> (1 :: u32)" if "(k, v) \<in> set (zip [2..<length us + 2] us)" for k v
  proof -
    have "2 \<le> k" "k < length us + 2" using set_zip_leftD [OF that] by (simp_all only: set_upt atLeastLessThan_iff)
    with len show ?thesis by (intro one) linarith+
  qed
  then have "filter (\<lambda>(k, v). word_of_nat k = (1 :: u32)) (zip [2..<length us + 2] us) = []"
    by (auto simp: filter_empty_conv simp del: upt_Suc)
  then show ?thesis by (simp add: selected_def msg_identifier_def upt_conv_Cons numeral_2_eq_2 del: upt_Suc)
qed

lemma mails_index: "box_mails userDir fs uid name \<noteq> [] \<Longrightarrow> box_index userDir fs uid name \<noteq> None"
  by (auto simp: box_mails_def split: option.splits)

text \<open>
  C37. Sequence numbers move under a session. Take a mailbox with at least two messages, undamaged
  and without faults. A command on sequence number 1 means the first message; when another
  session removes that message in between, the same command means the second message, although
  the session that sends it has not been told. With UIDs it selects nothing.
\<close>

theorem imap_sequence_shift:
  fixes srv m
  defines "U \<equiv> server_dir srv" and "w \<equiv> imap_uid m" and "name \<equiv> imapName m"
  assumes "box_ready U fs w name" "wf_fs fs" "box_ok U fs w name" "box_mails U fs w name = a # b # rest"
  shows "\<exists>fs1. Remove U now w name [fst a] fs = (Inr (), fs1) \<and> fst a \<noteq> fst b
    \<and> resolve srv now False (\<lambda>n. n = 1) m fs = (Inr [fst a], fs)
    \<and> resolve srv now False (\<lambda>n. n = 1) m fs1 = (Inr [fst b], fs1)
    \<and> resolve srv now True (\<lambda>u. u = fst a) m fs1 = (Inr [], fs1)"
proof -
  have ix: "box_index U fs w name \<noteq> None" by (rule mails_index) (simp add: assms(7))
  obtain fs1 where rm: "Remove U now w name [fst a] fs = (Inr (), fs1)" and rdy: "box_ready U fs1 w name"
    using Remove_total [OF assms(4,5,6)] ix by blast
  from Remove_effect [OF assms(6) rm] have
    left: "box_ok U fs1 w name" "box_mails U fs1 w name = filter (\<lambda>ml. fst ml \<notin> set [fst a]) (a # b # rest)"
    unfolding assms(7) [symmetric] by simp_all
  have "sorted_wrt (<) (map fst (box_mails U fs w name))"
    using cur_index_ok(1) [OF assms(6), of now] unfolding cur_index_ok(2) [OF assms(6), of now] by (simp add: comp_def index_ok_def)
  then have dist: "distinct (map fst (a # b # rest))" unfolding assms(7) by (simp add: strict_sorted_iff del: sorted_wrt.simps)
  then have mails: "box_mails U fs1 w name = b # rest" unfolding left(2) by (auto intro!: filter_True) (metis fst_conv image_eqI)
  have ix1: "box_index U fs1 w name \<noteq> None" by (rule mails_index) (simp add: mails)
  have "resolve srv now False (\<lambda>n. n = 1) m fs = (Inr [fst a], fs)"
    using resolve_ready(2) [of srv fs m now False "\<lambda>n. n = 1", folded U_def w_def name_def, OF assms(4,6) ix] dist
    by (simp add: assms(7) selected_one)
  moreover have "resolve srv now False (\<lambda>n. n = 1) m fs1 = (Inr [fst b], fs1)"
    using resolve_ready(2) [of srv fs1 m now False "\<lambda>n. n = 1", folded U_def w_def name_def, OF rdy left(1) ix1] dist
    by (simp add: mails selected_one)
  moreover have "resolve srv now True (\<lambda>u. u = fst a) m fs1 = (Inr [], fs1)"
    using resolve_ready(2) [of srv fs1 m now True "\<lambda>u. u = fst a", folded U_def w_def name_def, OF rdy left(1) ix1] dist
    by (auto simp: mails selected_uids filter_empty_conv) (metis fst_conv image_eqI)
  ultimately show ?thesis using rm dist by auto
qed


section \<open>Fetching\<close>

text \<open>The reference: a fetch as a function of the abstract message.\<close>

definition mail_message :: "mail \<Rightarrow> Message" where
  "mail_message ml = (case ml of (u, fl, d, b) \<Rightarrow>
     \<lparr>msgUID = u, msgFile = eml_file u, msgSize = word_of_nat (length b), msgDate = d, msgFlags = fl\<rparr>)"

fun fetch_mail :: "('h, 'env, 'str, 'sec, 'lit, 'ent, 'crit) imap_lib \<Rightarrow> mail \<Rightarrow> fetch_item list
    \<Rightarrow> ('env, 'str, 'sec, 'lit) fetched \<Rightarrow> ('env, 'str, 'sec, 'lit) fetched option" where
  "fetch_mail lib ml [] f = Some f"
| "fetch_mail lib ml (item # items) f =
    Option.bind (if needs_body lib item then body_item lib item (snd (snd (snd ml))) f else Some (plain_item item (mail_message ml) f))
      (fetch_mail lib ml items)"

lemma index_mails:
  assumes "box_ok userDir fs uid name"
  shows "Messages (cur_index userDir now fs uid name) = map mail_message (box_mails userDir fs uid name)"
proof -
  have "mail_message (msgUID m, msgFlags m, msgDate m, the (body_of userDir fs uid name (msgUID m))) = m"
    if "m \<in> set (Messages (cur_index userDir now fs uid name))" for m
    using cur_index_ok(1) [OF assms, of now] cur_index_ok(3) [OF assms that] that
    by (cases m) (auto simp: mail_message_def index_ok_def)
  then show ?thesis unfolding cur_index_ok(2) [OF assms, of now] by (simp add: map_idI)
qed

lemma fetch_items_mail:
  assumes "Body (server_dir srv) (imap_uid m) (imapName m) (mail_message ml) fs = (Inr (snd (snd (snd ml))), fs)"
  shows "body = None \<or> body = Some (snd (snd (snd ml))) \<Longrightarrow>
    fetch_items lib srv m (mail_message ml) items body f fs = (fetch_mail lib ml items f, fs)"
proof (induction items arbitrary: body f)
  case (Cons item items)
  have "load srv m (mail_message ml) body fs = (Inr (snd (snd (snd ml))), fs)" using assms Cons.prems by (auto simp: load_def)
  then show ?case
    using Cons.IH Cons.prems by (cases "body_item lib item (snd (snd (snd ml))) f") auto
qed simp

lemma list_messages_mail:
  assumes "\<And>ml. ml \<in> set ms \<Longrightarrow> Body (server_dir srv) (imap_uid m) (imapName m) (mail_message ml) fs = (Inr (snd (snd (snd ml))), fs)"
  shows "list_messages lib srv m uid seqs items i (map mail_message ms) fs =
    (List.map_filter (\<lambda>(k, ml). if seqs (msg_identifier uid (word_of_nat k) (fst ml)) then fetch_mail lib ml items (new_fetched (word_of_nat k)) else None)
      (zip [i + 1..<i + 1 + length ms] ms), fs)"
  using assms
proof (induction ms arbitrary: i)
  case (Cons ml ms)
  have u: "msgUID (mail_message ml) = fst ml" by (simp add: mail_message_def split: prod.splits)
  have f: "fetch lib srv m (mail_message ml) k items fs = (fetch_mail lib ml items (new_fetched k), fs)" for k
    unfolding fetch_def using Cons.prems by (intro fetch_items_mail) simp_all
  show ?case
    using Cons.IH [of "i + 1"] Cons.prems
    by (simp add: upt_conv_Cons u f map_filter_simps Let_def split: option.split del: upt_Suc)
qed (simp add: map_filter_simps)

text \<open>
  C36. \<^verbatim>\<open>FETCH\<close> agrees with a reference on the abstract mailbox. On an undamaged mailbox and without
  faults, the answers are, in the order of the mailbox, those of the selected messages, each
  computed from the message alone: its UID, flags, date, size and, through the library, its
  body, which is read at most once; a message whose header does not parse is left out when the
  request needs its body. No file changes.
\<close>

theorem ListMessages_reference:
  fixes srv m
  defines "U \<equiv> server_dir srv" and "w \<equiv> imap_uid m" and "name \<equiv> imapName m"
  assumes "box_ready U fs w name" "box_ok U fs w name" "box_index U fs w name \<noteq> None"
  shows "ListMessages lib srv now uid seqs items m fs =
    (Inr (List.map_filter (\<lambda>(k, ml). if seqs (msg_identifier uid (word_of_nat k) (fst ml)) then fetch_mail lib ml items (new_fetched (word_of_nat k)) else None)
      (zip [1..<length (box_mails U fs w name) + 1] (box_mails U fs w name))), fs)"
proof -
  have "Body U w name (mail_message ml) fs = (Inr (snd (snd (snd ml))), fs)" if "ml \<in> set (box_mails U fs w name)" for ml
  proof -
    obtain u fl d b where ml: "ml = (u, fl, d, b)" by (cases ml) auto
    from that have "(u, fl, d, b) \<in> (\<lambda>m. (msgUID m, msgFlags m, msgDate m, the (body_of U fs w name (msgUID m)))) ` set (Messages (cur_index U now fs w name))"
      by (simp add: cur_index_ok(2) [OF assms(5), of now] ml)
    then obtain msg where "msg \<in> set (Messages (cur_index U now fs w name))" "u = msgUID msg" "b = the (body_of U fs w name u)" by blast
    then have "body_of U fs w name u = Some b" using cur_index_ok(3) [OF assms(5)] by fastforce
    then show ?thesis by (intro Body_ready [OF assms(4)]) (simp_all add: ml mail_message_def)
  qed
  note lm = list_messages_mail [OF this [unfolded U_def w_def name_def], of _ lib uid seqs items 0]
  have sn: "imap_snapshot srv now m fs = (Inr snap, fs') \<Longrightarrow> snapMessages snap = map mail_message (box_mails U fs w name)" for snap fs'
    using imap_snapshot_Inr(4) [of srv now m fs] assms(5) index_mails [OF assms(5), of now] by (simp add: U_def w_def name_def)
  show ?thesis
    using lm resolve_ready(1) [OF assms(4,5,6) [unfolded U_def w_def name_def], of now] sn
    by (simp add: ListMessages_def U_def w_def name_def del: upt_Suc)
qed


section \<open>Examples\<close>

definition demo_mailbox :: imapMailbox where
  "demo_mailbox = \<lparr>imapOwner = \<lparr>imapAccount = \<lparr>acctID = ''bob'', acctUID = 1, acctEmail = []\<rparr>\<rparr>, imapName = Inbox\<rparr>"

lemma demo_imap:
  "server_dir (demo_server (env_config Map.empty)) = demo_dir" "imap_uid demo_mailbox = 1" "imapName demo_mailbox = Inbox"
  by (simp_all add: demo_server_def demo_dir_def demo_mailbox_def)

lemma wf_demo_box: "wf_fs demo_box"
  by (rule wf_fs_Append [OF _ _ demo_append]) (simp_all add: demo_clean wf_fs_def empty_fs_def fs_lookup_def)

lemma demo_resolve: "resolve (demo_server (env_config Map.empty)) 7 True (\<lambda>u. u = 1) demo_mailbox demo_box = (Inr [1], demo_box)"
  using resolve_ready(2) [of "demo_server (env_config Map.empty)" demo_box demo_mailbox 7 True "\<lambda>u. u = 1"] demo_box_facts mails_index [of demo_dir demo_box 1 Inbox]
  by (simp add: demo_imap selected_uids)

theorem UpdateMessagesFlags_correct_witness:
  "\<exists>fs'. UpdateMessagesFlags (demo_server (env_config Map.empty)) 7 (\<lambda>fs. fs) True (\<lambda>u. u = 1) ImapRemoveFlags [''a''] demo_mailbox demo_box = (Inr (), fs')
    \<and> box_mails demo_dir fs' 1 Inbox = [(1, [], 5, ''hi'')]"
proof -
  let ?srv = "demo_server (env_config Map.empty)"
  obtain fs' where sf: "SetFlags demo_dir 7 1 Inbox [1] [''a''] FlagsRemove demo_box = (Inr (), fs')"
    using SetFlags_total [OF demo_box_facts(1), of 7 "[1]" "[''a'']" FlagsRemove] by auto
  have up: "UpdateMessagesFlags ?srv 7 (\<lambda>fs. fs) True (\<lambda>u. u = 1) ImapRemoveFlags [''a''] demo_mailbox demo_box = (Inr (), fs')"
    by (simp add: UpdateMessagesFlags_def demo_resolve flag_op_def demo_imap sf translated_def)
  have ok: "box_ok (server_dir ?srv) demo_box (imap_uid demo_mailbox) (imapName demo_mailbox)" using demo_box_facts(2) by (simp add: demo_imap)
  obtain fs1 where "file_at fs1 = file_at demo_box" and m: "box_ok demo_dir fs1 1 Inbox \<longrightarrow> box_ok demo_dir fs' 1 Inbox
      \<and> box_mails demo_dir fs' 1 Inbox = flag_mails (selected True (\<lambda>u. u = 1) (map fst (box_mails demo_dir demo_box 1 Inbox))) [''a''] FlagsRemove (box_mails demo_dir fs1 1 Inbox)"
    using UpdateMessagesFlags_correct [OF ok up] by (auto simp: flag_op_def demo_imap)
  then have "box_mails demo_dir fs' 1 Inbox = [(1, [], 5, ''hi'')]"
    using box_files(2,3) [OF \<open>file_at fs1 = file_at demo_box\<close>] demo_box_facts(2,3)
    by (simp add: selected_uids flag_mails_def applyFlags_def hasFlag_def EqualFold_def)
  with up show ?thesis by blast
qed

theorem Expunge_correct_witness:
  "\<exists>fs'. Expunge (demo_server (env_config Map.empty)) 7 (\<lambda>fs. fs) demo_mailbox demo_box = (Inr (), fs') \<and> file_at fs' = file_at demo_box"
proof -
  let ?srv = "demo_server (env_config Map.empty)"
  have ix: "box_index demo_dir demo_box 1 Inbox \<noteq> None" using mails_index [of demo_dir demo_box 1 Inbox] demo_box_facts(3) by simp
  have no: "filter (\<lambda>(u, fl, d, b). hasFlag fl FlagDeleted) (box_mails demo_dir demo_box 1 Inbox) = []"
    using demo_box_facts(3) by (simp add: hasFlag_def EqualFold_def FlagDeleted_def)
  have ok: "box_ok (server_dir ?srv) demo_box (imap_uid demo_mailbox) (imapName demo_mailbox)" using demo_box_facts(2) by (simp add: demo_imap)
  obtain snap where sn: "imap_snapshot ?srv 7 demo_mailbox demo_box = (Inr snap, demo_box)"
    using resolve_ready(1) [of ?srv demo_box demo_mailbox 7] demo_box_facts ix by (simp add: demo_imap)
  have "Deleted snap = []"
    using no unfolding Deleted_def imap_snapshot_Inr(4) [OF sn ok] demo_imap cur_index_ok(2) [OF demo_box_facts(2), of 7]
    by (auto simp: filter_empty_conv)
  then have e: "Expunge ?srv 7 (\<lambda>fs. fs) demo_mailbox demo_box = (Inr (), demo_box)" by (simp add: Expunge_def sn)
  from Expunge_correct [OF ok e] e no show ?thesis by (auto simp: demo_imap)
qed

text \<open>A library that takes the first line as the header and gives the rest as the only section.\<close>

definition demo_lib :: "(string, string, string, string, string, string, string) imap_lib" where
  "demo_lib = \<lparr>libReadHeader = (\<lambda>raw. Some (takeWhile (\<lambda>c. c \<noteq> CHR 0x0A) raw, dropWhile (\<lambda>c. c \<noteq> CHR 0x0A) raw)), libEnvelope = (\<lambda>h. h),
     libStructure = (\<lambda>h r e. h), libSectionName = Some, libSection = (\<lambda>h r sec. Some h), libRead = Some,
     libMatch = (\<lambda>e n u d fl c. Some True)\<rparr>"

theorem ListMessages_reference_witness:
  "\<exists>f. ListMessages demo_lib (demo_server (env_config Map.empty)) 7 True (\<lambda>u. u = 1) [FetchUid, FetchOther ''BODY[]''] demo_mailbox demo_box = (Inr [f], demo_box)
    \<and> fetUid f = 1 \<and> fetBody f = [(''BODY[]'', ''hi'')]"
proof -
  let ?srv = "demo_server (env_config Map.empty)"
  have ix: "box_index demo_dir demo_box 1 Inbox \<noteq> None" using mails_index [of demo_dir demo_box 1 Inbox] demo_box_facts(3) by simp
  have "box_ready (server_dir ?srv) demo_box (imap_uid demo_mailbox) (imapName demo_mailbox)"
    "box_ok (server_dir ?srv) demo_box (imap_uid demo_mailbox) (imapName demo_mailbox)"
    "box_index (server_dir ?srv) demo_box (imap_uid demo_mailbox) (imapName demo_mailbox) \<noteq> None"
    unfolding demo_imap using demo_box_facts(1,2) ix .
  from ListMessages_reference [OF this, of demo_lib 7 True "\<lambda>u. u = 1" "[FetchUid, FetchOther ''BODY[]'']"] show ?thesis
    by (simp add: demo_imap demo_box_facts(3) map_filter_simps msg_identifier_def needs_body_def body_item_def plain_item_def demo_lib_def
        new_fetched_def mail_message_def)
qed

theorem imap_sequence_shift_witness:
  "\<exists>fs fs1. Remove demo_dir 7 1 Inbox [1] fs = (Inr (), fs1)
    \<and> resolve (demo_server (env_config Map.empty)) 7 False (\<lambda>n. n = 1) demo_mailbox fs = (Inr [1], fs)
    \<and> resolve (demo_server (env_config Map.empty)) 7 False (\<lambda>n. n = 1) demo_mailbox fs1 = (Inr [2], fs1)"
proof -
  let ?srv = "demo_server (env_config Map.empty)"
  have two: "UIDNext (cur_index demo_dir 7 demo_box 1 Inbox) = 2" by (rule demo_box_next)
  obtain fs where ap: "Append demo_dir 7 1 Inbox [] 5 ''yo'' demo_box = (Inr 2, fs)" and r: "box_ready demo_dir fs 1 Inbox"
    using Append_total [OF demo_box_facts(1), of 7 "[]" 5 "''yo''"] unfolding two by blast
  have wf: "wf_fs fs" by (rule wf_fs_Append [OF wf_demo_box demo_clean ap])
  have eff: "box_ok demo_dir fs 1 Inbox" "box_mails demo_dir fs 1 Inbox = [(1, [''a''], 5, ''hi''), (2, map json_str (normaliseFlags []), 5, ''yo'')]"
    using Append_effect [OF demo_box_facts(2) _ ap, of 7] by (simp_all add: two demo_box_facts(3) zeroTime_def)
  have "box_ready (server_dir ?srv) fs (imap_uid demo_mailbox) (imapName demo_mailbox)"
    "box_ok (server_dir ?srv) fs (imap_uid demo_mailbox) (imapName demo_mailbox)"
    "box_mails (server_dir ?srv) fs (imap_uid demo_mailbox) (imapName demo_mailbox) = [(1, [''a''], 5, ''hi''), (2, map json_str (normaliseFlags []), 5, ''yo'')]"
    unfolding demo_imap using r eff .
  from imap_sequence_shift [OF this(1) wf this(2,3), of 7] show ?thesis by (auto simp: demo_imap)
qed

end
