(* ===== verification/Logger.thy ===== *)
theory Logger
  imports GoNet
begin

text \<open>
  Logging, the files under \<^verbatim>\<open>logger\<close>: the console handler, the entry points with the
  default handler as an argument, trace identifiers, and the middleware for HTTP
  requests. Attribute values are given as the text that formatting them
  prints. The lock makes writing a line one step.
\<close>

section \<open>Lines\<close>

definition ESC :: string where "ESC = [CHR 0x1B]"

definition colorReset :: string where "colorReset = ESC @ ''[0m''"
definition colorRed :: string where "colorRed = ESC @ ''[31m''"
definition colorYellow :: string where "colorYellow = ESC @ ''[33m''"
definition colorBlue :: string where "colorBlue = ESC @ ''[34m''"
definition colorGray :: string where "colorGray = ESC @ ''[37m''"

text \<open>Levels of the standard library's logger and their names.\<close>

definition LevelDebug :: int where "LevelDebug = - 4"
definition LevelInfo :: int where "LevelInfo = 0"
definition LevelWarn :: int where "LevelWarn = 4"
definition LevelError :: int where "LevelError = 8"

definition level_offset :: "string \<Rightarrow> int \<Rightarrow> string" where
  "level_offset base v = (if v = 0 then base else base @ (if v < 0 then [] else ''+'') @ Itoa v)"

definition level_string :: "int \<Rightarrow> string" where
  "level_string l =
    (if l < LevelInfo then level_offset ''DEBUG'' (l - LevelDebug)
     else if l < LevelWarn then level_offset ''INFO'' (l - LevelInfo)
     else if l < LevelError then level_offset ''WARN'' (l - LevelWarn)
     else level_offset ''ERROR'' (l - LevelError))"

text \<open>The layout \<^verbatim>\<open>2006-01-02 15:04:05\<close> for a time and the offset of its zone in seconds.\<close>

definition FormatDateTime :: "(time \<Rightarrow> int) \<Rightarrow> time \<Rightarrow> string" where
  "FormatDateTime zone t =
    (let secs = t div 10 ^ 9 + zone t;
         (y, mo, d) = civil (secs div 86400);
         r = secs mod 86400
     in pad0 4 (Itoa y) @ ''-'' @ two_digits mo @ ''-'' @ two_digits d @ '' ''
        @ two_digits (r div 3600) @ '':'' @ two_digits (r mod 3600 div 60) @ '':'' @ two_digits (r mod 60))"

type_synonym attr = "string \<times> string"

record ColorConsoleHandler =
  optLevel :: "int option"
  attrs :: "attr list"
  group :: string

record log_record =
  recTime :: time
  recLevel :: int
  recMessage :: string
  recAttrs :: "attr list"

definition newColorConsoleHandler :: "int option \<Rightarrow> ColorConsoleHandler" where
  "newColorConsoleHandler level = \<lparr>optLevel = level, attrs = [], group = []\<rparr>"

definition log_enabled :: "ColorConsoleHandler \<Rightarrow> int \<Rightarrow> bool" where
  "log_enabled h level = ((case optLevel h of None \<Rightarrow> LevelInfo | Some l \<Rightarrow> l) \<le> level)"

definition formatAttr :: "attr \<Rightarrow> string" where
  "formatAttr a = '' '' @ colorGray @ fst a @ ''='' @ snd a @ colorReset"

definition level_color :: "int \<Rightarrow> string" where
  "level_color l =
    (if LevelError \<le> l then colorRed else if LevelWarn \<le> l then colorYellow else if LevelInfo \<le> l then colorBlue else colorGray)"

text \<open>A context carries at most one trace identifier; the empty text stands for none.\<close>

definition WithTraceID :: "(string \<Rightarrow> string option) \<Rightarrow> string \<Rightarrow> string \<Rightarrow> string option" where
  "WithTraceID ctx traceID = ctx([] \<mapsto> traceID)"

definition FromTraceID :: "(string \<Rightarrow> string option) \<Rightarrow> string" where
  "FromTraceID ctx = (case ctx [] of Some traceID \<Rightarrow> traceID | None \<Rightarrow> [])"

definition log_line :: "(time \<Rightarrow> int) \<Rightarrow> (string \<Rightarrow> string option) \<Rightarrow> ColorConsoleHandler \<Rightarrow> log_record \<Rightarrow> string" where
  "log_line zone ctx h r =
    colorGray @ ''['' @ FormatDateTime zone (recTime r) @ '']'' @ colorReset @ '' ''
    @ level_color (recLevel r) @ ''['' @ level_string (recLevel r) @ '']'' @ colorReset @ '' ''
    @ level_color (recLevel r) @ recMessage r @ colorReset
    @ (if FromTraceID ctx \<noteq> [] then formatAttr (''trace_id'', FromTraceID ctx) else [])
    @ concat (map formatAttr (attrs h))
    @ concat (map (\<lambda>(k, v). formatAttr (if group h \<noteq> [] then group h @ ''.'' @ k else k, v)) (recAttrs r))
    @ [CHR 0x0A]"

definition WithAttrs :: "attr list \<Rightarrow> ColorConsoleHandler \<Rightarrow> ColorConsoleHandler" where
  "WithAttrs as h = h\<lparr>attrs := attrs h @ as\<rparr>"

definition WithGroup :: "string \<Rightarrow> ColorConsoleHandler \<Rightarrow> ColorConsoleHandler" where
  "WithGroup name h = (if name = [] then h else h\<lparr>group := (if group h \<noteq> [] then group h @ ''.'' @ name else name)\<rparr>)"

text \<open>
  \<^verbatim>\<open>Init\<close> installs a handler with the level of the options, the level Info being the zero value;
  a call of the logger writes a line when the default handler is enabled for its level.
\<close>

definition Init :: "int option \<Rightarrow> ColorConsoleHandler" where
  "Init opts = newColorConsoleHandler (Some (case opts of None \<Rightarrow> LevelInfo | Some level \<Rightarrow> level))"

definition log_at :: "(time \<Rightarrow> int) \<Rightarrow> (string \<Rightarrow> string option) \<Rightarrow> int \<Rightarrow> time \<Rightarrow> string \<Rightarrow> attr list \<Rightarrow> ColorConsoleHandler \<Rightarrow> string" where
  "log_at zone ctx level now msg args h =
    (if log_enabled h level then log_line zone ctx h \<lparr>recTime = now, recLevel = level, recMessage = msg, recAttrs = args\<rparr> else [])"

definition DebugContext :: "(time \<Rightarrow> int) \<Rightarrow> (string \<Rightarrow> string option) \<Rightarrow> time \<Rightarrow> string \<Rightarrow> attr list \<Rightarrow> ColorConsoleHandler \<Rightarrow> string" where
  "DebugContext zone ctx = log_at zone ctx LevelDebug"

definition InfoContext :: "(time \<Rightarrow> int) \<Rightarrow> (string \<Rightarrow> string option) \<Rightarrow> time \<Rightarrow> string \<Rightarrow> attr list \<Rightarrow> ColorConsoleHandler \<Rightarrow> string" where
  "InfoContext zone ctx = log_at zone ctx LevelInfo"

definition WarnContext :: "(time \<Rightarrow> int) \<Rightarrow> (string \<Rightarrow> string option) \<Rightarrow> time \<Rightarrow> string \<Rightarrow> attr list \<Rightarrow> ColorConsoleHandler \<Rightarrow> string" where
  "WarnContext zone ctx = log_at zone ctx LevelWarn"

definition ErrorContext :: "(time \<Rightarrow> int) \<Rightarrow> (string \<Rightarrow> string option) \<Rightarrow> time \<Rightarrow> string \<Rightarrow> attr list \<Rightarrow> ColorConsoleHandler \<Rightarrow> string" where
  "ErrorContext zone ctx = log_at zone ctx LevelError"

definition Debug :: "(time \<Rightarrow> int) \<Rightarrow> time \<Rightarrow> string \<Rightarrow> attr list \<Rightarrow> ColorConsoleHandler \<Rightarrow> string" where
  "Debug zone = DebugContext zone Map.empty"

definition Info :: "(time \<Rightarrow> int) \<Rightarrow> time \<Rightarrow> string \<Rightarrow> attr list \<Rightarrow> ColorConsoleHandler \<Rightarrow> string" where
  "Info zone = InfoContext zone Map.empty"

definition Warn :: "(time \<Rightarrow> int) \<Rightarrow> time \<Rightarrow> string \<Rightarrow> attr list \<Rightarrow> ColorConsoleHandler \<Rightarrow> string" where
  "Warn zone = WarnContext zone Map.empty"

definition Error :: "(time \<Rightarrow> int) \<Rightarrow> time \<Rightarrow> string \<Rightarrow> attr list \<Rightarrow> ColorConsoleHandler \<Rightarrow> string" where
  "Error zone = ErrorContext zone Map.empty"

text \<open>The middleware for HTTP requests: the line for a request, and what a panic does.\<close>

record http_request =
  reqMethod :: string
  reqPath :: string
  reqRawQuery :: string
  reqClientIP :: string

definition gin_args :: "http_request \<Rightarrow> int \<Rightarrow> string \<Rightarrow> string \<Rightarrow> attr list" where
  "gin_args req status latency errors =
    [(''method'', reqMethod req), (''path'', reqPath req), (''status'', Itoa status), (''latency'', latency), (''client_ip'', reqClientIP req)]
    @ (if reqRawQuery req \<noteq> [] then [(''query'', reqRawQuery req)] else []) @ (if errors \<noteq> [] then [(''errors'', errors)] else [])"

definition GinLogger :: "(time \<Rightarrow> int) \<Rightarrow> time \<Rightarrow> http_request \<Rightarrow> int \<Rightarrow> string \<Rightarrow> string \<Rightarrow> ColorConsoleHandler \<Rightarrow> string" where
  "GinLogger zone now req status latency errors =
    (if 500 \<le> status then Error zone now else if 400 \<le> status then Warn zone now else Info zone now)
      ''HTTP request'' (gin_args req status latency errors)"

text \<open>
  A handler that panics, with the text of the panic and of the stack, or gives a status: the
  status of the answer and what is logged.
\<close>

definition GinRecovery :: "(time \<Rightarrow> int) \<Rightarrow> time \<Rightarrow> (string \<times> string) + int \<Rightarrow> ColorConsoleHandler \<Rightarrow> int \<times> string" where
  "GinRecovery zone now outcome h =
    (case outcome of
       Inl (recovered, stack) \<Rightarrow> (500, Error zone now ''HTTP panic recovered'' [(''err'', recovered), (''stack'', stack)] h)
     | Inr status \<Rightarrow> (status, []))"

section \<open>Values are not quoted\<close>

lemma log_line_splits:
  "\<exists>pre post. \<forall>v. log_line zone ctx h (r\<lparr>recAttrs := as @ (k, v) # bs\<rparr>) = pre @ v @ post"
proof -
  let ?attr = "\<lambda>(k, v). formatAttr (if group h \<noteq> [] then group h @ ''.'' @ k else k, v)"
  let ?pre = "butlast (log_line zone ctx h (r\<lparr>recAttrs := as\<rparr>)) @ '' '' @ colorGray @ (if group h \<noteq> [] then group h @ ''.'' @ k else k) @ ''=''"
  have "\<forall>v. log_line zone ctx h (r\<lparr>recAttrs := as @ (k, v) # bs\<rparr>) = ?pre @ v @ colorReset @ concat (map ?attr bs) @ [CHR 0x0A]"
    by (simp add: log_line_def butlast_append formatAttr_def)
  then show ?thesis by blast
qed

lemma log_line_injects:
  "\<exists>v pre post. log_line zone ctx h (r\<lparr>recAttrs := as @ (k, v) # bs\<rparr>) = pre @ [CHR 0x0A] @ line @ post"
proof -
  obtain pre post where "\<forall>v. log_line zone ctx h (r\<lparr>recAttrs := as @ (k, v) # bs\<rparr>) = pre @ v @ post"
    using log_line_splits by blast
  then have "log_line zone ctx h (r\<lparr>recAttrs := as @ (k, [CHR 0x0A] @ line) # bs\<rparr>) = pre @ [CHR 0x0A] @ line @ post" by simp
  then show ?thesis by blast
qed

lemma Init_enabled: "log_enabled (Init (Some l)) level \<longleftrightarrow> l \<le> level"
  by (simp add: log_enabled_def Init_def newColorConsoleHandler_def)

lemmas log_calls = Debug_def Info_def Warn_def Error_def DebugContext_def InfoContext_def WarnContext_def ErrorContext_def

lemma GinLogger_line:
  "\<exists>level. \<forall>req. GinLogger zone now req status latency errors (Init (Some LevelDebug)) =
    log_line zone Map.empty (Init (Some LevelDebug))
      \<lparr>recTime = now, recLevel = level, recMessage = ''HTTP request'', recAttrs = gin_args req status latency errors\<rparr>"
  by (auto simp: GinLogger_def log_calls log_at_def Init_enabled LevelDebug_def LevelInfo_def LevelWarn_def LevelError_def)

text \<open>
  C40. Log lines can be forged. For any handler, any record, any position among its attributes and
  any line that the service could write for another record, there is a value that, given to the
  attribute at that position, makes the output contain exactly that line on a line of its own:
  values are written as they are. In particular there is a request path that does this for the
  line of an HTTP request, with the handler that the service installs.
\<close>

theorem log_forgery:
  "(\<exists>v pre post. log_line zone ctx h (r\<lparr>recAttrs := as @ (k, v) # bs\<rparr>) = pre @ [CHR 0x0A] @ log_line zone' ctx' h' r' @ post)
   \<and> (\<exists>urlPath pre post. GinLogger zone now (req\<lparr>reqPath := urlPath\<rparr>) status latency errors (Init (Some LevelDebug))
        = pre @ [CHR 0x0A] @ log_line zone' ctx' h' r' @ post)"
proof (intro conjI log_line_injects)
  let ?line = "log_line zone' ctx' h' r'" and ?h = "Init (Some LevelDebug)"
  let ?bs = "tl (tl (gin_args req status latency errors))"
  have args: "gin_args (req\<lparr>reqPath := p\<rparr>) status latency errors = [(''method'', reqMethod req)] @ (''path'', p) # ?bs" for p
    by (simp add: gin_args_def)
  obtain level where line: "\<And>p. GinLogger zone now (req\<lparr>reqPath := p\<rparr>) status latency errors ?h =
      log_line zone Map.empty ?h \<lparr>recTime = now, recLevel = level, recMessage = ''HTTP request'',
        recAttrs = [(''method'', reqMethod req)] @ (''path'', p) # ?bs\<rparr>"
    using GinLogger_line [of zone now status latency errors] args by metis
  show "\<exists>urlPath pre post. GinLogger zone now (req\<lparr>reqPath := urlPath\<rparr>) status latency errors ?h = pre @ [CHR 0x0A] @ ?line @ post"
    using log_line_injects [where zone = zone and ctx = Map.empty and h = ?h and as = "[(''method'', reqMethod req)]" and k = "''path''" and bs = ?bs
        and line = ?line and r = "\<lparr>recTime = now, recLevel = level, recMessage = ''HTTP request'', recAttrs = []\<rparr>"]
    unfolding line by simp
qed

end
