(* ===== verification/Service.thy ===== *)
theory Service
  imports HttpApi MailMachine
begin

text \<open>
  The account service and the mail store together. Both work on one directory
  tree: \<^verbatim>\<open>user.json\<close> of a user lies next to the user's \<^verbatim>\<open>mail\<close> directory. A step of
  the whole is a step of the HTTP service or an operation of the mail store, on
  any mailbox of any account; they may interleave in any way. The invariants of
  the two parts hold together because each touches only its own files.
\<close>

inductive service_step :: "api_env \<Rightarrow> api_state \<Rightarrow> api_state \<Rightarrow> bool" for env where
  Http: "api_step env s s' \<Longrightarrow> service_step env s s'"
| Mail: "mail_step (UserDir (apiRoot env)) (files s) fs' \<Longrightarrow> service_step env s (s\<lparr>files := fs'\<rparr>)"

section \<open>HTTP requests leave the mail alone\<close>

lemma writeUser_files:
  "writeUser rootDir u fs = (r, fs') \<Longrightarrow> p \<noteq> userPath rootDir (UID u) \<Longrightarrow> file_at fs' p = file_at fs p"
  by (intro file_at_eqI) (metis writeUser_frame)

lemma api_step_files:
  assumes "api_step env s s'" "\<And>uid. p \<noteq> userPath (apiRoot env) uid"
  shows "file_at (files s') p = file_at (files s) p"
proof -
  have same: "(\<And>q. fs_lookup fs' q = fs_lookup (files s) q) \<Longrightarrow> file_at fs' p = file_at (files s) p" for fs'
    by (simp add: file_at_def)
  have wr: "writeUser (apiRoot env) u fs1 = (r, fs') \<Longrightarrow> (\<And>q. fs_lookup fs1 q = fs_lookup (files s) q) \<Longrightarrow>
      file_at fs' p = file_at (files s) p" for u fs1 r fs'
    using writeUser_files [of "apiRoot env" u fs1 r fs' p, OF _ assms(2)] same [of fs1] by (rule trans)
  from assms(1) show ?thesis
  proof cases
    case (Faults fp)
    then show ?thesis by (simp add: file_at_def)
  next
    case (Register parseAddress hashPassword now doc resp fs')
    have "file_at fs' p = file_at (files s) p"
      using Register(2)
    proof (cases rule: RegisterHandler_cases)
      case (called req r)
      have ld: "loadUsers (apiRoot env) (files s) = (x, fs1) \<Longrightarrow> fs_lookup fs1 q = fs_lookup (files s) q" for x fs1 q
        using loadUsers_lookup [of "apiRoot env" "files s" q] by simp
      from register_writes [OF called(3)] consider
          (stored) us fs1 u r2 where "loadUsers (apiRoot env) (files s) = (Inr us, fs1)" "writeUser (apiRoot env) u fs1 = (r2, fs')"
        | (unchanged) "\<forall>q. fs_lookup fs' q = fs_lookup (files s) q" by blast
      then show ?thesis
      proof cases
        case stored
        from wr [OF stored(2) ld [OF stored(1)]] show ?thesis .
      qed (use same in blast)
    qed simp
    then show ?thesis by (simp add: Register(1))
  next
    case (Login checkHash now doc resp fs')
    from same [OF LoginHandler_lookup [OF Login(2)]] show ?thesis by (simp add: Login(1))
  next
    case (TotpLogin validate now doc resp fs')
    from same [OF TotpLoginHandler_lookup [OF TotpLogin(2)]] show ?thesis by (simp add: TotpLogin(1))
  next
    case (ProfileEdit now doc resp fs')
    have "file_at fs' p = file_at (files s) p"
      using ProfileEdit(2)
    proof (cases rule: ProfileEditHandler_cases)
      case (called req updates r)
      from called(3) show ?thesis by (cases rule: updateProfile_cases) (use wr same in blast)+
    qed simp
    then show ?thesis by (simp add: ProfileEdit(1))
  next
    case (ProfileView now doc resp fs')
    from same [OF ProfileViewHandler_lookup [OF ProfileView(2)]] show ?thesis by (simp add: ProfileView(1))
  next
    case (TotpRead checkHash call q fs')
    have "fs_lookup fs' r = fs_lookup (files s) r" for r
      using totp_read_lookup [of "apiRoot env" checkHash call "files s" r] by (simp add: TotpRead(2))
    from same [OF this] show ?thesis by (simp add: TotpRead(1))
  next
    case (TotpCommit xs u ok ys resp fs')
    from TotpCommit(3) obtain r where "writeUser (apiRoot env) u (files s) = (r, fs')"
      by (auto simp: commit_def split: prod.splits sum.splits)
    from wr [OF this refl] show ?thesis by (simp add: TotpCommit(1))
  qed
qed

lemma mail_inv_api_step:
  assumes "mail_inv (UserDir (apiRoot env)) n (files s)" "api_step env s s'"
  shows "mail_inv (UserDir (apiRoot env)) (Suc n) (files s')"
  unfolding mail_inv_def
proof (intro allI impI)
  fix uid name assume ins: "inside name"
  have "indexPath (UserDir (apiRoot env)) uid name \<noteq> userPath (apiRoot env) uid'" for uid'
    using ins by (auto simp: indexPath_eq mailboxDir_eq UserDir_eq userPath_eq)
  then show "box_sound (UserDir (apiRoot env)) (Suc n) (files s') uid name"
    using assms ins api_step_files [OF assms(2)] by (intro sound_same) (auto simp: mail_inv_def)
qed

section \<open>Mail operations leave the accounts alone\<close>

lemma api_inv_mail_step:
  assumes inv: "api_inv env n s" and mail: "mail_inv (UserDir (apiRoot env)) n (files s)"
    and st: "mail_step (UserDir (apiRoot env)) (files s) fs'"
  shows "api_inv env (Suc n) (s\<lparr>files := fs'\<rparr>)"
  using st
proof cases
  case (MailFaults fp)
  then show ?thesis using api_inv_reads [OF inv, of fs'] by simp
next
  case (MailOp name op now uid)
  let ?R = "apiRoot env"
  have "inside name" using MailOp(2) by (cases op) (auto simp: op_names_def)
  then have ix: "index_ok (cur_index (UserDir ?R) now (files s) uid name)" using mail unfolding mail_inv_def by (blast intro: sound_cur(1))
  note keep = store_inv_run_op [OF api_invD(1) [OF inv] MailOp(2) ix, folded MailOp(1)]
  have "has_file ?R fs' u = has_file ?R (files s) u" for u
    using run_op_user_files [OF MailOp(2) ix, folded MailOp(1), of "Itoa (UID u)"]
    by (simp add: has_file_def userPath_eq flip: file_at_Some)
  moreover have "population ?R (s\<lparr>files := fs'\<rparr>) = population ?R s" by (simp add: population_def abs_users_def keep(2))
  ultimately have "api_inv env n (s\<lparr>files := fs'\<rparr>)" using inv keep(1) by (simp add: api_inv_def)
  then show ?thesis by (rule api_inv_Suc)
qed

section \<open>The invariant of the whole\<close>

definition service_inv :: "api_env \<Rightarrow> nat \<Rightarrow> api_state \<Rightarrow> bool" where
  "service_inv env n s \<longleftrightarrow> api_inv env n s \<and> mail_inv (UserDir (apiRoot env)) n (files s)"

lemma service_inv_init: "api_init env s \<Longrightarrow> service_inv env 0 s"
  by (simp add: service_inv_def api_inv_init) (simp add: api_init_def mail_inv_init mail_init_def)

lemma service_inv_step:
  assumes "service_inv env n s" "n < 2 ^ 32 - 2" "service_step env s s'"
  shows "service_inv env (Suc n) s'"
  using assms(3)
proof cases
  case Http
  with assms show ?thesis using api_inv_step [of env n s s'] mail_inv_api_step [of env n s s'] by (simp add: service_inv_def)
next
  case (Mail fs')
  with assms show ?thesis using api_inv_mail_step [of env n s fs'] user_accounts.mail_inv_step [of "apiRoot env" n "files s" fs'] by (simp add: service_inv_def)
qed

interpretation service: counted_invariant "api_init env" "service_step env" "service_inv env" "2 ^ 32 - 2" for env
  by unfold_locales (rule service_inv_init, assumption, rule service_inv_step)

end
