(* ===== verification/Spec2Isabelle.thy ===== *)
theory Spec2Isabelle
  imports Startup QueueDrain QueueWorker Pop3Sessions ImapSessions Logger Service
begin

text \<open>
  Astraccounts is an account service with a mail server: an HTTP API for registration, login
  tokens, profiles and two-factor login, and SMTP, POP3 and IMAP services on the mail of the same
  accounts, with a queue for outgoing mail. All state is in files under one data directory. This
  development models the Go sources under \<^verbatim>\<open>src\<close> as executable definitions and proves what makes
  them correct.

  \<^bold>\<open>Parts and theories.\<close>

  \<^item> Foundations. \<^verbatim>\<open>Prelude\<close> holds shared types, 64-bit arithmetic on integers, lists, and the
    interface of invariants of a step relation (\<^verbatim>\<open>counted_invariant\<close>). \<^verbatim>\<open>Unicode\<close>, \<^verbatim>\<open>GoStrings\<close>,
    \<^verbatim>\<open>GoNet\<close> and \<^verbatim>\<open>Json\<close> model what the code uses of Go's standard library; strings are byte
    sequences, and JSON is modelled by document trees, with the loss of malformed text
    (\<^verbatim>\<open>json_str\<close>) written out. \<^verbatim>\<open>Crypto\<close> has SHA-256 and HMAC as executable definitions.
    \<^verbatim>\<open>FileSystem\<close> is a tree of directories and files with a plan of faults: any call may fail and
    any write may be torn.
  \<^item> Accounts, \<^verbatim>\<open>src/auth\<close>. \<^verbatim>\<open>Token\<close> is \<^verbatim>\<open>token.go\<close>; \<^verbatim>\<open>Profile\<close> the schema of \<^verbatim>\<open>profile.go\<close>;
    \<^verbatim>\<open>UserStore\<close> the store of \<^verbatim>\<open>auth.go\<close> and the accounts of \<^verbatim>\<open>account.go\<close>; \<^verbatim>\<open>AuthHandlers\<close> the
    HTTP handlers of \<^verbatim>\<open>auth.go\<close> and \<^verbatim>\<open>profile.go\<close>; \<^verbatim>\<open>Totp\<close> is \<^verbatim>\<open>totp.go\<close>, where each handler is a
    read and a later write because the code drops its mutex in between.
  \<^item> Mail store. \<^verbatim>\<open>MailFlags\<close> is \<^verbatim>\<open>mail/flags.go\<close>; \<^verbatim>\<open>MailStore\<close> is \<^verbatim>\<open>mail/store.go\<close>;
    \<^verbatim>\<open>MailboxNames\<close>, \<^verbatim>\<open>Mailboxes\<close>, \<^verbatim>\<open>MailboxOps\<close> and \<^verbatim>\<open>MailMachine\<close> give the abstract view of a
    mailbox (a list of UID, flags, date and body), the effect of every operation on it, and
    sequences of operations.
  \<^item> Mail services. \<^verbatim>\<open>MailConfig\<close> is \<^verbatim>\<open>mail/config.go\<close> and \<^verbatim>\<open>mail/address.go\<close>; \<^verbatim>\<open>MailQueue\<close>,
    \<^verbatim>\<open>Relay\<close>, \<^verbatim>\<open>RelayQueue\<close>, \<^verbatim>\<open>QueueDrain\<close> and \<^verbatim>\<open>QueueWorker\<close> are \<^verbatim>\<open>mail/relay.go\<close>; \<^verbatim>\<open>Smtp\<close> and \<^verbatim>\<open>SmtpSessions\<close>
    \<^verbatim>\<open>mail/smtp.go\<close>; \<^verbatim>\<open>Pop3\<close> and \<^verbatim>\<open>Pop3Sessions\<close> \<^verbatim>\<open>mail/pop3.go\<close>; \<^verbatim>\<open>Imap\<close> and \<^verbatim>\<open>ImapSessions\<close>
    \<^verbatim>\<open>mail/imap.go\<close>; \<^verbatim>\<open>MailServer\<close> is \<^verbatim>\<open>mail/server.go\<close>.
  \<^item> The process. \<^verbatim>\<open>HttpApi\<close> has the routes of \<^verbatim>\<open>main.go\<close> as a step relation, \<^verbatim>\<open>Startup\<close> the rest
    of \<^verbatim>\<open>main.go\<close>, \<^verbatim>\<open>Logger\<close> the files under \<^verbatim>\<open>logger\<close>, and \<^verbatim>\<open>Service\<close> composes the HTTP service
    with the mail store.

  \<^bold>\<open>How code becomes definitions.\<close> A struct is a record, an enumeration a datatype, a method a
  function that takes and returns the files it works on; errors are the left side of a sum. A
  method that holds a mutex throughout is one transition. Where the code releases it, the rest of
  the service may act in between: two-factor requests are two steps, and the IMAP commands that
  call the store twice and the lines of a POP3 session take what happens meanwhile as an
  argument. UIDs of messages and sizes are 32-bit words and wrap around; user identifiers, limits
  and delays are integers with the 64-bit wrap-around written out.

  \<^bold>\<open>What the theorems show.\<close>

  \<^item> Accounts: what every handler answers and stores on every branch and under every fault;
    tokens verify exactly when they should; a refused request writes nothing; recovery codes work
    once when requests do not overlap, and more than once when they do. The two-factor handlers
    refine an abstract machine.
  \<^item> Mail store: each operation's effect on the abstract mailbox, separation of accounts and
    mailboxes, round trip of names, and what the name of two dots does.
  \<^item> Queue: every recipient of an attempt is delivered, rejected or deferred; delays are bounded;
    twelve passes empty the queue whatever the network does; no wake-up of the worker is lost.
  \<^item> Sessions: no open relay; accepted mail is stored and spooled; POP3 authenticates only over
    TLS when there is a certificate, numbers messages once, deletes only at \<^verbatim>\<open>QUIT\<close>, and frames
    its answers so that no message can break them; IMAP commands act on the messages selected
    when they began, and \<^verbatim>\<open>FETCH\<close> equals a reference on the abstract mailbox.
  \<^item> The whole: invariants of every interleaving of HTTP requests and mail operations, and that a
    process which comes up is well configured.

  The interfaces are locales. \<^verbatim>\<open>counted_invariant\<close> is interpreted for the HTTP service, the mail
  store, their composition, the queue worker, and the SMTP and POP3 sessions; \<^verbatim>\<open>json_codec\<close> for the records of users,
  mailbox indexes and queue entries; \<^verbatim>\<open>flag_set\<close> for flags up to letter case; \<^verbatim>\<open>two_phase\<close> for the
  two-factor handlers; \<^verbatim>\<open>user_dirs\<close> and \<^verbatim>\<open>accounts\<close>, what the mail server relies on, for the user
  store.

  \<^bold>\<open>Bounds and fuel.\<close> The invariants count steps because UIDs are machine integers: user
  identifiers cannot overflow within two to the 63rd steps nor message UIDs within two to the
  32nd. No definition needs fuel: every loop of the code goes over a list or a string or has a
  decreasing measure. The worker of the queue, which loops until it is stopped, is a function of
  the sequence of its wake-ups, and the session loops are functions of the lines that arrive.

  \<^bold>\<open>Parameters.\<close> Code outside the repository is an argument: bcrypt, the TOTP library, the random
  source, \<^verbatim>\<open>mail.ParseAddress\<close>, the TLS and key parsers, the resolver and the SMTP client, the
  SMTP, IMAP and HTTP protocol engines, the message parsers, DKIM signing, the network and the
  clock. Theorems that need something of them name it as a hypothesis, and their witnesses
  instantiate the parameter.

  \<^bold>\<open>Not modelled.\<close> The contents of log calls inside other components, deadlines and failing
  writes to clients (the code ignores their errors), the scheduling of goroutines beyond the
  order of the steps, loading the file of environment variables, and tests. Concurrent changes
  of the data directory by other programs are outside the model.
\<close>

section \<open>The HTTP service\<close>

text \<open>
  C2. Safety of the account service under every interleaving. From an empty store, after any
  number of steps below two to the 63rd of any requests with any bodies, in which the
  two-factor requests may overlap each other and everything else between their read and their
  write, and in which any file operation may fail or be torn: every readable record lies in the
  directory of its UID, identifiers and (up to letter case) e-mail addresses are unique, UIDs
  are positive and at most the number of steps, two-factor login is never active without a
  secret, and recovery codes exist only while it is active.
\<close>

theorem api_safe:
  assumes "reach (api_init env) (api_step env) n s" "n \<le> 2 ^ 63 - 1"
  shows "store_inv (apiRoot env) (files s)
    \<and> (\<forall>u\<in>abs_users (apiRoot env) (files s). 1 \<le> UID u \<and> UID u \<le> int n \<and> totp_ok u)"
proof -
  have inv: "api_inv env n s" by (rule api.reach_inv [OF assms])
  then have "\<forall>u\<in>abs_users (apiRoot env) (files s). user_ok u \<and> UID u \<le> int n \<and> totp_ok u"
    by (simp add: api_inv_def population_def)
  then show ?thesis using inv by (simp add: api_inv_def user_ok_def)
qed

definition demo_env :: api_env where
  "demo_env = \<lparr>apiRoot = [''data''], apiMailDomain = [], apiIssuer = demo_issuer,
     apiSchema = \<lparr>schema_fields = builtinFields\<rparr>\<rparr>"

theorem api_safe_witness:
  "\<exists>s. reach (api_init demo_env) (api_step demo_env) 1 s \<and> store_inv [''data''] (files s)"
proof -
  let ?s0 = "\<lparr>files = empty_fs, inflight = []\<rparr>"
  obtain resp fs' where h: "RegisterHandler [''data''] Some (\<lambda>p. Some ''h'') [] 7 (Some demo_doc) empty_fs = (resp, fs')"
    by fastforce
  have "api_init demo_env ?s0"
    by (simp add: api_init_def demo_env_def empty_fs_def plain_name_def)
  then have "reach (api_init demo_env) (api_step demo_env) 0 ?s0" by (rule reach_init)
  moreover have "api_step demo_env ?s0 (?s0\<lparr>files := fs'\<rparr>)"
    using h by (intro api_step.Register) (simp add: demo_env_def)
  ultimately have r: "reach (api_init demo_env) (api_step demo_env) 1 (?s0\<lparr>files := fs'\<rparr>)"
    using reach_step by fastforce
  with api_safe [OF r] show ?thesis by (auto simp: demo_env_def)
qed

section \<open>The service with its mail store\<close>



text \<open>
  HTTP requests leave the mail alone. No step of the HTTP service, under any faults, changes
  the index or the body of any message of any mailbox inside a mail directory.
\<close>

lemma http_keeps_mail:
  assumes "api_step env s s'" "inside name"
  shows "box_index (UserDir (apiRoot env)) (files s') uid name = box_index (UserDir (apiRoot env)) (files s) uid name
    \<and> body_of (UserDir (apiRoot env)) (files s') uid name = body_of (UserDir (apiRoot env)) (files s) uid name"
proof -
  have "file_at (files s') (mailboxDir (UserDir (apiRoot env)) uid name @ [x]) =
      file_at (files s) (mailboxDir (UserDir (apiRoot env)) uid name @ [x])" for x
    using assms(2) by (intro api_step_files [OF assms(1)]) (auto simp: mailboxDir_eq UserDir_eq userPath_eq)
  then show ?thesis by (simp add: box_index_def body_of_def indexPath_eq fun_eq_iff)
qed

end
